(* ===== verification/Fc_Prelude.thy ===== *)
theory Fc_Prelude
  imports Complex_Main "HOL-Library.Word" "HOL-Library.Monad_Syntax"
begin

unbundle bit_operations_syntax

text \<open>
  Shared vocabulary of the development: the machine types of the C code, byte buffers and
  bounds-checked access to them, the byte-order conversions, the few functions of the C string
  library the program calls, and the macro \<open>CLAMP\<close> of \<open>src/src/utilities/utils.h\<close>.

  Conventions used by every theory:
  \<^item> A pointer that is only read is the list of bytes from the address it points to up to the end
    of the object it points into. An access past that end has no defined behaviour in C; an
    operation that would make one returns \<open>None\<close>. A result \<open>Some x\<close> therefore says both that the
    code stayed inside its objects and that it computed \<open>x\<close>.
  \<^item> The host is little-endian with 32-bit \<open>int\<close> and 64-bit \<open>long\<close>, \<open>size_t\<close> and \<open>time_t\<close>
    (the x86-64 flight computer), so \<open>htons\<close>, \<open>ntohs\<close>, \<open>htonl\<close> and \<open>ntohl\<close> swap bytes.
\<close>

named_theorems bytes_simps \<open>unfolding of byte-level encoders and host loads\<close>
named_theorems run_simps \<open>unfolding of the operations of the components\<close>

section \<open>Machine types\<close>

type_synonym u8 = "8 word"
type_synonym u16 = "16 word"
type_synonym u32 = "32 word"
type_synonym u64 = "64 word"
type_synonym bytes = "u8 list"

section \<open>The macro CLAMP\<close>

definition CLAMP :: "'a::linorder \<Rightarrow> 'a \<Rightarrow> 'a \<Rightarrow> 'a" where
  "CLAMP value lower_bound upper_bound =
     (if value < lower_bound then lower_bound
      else if value > upper_bound then upper_bound else value)"

lemma CLAMP_bounds:
  assumes "lo \<le> hi"
  shows "lo \<le> CLAMP v lo hi" and "CLAMP v lo hi \<le> hi"
  using assms by (auto simp: CLAMP_def)

lemma CLAMP_id [simp]: "lo \<le> v \<Longrightarrow> v \<le> hi \<Longrightarrow> CLAMP v lo hi = v"
  by (auto simp: CLAMP_def)

lemma CLAMP_mono: "v \<le> w \<Longrightarrow> lo \<le> hi \<Longrightarrow> CLAMP v lo hi \<le> CLAMP w lo hi"
  by (auto simp: CLAMP_def)

section \<open>Byte order\<close>

text \<open>
  The bytes of a number, most significant first, and the number a byte string stands for. The
  host representation is the reversed list; \<open>htons\<close>, \<open>htonl\<close> and their inverses re-read the
  host bytes in the other order.
\<close>

fun be_of :: "nat \<Rightarrow> nat \<Rightarrow> bytes" where
  "be_of 0 x = []"
| "be_of (Suc n) x = word_of_nat (x div 256 ^ n) # be_of n x"

definition of_be :: "bytes \<Rightarrow> nat" where
  "of_be bs = foldl (\<lambda>a b. a * 256 + unat b) 0 bs"

lemma length_be_of [simp]: "length (be_of n x) = n"
  by (induction n) auto

lemma be_of_eq_Nil [simp]: "be_of n x = [] \<longleftrightarrow> n = 0"
  by (cases n) auto

lemma foldl_be: "foldl (\<lambda>a b. a * 256 + unat (b :: u8)) a bs
    = a * 256 ^ length bs + foldl (\<lambda>a b. a * 256 + unat b) 0 bs"
proof (induction bs arbitrary: a)
  case Nil
  show ?case by simp
next
  case (Cons b bs)
  have "foldl (\<lambda>a b. a * 256 + unat b) a (b # bs)
      = (a * 256 + unat b) * 256 ^ length bs + foldl (\<lambda>a b. a * 256 + unat b) 0 bs"
    using Cons [of "a * 256 + unat b"] by simp
  also have "\<dots> = a * 256 ^ length (b # bs)
      + (unat b * 256 ^ length bs + foldl (\<lambda>a b. a * 256 + unat b) 0 bs)"
    by (simp add: distrib_right mult.assoc)
  also have "\<dots> = a * 256 ^ length (b # bs) + foldl (\<lambda>a b. a * 256 + unat b) 0 (b # bs)"
    using Cons [of "unat b"] by simp
  finally show ?case .
qed

lemma of_be_Nil [simp]: "of_be [] = 0"
  by (simp add: of_be_def)

lemma of_be_Cons: "of_be (b # bs) = unat b * 256 ^ length bs + of_be bs"
  by (simp add: of_be_def foldl_be [of "unat b"])

lemma of_be_snoc [simp]: "of_be (bs @ [b]) = of_be bs * 256 + unat b"
  by (simp add: of_be_def)

lemma of_be_less: "of_be bs < 256 ^ length bs"
proof (induction bs rule: rev_induct)
  case (snoc b bs)
  have "of_be bs * 256 + unat b < (of_be bs + 1) * 256"
    using unsigned_less [of b] by simp
  also have "\<dots> \<le> 256 ^ length bs * 256"
    using snoc by (intro mult_right_mono) auto
  finally show ?case by simp
qed simp

lemma of_be_be_of: "of_be (be_of n x) = x mod 256 ^ n"
proof (induction n)
  case (Suc n)
  have "unat (word_of_nat (x div 256 ^ n) :: u8) = x div 256 ^ n mod 256"
    by (simp add: unat_of_nat)
  then have "of_be (be_of (Suc n) x) = (x div 256 ^ n mod 256) * 256 ^ n + x mod 256 ^ n"
    by (simp add: of_be_Cons Suc)
  also have "\<dots> = x mod (256 ^ n * 256)"
    by (simp add: mod_mult2_eq)
  finally show ?case by (simp add: mult.commute)
qed simp

lemma be_of_mod: "n \<le> m \<Longrightarrow> be_of n (x mod 256 ^ m) = be_of n x"
proof (induction n)
  case (Suc n)
  have m: "(256::nat) ^ m = 256 ^ n * 256 ^ (m - n)"
    using Suc.prems by (simp flip: power_add)
  have "x mod 256 ^ m div 256 ^ n = x div 256 ^ n mod 256 ^ (m - n)"
    unfolding m by (simp add: mod_mult2_eq)
  moreover have "x div 256 ^ n mod 256 ^ (m - n) mod 256 = x div 256 ^ n mod 256"
    using Suc.prems by (intro mod_mod_cancel) (simp add: dvd_power)
  ultimately show ?case
    using Suc by (simp add: word_of_nat_eq_iff take_bit_eq_mod)
qed simp

lemma be_of_of_be: "be_of (length bs) (of_be bs) = bs"
proof (induction bs)
  case (Cons b bs)
  have "be_of (length bs) (unat b * 256 ^ length bs + of_be bs) = bs"
    using be_of_mod [of "length bs" "length bs" "unat b * 256 ^ length bs + of_be bs"]
      be_of_mod [of "length bs" "length bs" "of_be bs"] Cons by simp
  then show ?case by (simp add: of_be_Cons of_be_less)
qed simp

lemma be_of_numeral:
  "be_of (numeral k) x = word_of_nat (x div 256 ^ pred_numeral k) # be_of (pred_numeral k) x"
  "be_of 1 x = [word_of_nat x]"
  by (simp_all add: numeral_eq_Suc)

definition be16 :: "u16 \<Rightarrow> bytes" where
  [bytes_simps]: "be16 w = be_of 2 (unat w)"

definition be32 :: "u32 \<Rightarrow> bytes" where
  [bytes_simps]: "be32 w = be_of 4 (unat w)"

definition be64 :: "u64 \<Rightarrow> bytes" where
  [bytes_simps]: "be64 w = be_of 8 (unat w)"

definition host16 :: "u16 \<Rightarrow> bytes" where
  [bytes_simps]: "host16 w = rev (be16 w)"

definition host32 :: "u32 \<Rightarrow> bytes" where
  [bytes_simps]: "host32 w = rev (be32 w)"

definition host64 :: "u64 \<Rightarrow> bytes" where
  [bytes_simps]: "host64 w = rev (be64 w)"

definition get_be16 :: "bytes \<Rightarrow> u16" where
  [bytes_simps]: "get_be16 bs = word_of_nat (of_be (take 2 bs))"

definition get_be32 :: "bytes \<Rightarrow> u32" where
  [bytes_simps]: "get_be32 bs = word_of_nat (of_be (take 4 bs))"

definition get_host16 :: "bytes \<Rightarrow> u16" where
  [bytes_simps]: "get_host16 bs = word_of_nat (of_be (rev (take 2 bs)))"

definition get_host32 :: "bytes \<Rightarrow> u32" where
  [bytes_simps]: "get_host32 bs = word_of_nat (of_be (rev (take 4 bs)))"

definition get_host64 :: "bytes \<Rightarrow> u64" where
  [bytes_simps]: "get_host64 bs = word_of_nat (of_be (rev (take 8 bs)))"

text \<open>\<open>htons\<close> and \<open>ntohs\<close>, \<open>htonl\<close> and \<open>ntohl\<close>, and \<open>__builtin_bswap64\<close>.\<close>

definition bswap16 :: "u16 \<Rightarrow> u16" where
  [bytes_simps]: "bswap16 w = get_be16 (host16 w)"

definition bswap32 :: "u32 \<Rightarrow> u32" where
  [bytes_simps]: "bswap32 w = get_be32 (host32 w)"

definition bswap64 :: "u64 \<Rightarrow> u64" where
  [bytes_simps]: "bswap64 w = get_host64 (be64 w)"

lemma length_codecs [simp]:
  "length (be16 w2) = 2" "length (be32 w4) = 4" "length (be64 w8) = 8"
  "length (host16 w2) = 2" "length (host32 w4) = 4" "length (host64 w8) = 8"
  by (simp_all add: bytes_simps)

lemma unat_less_powers:
  "unat (b :: u8) < 256" "unat (w2 :: u16) < 65536" "unat (w4 :: u32) < 4294967296"
  "unat (w8 :: u64) < 18446744073709551616"
  using unsigned_less [where 'a = nat, of b] unsigned_less [where 'a = nat, of w2]
    unsigned_less [where 'a = nat, of w4] unsigned_less [where 'a = nat, of w8] by simp_all

lemma unat_mod_powers [simp]:
  "unat (b :: u8) mod 256 = unat b"
  "unat (w2 :: u16) mod 65536 = unat w2" "unat (w4 :: u32) mod 4294967296 = unat w4"
  "unat (w8 :: u64) mod 18446744073709551616 = unat w8"
  by (simp_all add: unat_less_powers)

lemma get_put [simp]:
  "get_be16 (be16 w2 @ r) = w2" "get_be32 (be32 w4 @ r) = w4"
  "get_host16 (host16 w2 @ r) = w2" "get_host32 (host32 w4 @ r) = w4"
  "get_host64 (host64 w8 @ r) = w8"
  by (simp_all add: bytes_simps of_be_be_of)

lemmas get_put_Nil [simp] = get_put [where r = "[]", unfolded append_Nil2]

lemma be_of_unat_of_be [simp]:
  fixes bs :: bytes
  assumes "length bs = n" and "256 ^ n = (2::nat) ^ LENGTH('a::len)"
  shows "be_of n (unat (word_of_nat (of_be bs) :: 'a word)) = bs"
  using assms of_be_less [of bs] be_of_of_be [of bs] by (simp add: unat_of_nat)

text \<open>Storing a swapped value puts it in network order; reading one and swapping it recovers it.\<close>

lemma host_bswap [simp]:
  "host16 (bswap16 w2) = be16 w2" "host32 (bswap32 w4) = be32 w4" "host64 (bswap64 w8) = be64 w8"
  by (simp_all add: bytes_simps)

lemma bswap_get_host:
  "2 \<le> length bs \<Longrightarrow> bswap16 (get_host16 bs) = get_be16 bs"
  "4 \<le> length bs \<Longrightarrow> bswap32 (get_host32 bs) = get_be32 bs"
  by (simp_all add: bytes_simps)

lemma bswap_bswap [simp]:
  "bswap16 (bswap16 w2) = w2" "bswap32 (bswap32 w4) = w4" "bswap64 (bswap64 w8) = w8"
proof -
  have "host16 (bswap16 (bswap16 w2)) = host16 w2" "host32 (bswap32 (bswap32 w4)) = host32 w4"
    "host64 (bswap64 (bswap64 w8)) = host64 w8"
    by (simp_all add: bytes_simps)
  then show "bswap16 (bswap16 w2) = w2" "bswap32 (bswap32 w4) = w4" "bswap64 (bswap64 w8) = w8"
    by (metis get_put_Nil)+
qed

text \<open>
  The code's own shifts: taking a byte out of a word, and appending a byte to one.
\<close>

lemma unat_drop_bit: "unat (drop_bit k (w :: 'a::len word)) = unat w div 2 ^ k"
  unfolding unsigned_drop_bit_eq by (simp add: take_bit_nat_eq_self drop_bit_eq_div)

lemma ucast_drop_bit:
  "(ucast (drop_bit k (w :: 'a::len word)) :: 'b::len word) = word_of_nat (unat w div 2 ^ k)"
  by (subst of_nat_unat [of "drop_bit k w", symmetric]) (simp only: unat_drop_bit)

lemma push_bit_8_or:
  fixes w :: "'a::len word" and b :: u8
  shows "push_bit 8 w OR ucast b = w * 256 + ucast b"
proof -
  have "push_bit 8 w + ucast b = push_bit 8 w OR ucast b"
    by (rule disjunctive_add) (auto simp: bit_simps dest: bit_imp_le_length)
  then show ?thesis by (simp add: push_bit_eq_mult mult.commute)
qed

text \<open>The \<open>int16_t\<close> with the bits of a word.\<close>

lemma sint16: "sint (w :: u16) = (if uint w < 32768 then uint w else uint w - 65536)"
proof -
  have "uint w < 65536" using uint_lt2p [of w] by simp
  moreover have "uint w div 32768 = (if uint w < 32768 then 0 else 1)"
    using calculation by (auto simp: div_pos_pos_trivial)
  ultimately show ?thesis
    by (simp add: sint_uint signed_take_bit_eq_take_bit_minus bit_iff_odd take_bit_int_eq_self)
qed

section \<open>Objects in memory\<close>

text \<open>
  Reads through a pointer, at an offset: \<open>None\<close> past the end of the object. \<open>memcpy_from src n\<close>
  is the source side of \<open>memcpy (_, src, n)\<close>.
\<close>

definition load8 :: "bytes \<Rightarrow> nat \<Rightarrow> u8 option" where
  [bytes_simps]: "load8 p off = (if off < length p then Some (p ! off) else None)"

definition load16 :: "bytes \<Rightarrow> nat \<Rightarrow> u16 option" where
  [bytes_simps]: "load16 p off =
     (if off + 2 \<le> length p then Some (get_host16 (drop off p)) else None)"

definition load32 :: "bytes \<Rightarrow> nat \<Rightarrow> u32 option" where
  [bytes_simps]: "load32 p off =
     (if off + 4 \<le> length p then Some (get_host32 (drop off p)) else None)"

definition memcpy_from :: "bytes \<Rightarrow> nat \<Rightarrow> bytes option" where
  [bytes_simps]: "memcpy_from src n = (if n \<le> length src then Some (take n src) else None)"

text \<open>Storing bytes in an object at an offset.\<close>

definition store :: "bytes \<Rightarrow> nat \<Rightarrow> bytes \<Rightarrow> bytes option" where
  "store p off bs =
     (if off + length bs \<le> length p then Some (take off p @ bs @ drop (off + length bs) p) else None)"

lemma load8_Some_iff: "load8 p off = Some b \<longleftrightarrow> off < length p \<and> p ! off = b"
  by (simp add: load8_def)

lemma memcpy_from_Some_iff:
  "memcpy_from src n = Some bs \<longleftrightarrow> n \<le> length src \<and> bs = take n src"
  by (auto simp: memcpy_from_def)

section \<open>C strings\<close>

text \<open>
  The characters of a string as bytes, and the string object of a literal, with its terminating
  NUL. \<open>strncmp\<close> compares as unsigned bytes and stops at a difference, at a NUL or after \<open>n\<close>
  characters.
\<close>

definition chars :: "string \<Rightarrow> bytes" where
  [bytes_simps]: "chars s = map (\<lambda>c. word_of_nat (of_char c)) s"

definition cstring :: "string \<Rightarrow> bytes" where
  "cstring s = chars s @ [0]"

fun strncmp :: "bytes \<Rightarrow> bytes \<Rightarrow> nat \<Rightarrow> int option" where
  "strncmp a b 0 = Some 0"
| "strncmp (x # a) (y # b) (Suc n) =
     (if x \<noteq> y then Some (uint x - uint y) else if x = 0 then Some 0 else strncmp a b n)"
| "strncmp a b (Suc n) = None"

lemma length_chars [simp]: "length (chars s) = length s"
  by (simp add: chars_def)

lemma chars_inject [simp]: "chars s = chars t \<longleftrightarrow> s = t"
proof -
  have "inj (\<lambda>c. word_of_nat (of_char c) :: u8)"
  proof (rule injI)
    fix c d
    assume "(word_of_nat (of_char c) :: u8) = word_of_nat (of_char d)"
    then have "(of_char c :: nat) = of_char d"
      by (simp add: word_of_nat_eq_iff take_bit_eq_mod)
    then show "c = d" by (simp add: of_char_eq_iff)
  qed
  then show ?thesis by (simp add: chars_def inj_map_eq_map)
qed

lemma strncmp_same: "n \<le> length a \<Longrightarrow> strncmp a a n = Some 0"
proof (induction n arbitrary: a)
  case (Suc n)
  then obtain x a' where "a = x # a'" by (cases a) auto
  with Suc show ?case by simp
qed simp

text \<open>
  Comparing with a string of \<open>n\<close> or more characters before its NUL: equality of the first \<open>n\<close>.
\<close>

lemma strncmp_zero_iff:
  assumes "n \<le> length a" and "n \<le> length b" and "0 \<notin> set (take (n - 1) b)"
  shows "strncmp a b n = Some 0 \<longleftrightarrow> take n a = take n b"
  using assms
proof (induction a b n rule: strncmp.induct)
  case (2 x a y b n)
  have "uint x = uint y \<longleftrightarrow> x = y" by (rule word_eq_iff_unsigned [symmetric])
  with 2 show ?case by (cases n) auto
qed auto

lemma strncmp_total:
  "n \<le> length a \<Longrightarrow> n \<le> length b \<Longrightarrow> \<exists>r. strncmp a b n = Some r"
  by (induction a b n rule: strncmp.induct) auto

section \<open>Contracts shared by the components\<close>

text \<open>
  A codec of fixed width: what the reader of a header relies on.
\<close>

locale fixed_codec =
  fixes enc :: "'a \<Rightarrow> bytes" and dec :: "bytes \<Rightarrow> 'a" and width :: nat
  assumes length_enc: "length (enc x) = width"
    and dec_enc: "dec (enc x @ r) = x"
begin

lemma enc_append_inject: "enc x @ r = enc y @ s \<longleftrightarrow> x = y \<and> r = s"
proof
  assume *: "enc x @ r = enc y @ s"
  then have "x = y" by (metis dec_enc)
  with * show "x = y \<and> r = s" by simp
qed simp

lemma take_enc: "take width (enc x @ r) = enc x"
  by (simp add: length_enc)

lemma drop_enc: "drop width (enc x @ r) = r"
  by (simp add: length_enc)

lemma dec_alone: "dec (enc x) = x"
  using dec_enc [of x "[]"] by simp

end

interpretation be16: fixed_codec be16 get_be16 2
  by unfold_locales simp_all

interpretation be32: fixed_codec be32 get_be32 4
  by unfold_locales simp_all

text \<open>
  A self-delimiting format: a decoder that takes one item off the front of a byte string. From
  the law for one item follows the law for a whole file of them.
\<close>

fun decode_all :: "nat \<Rightarrow> (bytes \<Rightarrow> ('a \<times> bytes) option) \<Rightarrow> bytes \<Rightarrow> 'a list option" where
  "decode_all 0 dec bs = (if bs = [] then Some [] else None)"
| "decode_all (Suc fuel) dec bs =
     (if bs = [] then Some []
      else do { (x, rest) \<leftarrow> dec bs; xs \<leftarrow> decode_all fuel dec rest; Some (x # xs) })"

locale stream_codec =
  fixes enc :: "'a \<Rightarrow> bytes" and dec :: "bytes \<Rightarrow> ('a \<times> bytes) option" and valid :: "'a \<Rightarrow> bool"
  assumes dec_enc: "valid x \<Longrightarrow> dec (enc x @ r) = Some (x, r)"
    and enc_nonempty: "valid x \<Longrightarrow> enc x \<noteq> []"
begin

lemma decode_all_enc:
  assumes "\<forall>x\<in>set xs. valid x" and "length xs \<le> fuel"
  shows "decode_all fuel dec (concat (map enc xs)) = Some xs"
  using assms
proof (induction xs arbitrary: fuel)
  case Nil
  then show ?case by (cases fuel) auto
next
  case (Cons x xs)
  then obtain f where "fuel = Suc f" by (cases fuel) auto
  with Cons show ?case by (simp add: dec_enc enc_nonempty)
qed

lemma length_le_concat:
  assumes "\<forall>x\<in>set xs. valid x"
  shows "length xs \<le> length (concat (map enc xs))"
  using assms
proof (induction xs)
  case (Cons x xs)
  then have "1 \<le> length (enc x)" by (simp add: Suc_leI enc_nonempty)
  with Cons show ?case by simp
qed simp

lemma decode_whole:
  assumes "\<forall>x\<in>set xs. valid x"
  shows "decode_all (length (concat (map enc xs))) dec (concat (map enc xs)) = Some xs"
  using assms by (intro decode_all_enc length_le_concat)

end

text \<open>
  A component with state: an operation returns \<open>None\<close> when the code would leave its objects, and
  otherwise the new state with what the component did (messages sent, bytes written), in order.
  A component whose operations never fail from its invariant, keep it and act only within a
  policy does so along every run.
\<close>

fun run :: "('s \<Rightarrow> 'e \<Rightarrow> ('s \<times> 'o list) option) \<Rightarrow> 's \<Rightarrow> 'e list \<Rightarrow> ('s \<times> 'o list) option" where
  "run step s [] = Some (s, [])"
| "run step s (e # es) =
     do { (s', os) \<leftarrow> step s e; (s'', os') \<leftarrow> run step s' es; Some (s'', os @ os') }"

lemma run_append:
  "run step s (es @ fs) =
     do { (s', os) \<leftarrow> run step s es; (s'', os') \<leftarrow> run step s' fs; Some (s'', os @ os') }"
  by (induction es arbitrary: s) (auto split: Option.bind_splits)

locale component =
  fixes step :: "'s \<Rightarrow> 'e \<Rightarrow> ('s \<times> 'o list) option"
    and inv :: "'s \<Rightarrow> bool" and admissible :: "'e \<Rightarrow> bool" and allowed :: "'o \<Rightarrow> bool"
  assumes step_ok: "inv s \<Longrightarrow> admissible e \<Longrightarrow>
    \<exists>s' os. step s e = Some (s', os) \<and> inv s' \<and> (\<forall>x\<in>set os. allowed x)"
begin

lemma run_ok:
  assumes "inv s" and "\<forall>e\<in>set es. admissible e"
  shows "\<exists>s' os. run step s es = Some (s', os) \<and> inv s' \<and> (\<forall>x\<in>set os. allowed x)"
  using assms
proof (induction es arbitrary: s)
  case (Cons e es)
  then obtain s' os where 1: "step s e = Some (s', os)" "inv s'" "\<forall>x\<in>set os. allowed x"
    using step_ok [of s e] by auto
  then obtain s'' os' where "run step s' es = Some (s'', os')" "inv s''" "\<forall>x\<in>set os'. allowed x"
    using Cons.IH [of s'] Cons.prems by auto
  with 1 show ?case by auto
qed simp

lemma run_inv: "inv s \<Longrightarrow> \<forall>e\<in>set es. admissible e \<Longrightarrow> run step s es = Some (s', os) \<Longrightarrow> inv s'"
  using run_ok by fastforce

lemma run_allowed: "inv s \<Longrightarrow> \<forall>e\<in>set es. admissible e \<Longrightarrow> run step s es = Some (s', os) \<Longrightarrow>
  x \<in> set os \<Longrightarrow> allowed x"
  using run_ok by fastforce

end

end
