(* ===== verification/Psas_Packet.thy ===== *)
theory Psas_Packet
  imports Fc_Prelude
begin

text \<open>
  The wire formats of \<open>src/src/utilities/psas_packet.h\<close>, \<open>src/src/devices/mpl.h\<close>,
  \<open>src/src/devices/rnh.h\<close> and \<open>src/src/logger.h\<close> that the flight computer handles, as layouts
  of packed structs, with the field accesses the C code makes through a cast pointer; and the
  values the modules pass to one another through the senders and receivers of the \<open>.miml\<close> files.
\<close>

section \<open>Packed structs\<close>

datatype ctype = UINT8 | INT8 | UINT16 | INT16 | UINT32 | INT32 | UINT64 | FLOAT | DOUBLE
  | ARRAY nat ctype | STRUCT "(string \<times> ctype) list"

fun csize :: "ctype \<Rightarrow> nat" where
  "csize UINT8 = 1"
| "csize INT8 = 1"
| "csize UINT16 = 2"
| "csize INT16 = 2"
| "csize UINT32 = 4"
| "csize INT32 = 4"
| "csize UINT64 = 8"
| "csize FLOAT = 4"
| "csize DOUBLE = 8"
| "csize (ARRAY n t) = n * csize t"
| "csize (STRUCT l) = sum_list (map (\<lambda>(f, t). csize t) l)"

type_synonym layout = "(string \<times> ctype) list"

text \<open>A packed struct has no padding: its size is the sum, an offset the sum of what precedes.\<close>

definition struct_size :: "layout \<Rightarrow> nat" where
  "struct_size l = sum_list (map (csize \<circ> snd) l)"

fun struct_offset :: "layout \<Rightarrow> string \<Rightarrow> nat option" where
  "struct_offset [] f = None"
| "struct_offset ((g, t) # l) f =
     (if f = g then Some 0 else map_option (\<lambda>n. csize t + n) (struct_offset l f))"

definition ADIS16405Data :: layout where
  "ADIS16405Data = [(''vcc'', UINT16), (''gyro_x'', INT16), (''gyro_y'', INT16),
     (''gyro_z'', INT16), (''acc_x'', INT16), (''acc_y'', INT16), (''acc_z'', INT16),
     (''magn_x'', INT16), (''magn_y'', INT16), (''magn_z'', INT16), (''temp'', INT16),
     (''aux_adc'', UINT16)]"

definition FCFHealthData :: layout where
  "FCFHealthData = [(''cpu_user'', FLOAT), (''cpu_system'', FLOAT), (''cpu_nice'', FLOAT),
     (''cpu_iowait'', FLOAT), (''cpu_irq'', FLOAT), (''cpu_softirq'', FLOAT),
     (''ram_used'', UINT64), (''ram_buffer'', UINT64), (''ram_cached'', UINT64),
     (''pid'', UINT16), (''disk_used'', UINT64), (''disk_read'', UINT64),
     (''disk_write'', UINT64), (''io_lo_bytes_sent'', UINT32), (''io_lo_bytes_recv'', UINT32),
     (''io_lo_packets_sent'', UINT32), (''io_lo_packets_recv'', UINT32),
     (''io_eth0_bytes_sent'', UINT32), (''io_eth0_bytes_recv'', UINT32),
     (''io_eth0_packets_sent'', UINT32), (''io_eth0_packets_recv'', UINT32),
     (''io_wlan0_bytes_sent'', UINT32), (''io_wlan0_bytes_recv'', UINT32),
     (''io_wlan0_packets_sent'', UINT32), (''io_wlan0_packets_recv'', UINT32),
     (''core_temp'', UINT16)]"

definition MPLData :: layout where
  "MPLData = [(''pressure'', UINT32), (''temperature'', INT16)]"

definition BMP180Data :: layout where
  "BMP180Data = [(''pressure'', UINT32), (''temp'', UINT16)]"

definition RNHHealthData :: layout where
  "RNHHealthData = [(''temperature'', UINT16), (''ts1temperature'', INT16),
     (''ts2temperature'', INT16), (''temprange'', UINT16), (''voltage'', UINT16),
     (''current'', INT16), (''averagecurrent'', INT16), (''cellvoltage1'', UINT16),
     (''cellvoltage2'', UINT16), (''cellvoltage3'', UINT16), (''cellvoltage4'', UINT16),
     (''packvoltage'', UINT16), (''averagevoltage'', UINT16)]"

definition RNHPowerData :: layout where
  "RNHPowerData = [(''port1'', UINT16), (''port2'', UINT16), (''port3'', UINT16),
     (''port4'', UINT16), (''umbilical'', UINT16), (''port6'', UINT16), (''port7'', UINT16),
     (''port8'', UINT16)]"

definition RNHAlarms :: layout where
  "RNHAlarms = [(''alarm1'', UINT16), (''alarm2'', UINT16), (''alarm3'', UINT16)]"

definition RNHUmbdet :: layout where
  "RNHUmbdet = [(''detect'', UINT8)]"

definition RollServoData :: layout where
  "RollServoData = [(''angle'', DOUBLE), (''disable'', UINT8)]"

definition SequenceErrorData :: layout where
  "SequenceErrorData = [(''port'', UINT16), (''expected'', UINT32), (''received'', UINT32)]"

definition SequenceNoData :: layout where
  "SequenceNoData = [(''sequence'', UINT32)]"

definition Venus8NavigationData :: layout where
  "Venus8NavigationData = [(''fix_mode'', UINT8), (''num_sv'', UINT8), (''gps_week'', UINT16),
     (''tow'', UINT32), (''latitude'', INT32), (''longitude'', INT32),
     (''ellipsoid_altitude'', UINT32), (''msl_altitude'', UINT32), (''gdop'', UINT16),
     (''pdop'', UINT16), (''hdop'', UINT16), (''vdop'', UINT16), (''tdop'', UINT16),
     (''ecef_x'', INT32), (''ecef_y'', INT32), (''ecef_z'', INT32), (''ecef_vx'', INT32),
     (''ecef_vy'', INT32), (''ecef_vz'', INT32)]"

definition StateData :: layout where
  "StateData = [(''time'', DOUBLE), (''acc_up'', DOUBLE), (''vel_up'', DOUBLE),
     (''altitude'', DOUBLE), (''roll_rate'', DOUBLE), (''roll_angle'', DOUBLE)]"

definition message_header :: layout where
  "message_header = [(''ID'', ARRAY 4 INT8), (''timestamp'', ARRAY 6 UINT8),
     (''data_length'', UINT16)]"

lemmas layout_defs = ADIS16405Data_def FCFHealthData_def MPLData_def BMP180Data_def
  RNHHealthData_def RNHPowerData_def RNHAlarms_def RNHUmbdet_def RollServoData_def
  SequenceErrorData_def SequenceNoData_def Venus8NavigationData_def StateData_def
  message_header_def

lemma struct_sizes [simp]:
  "struct_size ADIS16405Data = 24" "struct_size FCFHealthData = 124" "struct_size MPLData = 6"
  "struct_size BMP180Data = 6" "struct_size RNHHealthData = 26" "struct_size RNHPowerData = 16"
  "struct_size RNHAlarms = 6" "struct_size RNHUmbdet = 1" "struct_size RollServoData = 9"
  "struct_size SequenceErrorData = 10" "struct_size SequenceNoData = 4"
  "struct_size Venus8NavigationData = 58" "struct_size StateData = 48"
  "struct_size message_header = 12"
  by (simp_all add: layout_defs struct_size_def)

text \<open>Reading a field through a pointer cast to the struct.\<close>

definition field8 :: "layout \<Rightarrow> string \<Rightarrow> bytes \<Rightarrow> u8 option" where
  "field8 l f p = do { off \<leftarrow> struct_offset l f; load8 p off }"

definition field16 :: "layout \<Rightarrow> string \<Rightarrow> bytes \<Rightarrow> u16 option" where
  "field16 l f p = do { off \<leftarrow> struct_offset l f; load16 p off }"

lemma ADIS_fields [simp]:
  "field16 ADIS16405Data ''gyro_x'' p = load16 p 2"
  "field16 ADIS16405Data ''acc_x'' p = load16 p 8"
  "field16 ADIS16405Data ''acc_y'' p = load16 p 10"
  "field16 ADIS16405Data ''acc_z'' p = load16 p 12"
  by (simp_all add: field16_def ADIS16405Data_def)

lemma Venus_fix_mode [simp]: "field8 Venus8NavigationData ''fix_mode'' p = load8 p 0"
  by (simp add: field8_def Venus8NavigationData_def)

lemma RNHUmbdet_detect [simp]: "field8 RNHUmbdet ''detect'' p = load8 p 0"
  by (simp add: field8_def RNHUmbdet_def)

section \<open>What the modules pass to one another\<close>

text \<open>
  The arguments of the receivers of type
  \<open>(const char ID[4], uint8_t timestamp[6], uint16_t data_length, void *data)\<close>. \<open>data\<close> is the
  memory from the pointer on; only its first \<open>data_length\<close> bytes belong to the message.
\<close>

record packet =
  ID :: string
  timestamp :: bytes
  data_length :: u16
  data :: bytes

text \<open>\<open>memcmp (ID, s, n) == 0\<close> for identifiers of \<open>n\<close> characters or more.\<close>

definition memcmp_zero :: "string \<Rightarrow> string \<Rightarrow> nat \<Rightarrow> bool" where
  [run_simps]: "memcmp_zero a b n \<longleftrightarrow> take n a = take n b"

text \<open>The state estimate, passed by pointer as \<open>StateData *\<close>. Doubles are rational numbers.\<close>

record state_data =
  time :: rat
  acc_up :: rat
  vel_up :: rat
  altitude :: rat
  roll_rate :: rat
  roll_angle :: rat

text \<open>
  \<open>ROLLMessage\<close>. Its angle is kept as the 64 bits of the double, because the logger swaps the
  bytes of that field in place.
\<close>

record ROLLMessage =
  roll_ID :: string
  roll_timestamp :: bytes
  roll_data_length :: u16
  angle :: u64
  disable :: u8

text \<open>The senders of the modules, by the names of the \<open>.miml\<close> files, with their arguments.\<close>

datatype message =
    demuxed_ADIS packet
  | demuxed_MPU packet
  | demuxed_MPL packet
  | demuxed_BMP packet
  | demuxed_RNH packet
  | demuxed_RNHUMB packet
  | demuxed_FCFH packet
  | demuxed_JGPS packet
  | demuxed_COTS packet
  | demuxed_ARM bytes u32 bytes
  | demuxed_RC bytes u32 bytes
  | sequenced_error packet
  | state_send_message string bytes u16 state_data
  | gps_data_out packet
  | filter_to_ground packet
  | filter_to_disk packet
  | arm_send_signal string
  | rc_send_servo ROLLMessage
  | rnh_version_out bytes u32

text \<open>
  What an operation does besides updating its own state, in order: call a sender, or
  \<open>write\<close> bytes to one of the program's connected sockets or to the log file.
\<close>

datatype channel = ArmSocket | ServoEnableSocket | RollServoSocket | RnhSocket | LogFile | LogSocket

datatype action = Send message | Write channel bytes

text \<open>A component that only calls senders, with messages that satisfy \<open>P\<close>.\<close>

fun promised :: "(message \<Rightarrow> bool) \<Rightarrow> action \<Rightarrow> bool" where
  "promised P (Send m) = P m"
| "promised P (Write c bs) = False"

end
