(* ===== verification/Net_Addrs.thy ===== *)
theory Net_Addrs
  imports Psas_Packet
begin

text \<open>
  The RocketNet addresses of \<open>src/src/utilities/net_addrs.h\<close> and \<open>net_addrs.c\<close>. The argument
  \<open>live\<close> is the preprocessor symbol \<open>FCF_FC_NETWORK\<close>: true in the build for flight
  (\<open>make live\<close>), false in the development build, where every device is on the local host.
\<close>

record sockaddr_in =
  sin_port :: u16
  sin_addr :: u32

definition HTONS :: "u16 \<Rightarrow> u16" where
  "HTONS n = bswap16 n"

definition HTONL :: "u32 \<Rightarrow> u32" where
  "HTONL n = bswap32 n"

definition IPv4 :: "u32 \<Rightarrow> u32 \<Rightarrow> u32 \<Rightarrow> u32 \<Rightarrow> u32" where
  "IPv4 a b c d = HTONL (push_bit 24 (a AND 0xff) OR push_bit 16 (b AND 0xff)
     OR push_bit 8 (c AND 0xff) OR (d AND 0xff))"

definition make_addr :: "u32 \<Rightarrow> u16 \<Rightarrow> sockaddr_in" where
  "make_addr addr port = \<lparr>sin_port = HTONS port, sin_addr = addr\<rparr>"

section \<open>Ports\<close>

definition RCI_PORT :: u16 where "RCI_PORT = 23"
definition RNH_BATTERY :: u16 where "RNH_BATTERY = 36101"
definition RNH_PORT :: u16 where "RNH_PORT = 36102"
definition RNH_ALARM :: u16 where "RNH_ALARM = 36103"
definition RNH_UMBDET :: u16 where "RNH_UMBDET = 36104"
definition FC_LISTEN_PORT :: u16 where "FC_LISTEN_PORT = 36000"
definition FCF_HEALTH_PORT :: u16 where "FCF_HEALTH_PORT = 36201"
definition ADIS_PORT :: u16 where "ADIS_PORT = 35020"
definition MPU_PORT :: u16 where "MPU_PORT = 35002"
definition MPL_PORT :: u16 where "MPL_PORT = 35010"
definition BMP_PORT :: u16 where "BMP_PORT = 35011"
definition ROLL_PORT :: u16 where "ROLL_PORT = 35003"
definition WIFI_PORT :: u16 where "WIFI_PORT = 35001"
definition ARM_PORT :: u16 where "ARM_PORT = 35666"
definition RC_SERVO_ENABLE_PORT :: u16 where "RC_SERVO_ENABLE_PORT = 35667"
definition JGPS_PORT :: u16 where "JGPS_PORT = 35050"
definition GPS_COTS :: u16 where "GPS_COTS = 35051"

definition RNH_RCI_PORT :: "bool \<Rightarrow> u16" where
  "RNH_RCI_PORT live = (if live then RCI_PORT else 37001)"
definition SENSOR_RCI_PORT :: "bool \<Rightarrow> u16" where
  "SENSOR_RCI_PORT live = (if live then RCI_PORT else 37002)"
definition GPS_RCI_PORT :: "bool \<Rightarrow> u16" where
  "GPS_RCI_PORT live = (if live then RCI_PORT else 37003)"
definition ROLL_RCI_PORT :: "bool \<Rightarrow> u16" where
  "ROLL_RCI_PORT live = (if live then RCI_PORT else 37004)"

lemmas port_defs = RCI_PORT_def RNH_BATTERY_def RNH_PORT_def RNH_ALARM_def RNH_UMBDET_def FC_LISTEN_PORT_def FCF_HEALTH_PORT_def ADIS_PORT_def MPU_PORT_def MPL_PORT_def BMP_PORT_def ROLL_PORT_def WIFI_PORT_def ARM_PORT_def RC_SERVO_ENABLE_PORT_def JGPS_PORT_def GPS_COTS_def

section \<open>Addresses\<close>

definition RNH_IP :: "bool \<Rightarrow> u32" where
  "RNH_IP live = (if live then IPv4 10 10 10 5 else IPv4 127 0 0 1)"
definition FC_IP :: "bool \<Rightarrow> u32" where
  "FC_IP live = (if live then IPv4 10 10 10 10 else IPv4 127 0 0 1)"
definition SENSOR_IP :: "bool \<Rightarrow> u32" where
  "SENSOR_IP live = (if live then IPv4 10 10 10 20 else IPv4 127 0 0 1)"
definition ROLL_IP :: "bool \<Rightarrow> u32" where
  "ROLL_IP live = (if live then IPv4 10 10 10 30 else IPv4 127 0 0 1)"
definition GPS_IP :: "bool \<Rightarrow> u32" where
  "GPS_IP live = (if live then IPv4 10 10 10 40 else IPv4 127 0 0 1)"
definition WIFI_IP :: "bool \<Rightarrow> u32" where
  "WIFI_IP live = (if live then IPv4 172 17 0 2 else IPv4 127 0 0 1)"
definition ARM_IP :: u32 where "ARM_IP = IPv4 127 0 0 1"

definition RCI_ADDR :: "bool \<Rightarrow> sockaddr_in" where
  "RCI_ADDR live = make_addr (FC_IP live) RCI_PORT"
definition RNH_RCI_ADDR :: "bool \<Rightarrow> sockaddr_in" where
  "RNH_RCI_ADDR live = make_addr (RNH_IP live) (RNH_RCI_PORT live)"
definition SENSOR_RCI_ADDR :: "bool \<Rightarrow> sockaddr_in" where
  "SENSOR_RCI_ADDR live = make_addr (SENSOR_IP live) (SENSOR_RCI_PORT live)"
definition GPS_RCI_ADDR :: "bool \<Rightarrow> sockaddr_in" where
  "GPS_RCI_ADDR live = make_addr (GPS_IP live) (GPS_RCI_PORT live)"
definition ROLL_RCI_ADDR :: "bool \<Rightarrow> sockaddr_in" where
  "ROLL_RCI_ADDR live = make_addr (ROLL_IP live) (ROLL_RCI_PORT live)"
definition RNH_BATTERY_ADDR :: "bool \<Rightarrow> sockaddr_in" where
  "RNH_BATTERY_ADDR live = make_addr (RNH_IP live) RNH_BATTERY"
definition RNH_PORT_ADDR :: "bool \<Rightarrow> sockaddr_in" where
  "RNH_PORT_ADDR live = make_addr (RNH_IP live) RNH_PORT"
definition RNH_ALARM_ADDR :: "bool \<Rightarrow> sockaddr_in" where
  "RNH_ALARM_ADDR live = make_addr (RNH_IP live) RNH_ALARM"
definition RNH_UMBDET_ADDR :: "bool \<Rightarrow> sockaddr_in" where
  "RNH_UMBDET_ADDR live = make_addr (RNH_IP live) RNH_UMBDET"
definition FC_ADDR :: "bool \<Rightarrow> sockaddr_in" where
  "FC_ADDR live = make_addr (FC_IP live) FC_LISTEN_PORT"
definition ADIS_ADDR :: "bool \<Rightarrow> sockaddr_in" where
  "ADIS_ADDR live = make_addr (SENSOR_IP live) ADIS_PORT"
definition MPU_ADDR :: "bool \<Rightarrow> sockaddr_in" where
  "MPU_ADDR live = make_addr (SENSOR_IP live) MPU_PORT"
definition MPL_ADDR :: "bool \<Rightarrow> sockaddr_in" where
  "MPL_ADDR live = make_addr (SENSOR_IP live) MPL_PORT"
definition BMP_ADDR :: "bool \<Rightarrow> sockaddr_in" where
  "BMP_ADDR live = make_addr (SENSOR_IP live) BMP_PORT"
definition ROLL_ADDR :: "bool \<Rightarrow> sockaddr_in" where
  "ROLL_ADDR live = make_addr (ROLL_IP live) ROLL_PORT"
definition WIFI_ADDR :: "bool \<Rightarrow> sockaddr_in" where
  "WIFI_ADDR live = make_addr (WIFI_IP live) WIFI_PORT"
definition ARM_ADDR :: sockaddr_in where
  "ARM_ADDR = make_addr ARM_IP ARM_PORT"
definition RC_SERVO_ENABLE_ADDR :: sockaddr_in where
  "RC_SERVO_ENABLE_ADDR = make_addr ARM_IP RC_SERVO_ENABLE_PORT"
definition GPS_COTS_ADDR :: "bool \<Rightarrow> sockaddr_in" where
  "GPS_COTS_ADDR live = make_addr (GPS_IP live) GPS_COTS"

lemmas addr_defs = make_addr_def HTONS_def RNH_IP_def FC_IP_def SENSOR_IP_def ROLL_IP_def GPS_IP_def WIFI_IP_def ARM_IP_def
  RCI_ADDR_def RNH_RCI_ADDR_def SENSOR_RCI_ADDR_def GPS_RCI_ADDR_def ROLL_RCI_ADDR_def RNH_BATTERY_ADDR_def RNH_PORT_ADDR_def RNH_ALARM_ADDR_def RNH_UMBDET_ADDR_def FC_ADDR_def ADIS_ADDR_def MPU_ADDR_def MPL_ADDR_def BMP_ADDR_def ROLL_ADDR_def WIFI_ADDR_def ARM_ADDR_def RC_SERVO_ENABLE_ADDR_def GPS_COTS_ADDR_def

text \<open>In memory an address is its four parts in network order.\<close>

lemma ucast_and_ff [simp]: "(ucast (b :: u8) :: u32) AND 0xff = ucast b"
proof -
  have "(0xff :: u32) = mask 8" by (simp add: mask_eq_exp_minus_1)
  then have "(ucast b :: u32) AND 0xff = take_bit 8 (ucast b)"
    by (simp add: take_bit_eq_mask)
  also have "\<dots> = ucast b"
    by (rule bit_word_eqI) (use bit_imp_le_length [of b] in \<open>auto simp: bit_simps\<close>)
  finally show ?thesis .
qed

lemma host32_IPv4:
  "host32 (IPv4 (ucast (a :: u8)) (ucast (b :: u8)) (ucast (c :: u8)) (ucast (d :: u8))) = [a, b, c, d]"
proof -
  have "push_bit 24 (ucast a :: u32) OR push_bit 16 (ucast b) OR push_bit 8 (ucast c) OR ucast d
     = push_bit 8 (push_bit 8 (push_bit 8 (ucast a) OR ucast b) OR ucast c) OR ucast d"
    by (rule bit_word_eqI) (auto simp: bit_simps)
  also have "\<dots> = word_of_nat (of_be [a, b, c, d])"
    by (simp only: push_bit_8_or) (simp add: of_be_def)
  finally show ?thesis
    by (simp add: IPv4_def HTONL_def be32_def)
qed

end
