(* ===== verification/Utils_Time.thy ===== *)
theory Utils_Time
  imports Psas_Packet
begin

text \<open>
  \<open>src/src/utilities/utils_time.c\<close>: the 6-byte time format of the packets, nanoseconds since
  \<open>starttime\<close>, big-endian. The arithmetic is that of the 64-bit words of the host, so a
  difference of seconds or nanoseconds may be negative and wraps, as \<open>tv_nsec\<close> does when it is
  converted to \<open>uint64_t\<close>. The readings of \<open>clock_gettime\<close> are an input of the model: \<open>clock\<close>
  holds \<open>starttime\<close> and the successive readings of \<open>CLOCK_MONOTONIC\<close>.
\<close>

record timespec =
  tv_sec :: u64
  tv_nsec :: u64

text \<open>Times are ordered by their seconds, then by their nanoseconds.\<close>

instantiation timespec_ext :: (linorder) linorder
begin

definition less_eq_timespec_ext :: "'a timespec_ext \<Rightarrow> 'a timespec_ext \<Rightarrow> bool" where
  "less_eq_timespec_ext s t \<longleftrightarrow> tv_sec s < tv_sec t \<or> tv_sec s = tv_sec t \<and>
     (tv_nsec s < tv_nsec t \<or> tv_nsec s = tv_nsec t \<and> timespec.more s \<le> timespec.more t)"

definition less_timespec_ext :: "'a timespec_ext \<Rightarrow> 'a timespec_ext \<Rightarrow> bool" where
  "less_timespec_ext s t \<longleftrightarrow> s \<le> t \<and> \<not> t \<le> s"

instance
proof
  fix s t u :: "'a timespec_ext"
  show "s < t \<longleftrightarrow> s \<le> t \<and> \<not> t \<le> s" by (rule less_timespec_ext_def)
  show "s \<le> s" by (simp add: less_eq_timespec_ext_def)
  show "s \<le> t \<Longrightarrow> t \<le> u \<Longrightarrow> s \<le> u" by (auto simp: less_eq_timespec_ext_def)
  show "s \<le> t \<Longrightarrow> t \<le> s \<Longrightarrow> s = t" by (cases s; cases t) (auto simp: less_eq_timespec_ext_def)
  show "s \<le> t \<or> t \<le> s" by (auto simp: less_eq_timespec_ext_def)
qed

end

record clock =
  starttime :: timespec
  readings :: "nat \<Rightarrow> timespec"

text \<open>\<open>utils_time_init\<close> stores a first reading; the later ones are numbered from it.\<close>

definition utils_time_init :: "(nat \<Rightarrow> timespec) \<Rightarrow> clock" where
  "utils_time_init rd = \<lparr>starttime = rd 0, readings = (\<lambda>k. rd (Suc k))\<rparr>"

text \<open>The new value of \<open>*ts\<close>, which is made relative in place, and the bytes of \<open>out\<close>.\<close>

definition to_psas_time :: "timespec \<Rightarrow> timespec \<Rightarrow> timespec \<times> bytes" where
  "to_psas_time start ts =
     (let ts = ts\<lparr>tv_sec := tv_sec ts - tv_sec start\<rparr>;
          ts = ts\<lparr>tv_nsec := tv_nsec ts - tv_nsec start\<rparr>;
          now = tv_nsec ts + tv_sec ts * 1000000000
      in (ts, [ucast (drop_bit 40 now), ucast (drop_bit 32 now), ucast (drop_bit 24 now),
               ucast (drop_bit 16 now), ucast (drop_bit 8 now), ucast now]))"

definition from_psas_time :: "bytes \<Rightarrow> u64 option" where
  "from_psas_time t =
     (if length t < 6 then None
      else Some (let time = ucast (t ! 0);
                     time = push_bit 8 time OR ucast (t ! 1);
                     time = push_bit 8 time OR ucast (t ! 2);
                     time = push_bit 8 time OR ucast (t ! 3);
                     time = push_bit 8 time OR ucast (t ! 4);
                     time = push_bit 8 time OR ucast (t ! 5)
                 in time))"

text \<open>The \<open>k\<close>-th call of \<open>get_psas_time\<close>.\<close>

definition get_psas_time :: "clock \<Rightarrow> nat \<Rightarrow> bytes" where
  "get_psas_time c k = snd (to_psas_time (starttime c) (readings c k))"

section \<open>The format\<close>

text \<open>Nanoseconds of \<open>ts\<close> since \<open>start\<close>, as the code computes them.\<close>

definition psas_nanos :: "timespec \<Rightarrow> timespec \<Rightarrow> u64" where
  "psas_nanos start ts = (tv_nsec ts - tv_nsec start) + (tv_sec ts - tv_sec start) * 1000000000"

lemma to_psas_time_bytes: "snd (to_psas_time start ts) = be_of 6 (unat (psas_nanos start ts))"
  by (simp add: to_psas_time_def psas_nanos_def Let_def ucast_drop_bit be_of_numeral)

lemma length_to_psas_time [simp]: "length (snd (to_psas_time start ts)) = 6"
  by (simp add: to_psas_time_bytes)

lemma length_get_psas_time [simp]: "length (get_psas_time c k) = 6"
  by (simp add: get_psas_time_def)

lemma from_psas_time_of_be:
  assumes "6 \<le> length t"
  shows "from_psas_time t = Some (word_of_nat (of_be (take 6 t)))"
proof -
  obtain a b c d e f r where "t = a # b # c # d # e # f # r"
    using assms by (auto simp: Suc_le_length_iff numeral_eq_Suc)
  then show ?thesis
    by (simp add: from_psas_time_def push_bit_8_or of_be_def)
qed

lemma from_psas_time_less:
  assumes "from_psas_time t = Some n"
  shows "unat n < 2 ^ 48"
proof -
  have l: "6 \<le> length t" using assms by (simp add: from_psas_time_def split: if_splits)
  have "of_be (take 6 t) < 256 ^ 6" using l of_be_less [of "take 6 t"] by simp
  then show ?thesis using assms from_psas_time_of_be [OF l] by (auto simp: unat_of_nat)
qed

lemma from_to_psas_time_mod:
  "from_psas_time (snd (to_psas_time start ts))
     = Some (word_of_nat (unat (psas_nanos start ts) mod 2 ^ 48))"
  by (simp add: from_psas_time_of_be to_psas_time_bytes of_be_be_of)

section \<open>Nanoseconds\<close>

text \<open>A time that the clock can show, and the nanoseconds it stands for. The order of such times is that
  of their nanoseconds.\<close>

definition proper :: "timespec \<Rightarrow> bool" where
  "proper t \<longleftrightarrow> tv_nsec t < 1000000000"

definition nanos :: "timespec \<Rightarrow> nat" where
  "nanos t = unat (tv_sec t) * 1000000000 + unat (tv_nsec t)"

lemma nanos_le_iff:
  assumes "proper s" and "proper t"
  shows "s \<le> t \<longleftrightarrow> nanos s \<le> nanos t"
proof -
  have n: "unat (tv_nsec s) < 1000000000" "unat (tv_nsec t) < 1000000000"
    using assms by (simp_all add: proper_def word_less_nat_alt)
  have "s \<le> t \<longleftrightarrow> unat (tv_sec s) < unat (tv_sec t) \<or>
      unat (tv_sec s) = unat (tv_sec t) \<and> unat (tv_nsec s) \<le> unat (tv_nsec t)"
    by (auto simp: less_eq_timespec_ext_def word_less_nat_alt word_le_nat_alt word_unat_eq_iff)
  also have "\<dots> \<longleftrightarrow> nanos s \<le> nanos t"
    using n unfolding nanos_def by (cases "unat (tv_sec s)" "unat (tv_sec t)" rule: linorder_cases) simp_all
  finally show ?thesis .
qed

text \<open>What the six bytes say of a time in the window of the format.\<close>

lemma psas_time_value:
  assumes "nanos start \<le> nanos t" and "nanos t < nanos start + 2 ^ 48"
  shows "of_be (snd (to_psas_time start t)) = nanos t - nanos start"
proof -
  let ?d = "nanos t - nanos start"
  have "word_of_nat (nanos x) = tv_sec x * 1000000000 + tv_nsec x" for x by (simp add: nanos_def)
  then have "psas_nanos start t = word_of_nat ?d"
    using assms(1) by (simp add: psas_nanos_def of_nat_diff algebra_simps)
  moreover have "?d < 2 ^ 48" using assms by simp
  ultimately show ?thesis by (simp add: to_psas_time_bytes of_be_be_of unat_of_nat)
qed

section \<open>Properties\<close>

text \<open>
  C32: times survive the 6-byte format. What is decoded from a time that is not before \<open>start\<close> and less
  than \<open>2 ^ 48\<close> ns after it, about 78 hours, is the exact difference, also when the nanoseconds
  of the time are less than those of \<open>start\<close>, although they are subtracted field by field.
\<close>

theorem psas_time_roundtrip:
  fixes s n s0 n0 :: nat
  defines "start \<equiv> \<lparr>tv_sec = word_of_nat s0, tv_nsec = word_of_nat n0\<rparr>"
    and "ts \<equiv> \<lparr>tv_sec = word_of_nat s, tv_nsec = word_of_nat n\<rparr>"
  assumes "s0 * 1000000000 + n0 \<le> s * 1000000000 + n"
    and "s * 1000000000 + n < s0 * 1000000000 + n0 + 2 ^ 48"
  shows "from_psas_time (snd (to_psas_time start ts)) =
    Some (word_of_nat ((s * 1000000000 + n) - (s0 * 1000000000 + n0)))"
proof -
  let ?d = "(s * 1000000000 + n) - (s0 * 1000000000 + n0)"
  have "psas_nanos start ts = word_of_nat ?d"
    using assms(3) by (simp add: start_def ts_def psas_nanos_def of_nat_diff algebra_simps)
  moreover have "?d < 2 ^ 48" using assms(3,4) by simp
  moreover have "unat (word_of_nat ?d :: u64) = ?d"
    using \<open>?d < 2 ^ 48\<close> by (simp add: unat_of_nat)
  ultimately show ?thesis by (simp add: from_to_psas_time_mod)
qed

lemma psas_time_roundtrip_witness:
  "from_psas_time (snd (to_psas_time \<lparr>tv_sec = 10, tv_nsec = 900000000\<rparr> \<lparr>tv_sec = 12, tv_nsec = 100\<rparr>))
    = Some 1100000100"
  using psas_time_roundtrip [of 10 900000000 12 100] by simp

text \<open>
  Packet times keep the order. For two readings of one clock that are not before \<open>start\<close>, the second
  less than 2^48 ns after it, the order of the readings, by seconds and then by nanoseconds, is the order
  of the six-byte times as big-endian numbers; so packets and log records can be sorted by their
  stamps, and different readings have different stamps.
\<close>

lemma psas_time_order:
  assumes "proper start" "proper s" "proper t" and "start \<le> s" "start \<le> t"
    and "nanos s < nanos start + 2 ^ 48" "nanos t < nanos start + 2 ^ 48"
  shows "of_be (snd (to_psas_time start s)) \<le> of_be (snd (to_psas_time start t)) \<longleftrightarrow> s \<le> t"
  using assms by (simp add: nanos_le_iff psas_time_value) linarith

end
