(* ===== verification/Utils_Sockets.thy ===== *)
theory Utils_Sockets
  imports Net_Addrs Utils_Time
begin

text \<open>
  \<open>src/src/utilities/utils_sockets.c\<close>: reading from a socket and opening one. The results of the
  system calls are inputs of the model: what \<open>recvmsg\<close> delivers is a value of type \<open>recv\<close>, and
  the return values of the calls that open a socket form a record \<open>socket_env\<close>. The calls made
  are returned in order, so that a descriptor that is opened and not closed can be seen.
\<close>

definition ETH_MTU :: nat where "ETH_MTU = 1500"

definition EWOULDBLOCK :: int where "EWOULDBLOCK = 11"

section \<open>Reading\<close>

datatype cmsg = TimestampNs timespec | OtherCmsg

text \<open>The outcome of a receive call: it fails with an \<open>errno\<close>, or a datagram of any length
  arrives, with its source and its control messages.\<close>

datatype recv = RecvFailed int | Datagram bytes sockaddr_in "cmsg list"

text \<open>The kernel copies at most \<open>bufsize\<close> bytes and leaves the rest of the buffer alone.\<close>

definition copy_datagram :: "bytes \<Rightarrow> bytes \<Rightarrow> nat \<Rightarrow> nat \<times> bytes" where
  "copy_datagram payload buffer bufsize =
     (let rc = min bufsize (length payload) in (rc, take rc payload @ drop rc buffer))"

text \<open>The return value and the buffer after the call. \<open>recv\<close> cannot tell a closed connection
  from an empty datagram: both are \<open>rc = 0\<close>.\<close>

fun readsocket :: "recv \<Rightarrow> bytes \<Rightarrow> nat \<Rightarrow> int \<times> bytes" where
  "readsocket (RecvFailed errno) buffer bufsize =
     (if errno \<noteq> EWOULDBLOCK then -2 else 0, buffer)"
| "readsocket (Datagram payload src cmsgs) buffer bufsize =
     (let (rc, buffer') = copy_datagram payload buffer bufsize
      in if rc = 0 then (-1, buffer') else (int rc, buffer'))"

fun readsocketfrom :: "recv \<Rightarrow> bytes \<Rightarrow> nat \<Rightarrow> sockaddr_in \<Rightarrow> int \<times> bytes \<times> sockaddr_in" where
  "readsocketfrom (RecvFailed errno) buffer bufsize sender =
     (if errno \<noteq> EWOULDBLOCK then -2 else 0, buffer, sender)"
| "readsocketfrom (Datagram payload src cmsgs) buffer bufsize sender =
     (let (rc, buffer') = copy_datagram payload buffer bufsize
      in if rc = 0 then (-1, buffer', src) else (int rc, buffer', src))"

text \<open>The loop over the control messages: the last timestamp wins, and \<open>*ts\<close> keeps its old
  value when there is none.\<close>

fun scan_cmsgs :: "cmsg list \<Rightarrow> timespec \<Rightarrow> timespec" where
  "scan_cmsgs [] ts = ts"
| "scan_cmsgs (TimestampNs t # cs) ts = scan_cmsgs cs (ts\<lparr>tv_nsec := tv_nsec t, tv_sec := tv_sec t\<rparr>)"
| "scan_cmsgs (OtherCmsg # cs) ts = scan_cmsgs cs ts"

fun readsocketfromts ::
  "recv \<Rightarrow> bytes \<Rightarrow> nat \<Rightarrow> sockaddr_in \<Rightarrow> timespec \<Rightarrow> int \<times> bytes \<times> sockaddr_in \<times> timespec" where
  "readsocketfromts (RecvFailed errno) buffer bufsize sender ts =
     (if errno \<noteq> EWOULDBLOCK then -2 else 0, buffer, sender, ts)"
| "readsocketfromts (Datagram payload src cmsgs) buffer bufsize sender ts =
     (let (rc, buffer') = copy_datagram payload buffer bufsize
      in if rc = 0 then (-1, buffer', src, ts)
         else (int rc, buffer', src, scan_cmsgs cmsgs ts))"

lemma length_copy_datagram:
  "length buffer = bufsize \<Longrightarrow> length (snd (copy_datagram payload buffer bufsize)) = bufsize"
  by (simp add: copy_datagram_def Let_def)

lemma length_readsocketfromts:
  "length buffer = bufsize \<Longrightarrow>
    length (fst (snd (readsocketfromts r buffer bufsize sender ts))) = bufsize"
  by (cases r) (auto simp: copy_datagram_def Let_def)

lemma readsocketfromts_bound:
  "fst (readsocketfromts r buffer bufsize sender ts) \<le> int bufsize"
  by (cases r) (auto simp: copy_datagram_def Let_def)

lemma readsocketfromts_positive:
  "0 < fst (readsocketfromts r buffer bufsize sender ts) \<longleftrightarrow>
    (\<exists>payload src cmsgs. r = Datagram payload src cmsgs \<and> payload \<noteq> [] \<and> 0 < bufsize)"
  by (cases r) (auto simp: copy_datagram_def Let_def min_def split: if_splits)

section \<open>Opening\<close>

record socket_env =
  socket_ret :: int
  bind_ret :: int
  setsockopt_ret :: int
  connect_ret :: int

datatype syscall = Socket | Bind int u16 | Setsockopt int | Connect int sockaddr_in | Close int
  | AddFd int | RemoveFd int

definition udp_socket :: "socket_env \<Rightarrow> int \<times> syscall list" where
  "udp_socket env = (socket_ret env, [Socket])"

definition bound_udp_socket :: "socket_env \<Rightarrow> u16 \<Rightarrow> int \<times> syscall list" where
  "bound_udp_socket env port =
     (let (s, calls) = udp_socket env
      in if s < 0 then (s, calls)
         else let calls = calls @ [Bind s (HTONS port)]
              in if bind_ret env < 0 then (-1, calls @ [Close s]) else (s, calls))"

definition timestamped_bound_udp_socket :: "socket_env \<Rightarrow> u16 \<Rightarrow> int \<times> syscall list" where
  "timestamped_bound_udp_socket env port =
     (let (s, calls) = bound_udp_socket env port
      in if s < 0 then (s, calls)
         else let calls = calls @ [Setsockopt s]
              in if setsockopt_ret env < 0 then (-1, calls @ [Close s]) else (s, calls))"

text \<open>
  Descriptors left open by a list of calls: \<open>socket\<close> returned \<open>fd\<close> and nothing closed it.
\<close>

definition open_after :: "socket_env \<Rightarrow> syscall list \<Rightarrow> int set" where
  "open_after env calls =
     (if Socket \<in> set calls \<and> 0 \<le> socket_ret env then {socket_ret env} else {})
     - {fd. Close fd \<in> set calls}"

lemmas socket_defs = udp_socket_def bound_udp_socket_def timestamped_bound_udp_socket_def
  open_after_def Let_def

end
