(* ===== verification/Ethmux.thy ===== *)
theory Ethmux
  imports Utils_Sockets
begin

text \<open>
  \<open>src/src/ethmux.c\<close>: the datagrams that arrive on the listen port are told apart by their source
  port, checked for length and sequence number, and handed to the modules. The static
  \<open>struct demux_type\<close> variables of \<open>demux\<close> form the state, together with the static buffer.
\<close>

section \<open>State\<close>

text \<open>The senders of type \<open>void (*)(const char ID[4], ...)\<close> that a \<open>demux_type\<close> can hold.\<close>

datatype handler = H_ADIS | H_MPU | H_MPL | H_BMP | H_RNH | H_RNHUMB | H_FCFH | H_JGPS | H_COTS

record demux_type =
  dt_ID :: string
  dt_data_length :: u16
  dt_handler :: handler
  next_sequence :: u32

fun call_handler :: "handler \<Rightarrow> packet \<Rightarrow> message" where
  "call_handler H_ADIS p = demuxed_ADIS p"
| "call_handler H_MPU p = demuxed_MPU p"
| "call_handler H_MPL p = demuxed_MPL p"
| "call_handler H_BMP p = demuxed_BMP p"
| "call_handler H_RNH p = demuxed_RNH p"
| "call_handler H_RNHUMB p = demuxed_RNHUMB p"
| "call_handler H_FCFH p = demuxed_FCFH p"
| "call_handler H_JGPS p = demuxed_JGPS p"
| "call_handler H_COTS p = demuxed_COTS p"

text \<open>The static variables \<open>seq_ADIS\<close>, \<open>seq_MPU\<close>, ... of \<open>demux\<close>, by name, and their initial values.\<close>

datatype seq_var = seq_ADIS | seq_MPU | seq_MPL | seq_BMP | seq_RNH | seq_RNHPORT | seq_RNHALARM
  | seq_RNHUMBDET | seq_FCFH | seq_JGPS | seq_GPS_COTS

definition mk_demux_type :: "string \<Rightarrow> nat \<Rightarrow> handler \<Rightarrow> demux_type" where
  "mk_demux_type i l h =
     \<lparr>dt_ID = i, dt_data_length = word_of_nat l, dt_handler = h, next_sequence = 0\<rparr>"

fun demux_init :: "seq_var \<Rightarrow> demux_type" where
  "demux_init seq_ADIS = mk_demux_type ''ADIS'' (struct_size ADIS16405Data) H_ADIS"
| "demux_init seq_MPU = mk_demux_type ''MPU9'' 65535 H_MPU"
| "demux_init seq_MPL = mk_demux_type ''MPL3'' (struct_size MPLData) H_MPL"
| "demux_init seq_BMP = mk_demux_type ''BMP1'' (struct_size BMP180Data) H_BMP"
| "demux_init seq_RNH = mk_demux_type ''RNHH'' (struct_size RNHHealthData) H_RNH"
| "demux_init seq_RNHPORT = mk_demux_type ''RNHP'' (struct_size RNHPowerData) H_RNH"
| "demux_init seq_RNHALARM = mk_demux_type ''RNHA'' (struct_size RNHAlarms) H_RNH"
| "demux_init seq_RNHUMBDET = mk_demux_type ''RNHU'' (struct_size RNHUmbdet) H_RNHUMB"
| "demux_init seq_FCFH = mk_demux_type ''FCFH'' (struct_size FCFHealthData) H_FCFH"
| "demux_init seq_JGPS = mk_demux_type ''JGPS'' 0 H_JGPS"
| "demux_init seq_GPS_COTS = mk_demux_type ''V8BS'' 0 H_COTS"

record eth_state =
  eth_buffer :: bytes
  seq :: "seq_var \<Rightarrow> demux_type"

definition eth_start :: eth_state where
  "eth_start = \<lparr>eth_buffer = replicate ETH_MTU 0, seq = demux_init\<rparr>"

section \<open>Operations\<close>

definition is_expected_length :: "demux_type \<Rightarrow> u32 \<Rightarrow> bool" where
  "is_expected_length type len =
     (if dt_data_length type \<noteq> 0 then unat len = 4 + unat (dt_data_length type)
      else unat len \<ge> 4 \<and> unat len \<le> 65535 - 4)"

text \<open>The fields of \<open>SequenceErrorData\<close> as they lie in memory.\<close>

definition sequence_error_data :: "u16 \<Rightarrow> u32 \<Rightarrow> u32 \<Rightarrow> bytes" where
  "sequence_error_data port expected received =
     host16 (bswap16 port) @ host32 (bswap32 expected) @ host32 (bswap32 received)"

definition format_sequenced_error :: "u16 \<Rightarrow> bytes \<Rightarrow> u32 \<Rightarrow> u32 \<Rightarrow> action list" where
  "format_sequenced_error port ts expected received =
     [Send (sequenced_error \<lparr>ID = ''SEQE'', timestamp = ts,
        data_length = word_of_nat (struct_size SequenceErrorData),
        data = sequence_error_data port expected received\<rparr>)]"

text \<open>
  \<open>len\<close> is unsigned, so \<open>len - 4\<close> is converted to the \<open>uint16_t\<close> of the handler; the payload
  pointer is \<open>buffer + 4\<close>. \<open>None\<close> is a read of the sequence number outside the buffer.
\<close>

definition sequenced_receive ::
  "u16 \<Rightarrow> bytes \<Rightarrow> u32 \<Rightarrow> bytes \<Rightarrow> demux_type \<Rightarrow> (demux_type \<times> action list) option" where
  "sequenced_receive port buffer len ts type =
     (if \<not> is_expected_length type len then Some (type, format_sequenced_error port ts 0 0)
      else do {
        word \<leftarrow> load32 buffer 0;
        let rcvseq = bswap32 word;
        let buffer = drop 4 buffer;
        let len = len - 4;
        let deliver = [Send (call_handler (dt_handler type)
              \<lparr>ID = dt_ID type, timestamp = ts, data_length = ucast len, data = buffer\<rparr>)];
        let out = (if rcvseq < next_sequence type
                   then format_sequenced_error port ts (next_sequence type) rcvseq else [])
                @ (if rcvseq > next_sequence type
                   then format_sequenced_error port ts (next_sequence type) rcvseq @ deliver
                   else [])
                @ (if rcvseq = next_sequence type then deliver else []);
        Some (type\<lparr>next_sequence := rcvseq + 1\<rparr>, out)
      })"

text \<open>The \<open>switch\<close> on the source port.\<close>

datatype route = Sequenced seq_var | RawArm | RawRC | NoRoute

definition route_of :: "u16 \<Rightarrow> route" where
  "route_of port =
     (if port = ADIS_PORT then Sequenced seq_ADIS
      else if port = ARM_PORT then RawArm
      else if port = MPU_PORT then Sequenced seq_MPU
      else if port = MPL_PORT then Sequenced seq_MPL
      else if port = BMP_PORT then Sequenced seq_BMP
      else if port = RC_SERVO_ENABLE_PORT then RawRC
      else if port = RNH_BATTERY then Sequenced seq_RNH
      else if port = RNH_PORT then Sequenced seq_RNHPORT
      else if port = RNH_ALARM then Sequenced seq_RNHALARM
      else if port = RNH_UMBDET then Sequenced seq_RNHUMBDET
      else if port = FCF_HEALTH_PORT then Sequenced seq_FCFH
      else if port = JGPS_PORT then Sequenced seq_JGPS
      else if port = GPS_COTS then Sequenced seq_GPS_COTS
      else NoRoute)"

text \<open>
  What \<open>demux\<close> reads: the outcome of the receive call, and the values its uninitialised locals
  \<open>packet_info\<close> and \<open>ts\<close> happen to have. \<open>start\<close> is \<open>starttime\<close>.
\<close>

record arrival =
  incoming :: recv
  stale_info :: sockaddr_in
  stale_ts :: timespec

definition demux :: "timespec \<Rightarrow> eth_state \<Rightarrow> arrival \<Rightarrow> (eth_state \<times> action list) option" where
  "demux start s a =
     (let (bytes, buffer, packet_info, ts) =
            readsocketfromts (incoming a) (eth_buffer s) (length (eth_buffer s))
              (stale_info a) (stale_ts a);
          s = s\<lparr>eth_buffer := buffer\<rparr>;
          port = bswap16 (sin_port packet_info);
          timestamp = snd (to_psas_time start ts);
          len = word_of_int bytes
      in if bytes > 0 then
           (case route_of port of
              Sequenced v \<Rightarrow> do {
                (type, out) \<leftarrow> sequenced_receive port buffer len timestamp (seq s v);
                Some (s\<lparr>seq := (seq s)(v := type)\<rparr>, out)
              }
            | RawArm \<Rightarrow> Some (s, [Send (demuxed_ARM buffer len timestamp)])
            | RawRC \<Rightarrow> Some (s, [Send (demuxed_RC buffer len timestamp)])
            | NoRoute \<Rightarrow> Some (s, []))
         else Some (s, []))"

definition ethmux_init :: "socket_env \<Rightarrow> int \<times> syscall list" where
  "ethmux_init env =
     (let (fd, calls) = timestamped_bound_udp_socket env FC_LISTEN_PORT
      in if fd < 0 then (fd, calls) else (fd, calls @ [AddFd fd]))"

definition ethmux_final :: "int \<Rightarrow> syscall list" where
  "ethmux_final fd = [RemoveFd fd, Close fd]"

end
