(* ===== verification/Ethmux_Proofs.thy ===== *)
theory Ethmux_Proofs
  imports Ethmux
begin

text \<open>
  The packet multiplexer: what it does with one packet, with a stream of numbered packets, and
  what it promises to the modules behind it, for every sequence of arrivals.
\<close>

section \<open>One packet\<close>

lemma load32_be32: "load32 (be32 n @ r) 0 = Some (bswap32 n)"
proof -
  have "bswap32 (get_host32 (be32 n @ r)) = n" by (simp add: bswap_get_host)
  then have "get_host32 (be32 n @ r) = bswap32 n" by (metis bswap_bswap(2))
  then show ?thesis by (simp add: load32_def)
qed

lemma sequenced_receive_malformed:
  "\<not> is_expected_length type len \<Longrightarrow>
    sequenced_receive port buffer len ts type = Some (type, format_sequenced_error port ts 0 0)"
  by (simp add: sequenced_receive_def)

text \<open>The call of the handler for the payload \<open>rest\<close> of a datagram of \<open>len\<close> bytes.\<close>

definition delivery :: "demux_type \<Rightarrow> bytes \<Rightarrow> u32 \<Rightarrow> bytes \<Rightarrow> action" where
  "delivery type ts len rest = Send (call_handler (dt_handler type)
     \<lparr>ID = dt_ID type, timestamp = ts, data_length = ucast (len - 4), data = rest\<rparr>)"

lemma sequenced_receive_be32:
  assumes "is_expected_length type len"
  shows "sequenced_receive port (be32 n @ rest) len ts type =
    Some (type\<lparr>next_sequence := n + 1\<rparr>,
      (if n = next_sequence type then []
       else format_sequenced_error port ts (next_sequence type) n)
      @ (if next_sequence type \<le> n then [delivery type ts len rest] else []))"
  using assms by (auto simp: sequenced_receive_def load32_be32 delivery_def)

lemma be32_prefix:
  assumes "4 \<le> length buffer"
  obtains n rest where "buffer = be32 n @ rest"
proof
  have "be32 (get_be32 (take 4 buffer)) = take 4 buffer"
    using assms by (simp add: bytes_simps)
  then show "buffer = be32 (get_be32 (take 4 buffer)) @ drop 4 buffer" by simp
qed

text \<open>No accepted length is lost in the conversion of \<open>len - 4\<close> to 16 bits.\<close>

lemma expected_length_cases:
  assumes "is_expected_length type len"
  shows "unat (ucast (len - 4) :: u16) = unat len - 4" and "4 \<le> unat len"
    and "dt_data_length type \<noteq> 0 \<Longrightarrow> unat len - 4 = unat (dt_data_length type)"
proof -
  have len: "4 \<le> unat len" "unat len - 4 < 65536"
    using assms unat_less_powers(2) [of "dt_data_length type"]
    by (auto simp: is_expected_length_def split: if_splits)
  then have "unat (len - 4) = unat len - 4"
    by (simp add: unat_sub_if_size word_le_nat_alt)
  with len show "unat (ucast (len - 4) :: u16) = unat len - 4" "4 \<le> unat len"
    by (simp_all add: unsigned_ucast_eq take_bit_eq_mod)
  show "dt_data_length type \<noteq> 0 \<Longrightarrow> unat len - 4 = unat (dt_data_length type)"
    using assms by (auto simp: is_expected_length_def)
qed

section \<open>Streams of packets\<close>

text \<open>A datagram as \<open>sequenced_receive\<close> sees it: its number, its payload, and what is left in
  the static buffer behind it.\<close>

fun seq_step :: "u16 \<Rightarrow> bytes \<Rightarrow> demux_type \<Rightarrow> u32 \<times> bytes \<times> bytes \<Rightarrow> (demux_type \<times> action list) option" where
  "seq_step port ts type (n, payload, stale) =
     sequenced_receive port (be32 n @ payload @ stale) (word_of_nat (4 + length payload)) ts type"

fun numbered :: "u32 \<Rightarrow> (bytes \<times> bytes) list \<Rightarrow> (u32 \<times> bytes \<times> bytes) list" where
  "numbered n [] = []"
| "numbered n (p # ps) = (n, p) # numbered (n + 1) ps"

definition right_size :: "demux_type \<Rightarrow> bytes \<Rightarrow> bool" where
  "right_size type payload \<longleftrightarrow>
     (if dt_data_length type \<noteq> 0 then length payload = unat (dt_data_length type)
      else length payload \<le> 65527)"

lemma right_size_expected:
  "right_size type payload \<Longrightarrow> is_expected_length type (word_of_nat (4 + length payload))"
  using unat_less_powers(2) [of "dt_data_length type"]
  by (auto simp: right_size_def is_expected_length_def unat_of_nat simp del: of_nat_add split: if_splits)

lemma right_size_next [simp]: "right_size (type\<lparr>next_sequence := n\<rparr>) p = right_size type p"
  by (simp add: right_size_def)

lemma delivery_next [simp]: "delivery (type\<lparr>next_sequence := n\<rparr>) = delivery type"
  by (simp add: delivery_def fun_eq_iff)

lemma in_order_stream:
  assumes "\<forall>(p, r)\<in>set ps. right_size type p" and "next_sequence type = n"
  shows "run (seq_step port ts) type (numbered n ps) =
    Some (type\<lparr>next_sequence := n + word_of_nat (length ps)\<rparr>,
      map (\<lambda>(p, r). delivery type ts (word_of_nat (4 + length p)) (p @ r)) ps)"
  using assms
proof (induction ps arbitrary: type n)
  case (Cons pr ps)
  obtain p r where pr: "pr = (p, r)" by fastforce
  have "seq_step port ts type (n, p, r) = Some (type\<lparr>next_sequence := n + 1\<rparr>,
      [delivery type ts (word_of_nat (4 + length p)) (p @ r)])"
    using Cons.prems right_size_expected [of type p]
    by (simp add: pr sequenced_receive_be32 del: of_nat_add)
  moreover have "run (seq_step port ts) (type\<lparr>next_sequence := n + 1\<rparr>) (numbered (n + 1) ps)
      = Some (type\<lparr>next_sequence := n + word_of_nat (length (pr # ps))\<rparr>,
          map (\<lambda>(p, r). delivery type ts (word_of_nat (4 + length p)) (p @ r)) ps)"
    using Cons.IH [of "type\<lparr>next_sequence := n + 1\<rparr>" "n + 1"] Cons.prems
    by (simp add: algebra_simps split_def)
  ultimately show ?case by (simp add: pr)
qed (auto simp: )

section \<open>The whole multiplexer\<close>

text \<open>
  The static fields never change: only \<open>next_sequence\<close> does.
\<close>

definition same_type :: "demux_type \<Rightarrow> demux_type \<Rightarrow> bool" where
  "same_type t u \<longleftrightarrow> t\<lparr>next_sequence := 0\<rparr> = u\<lparr>next_sequence := 0\<rparr>"

definition eth_inv :: "eth_state \<Rightarrow> bool" where
  "eth_inv s \<longleftrightarrow> length (eth_buffer s) = ETH_MTU \<and> (\<forall>v. same_type (seq s v) (demux_init v))"

text \<open>
  What the multiplexer promises to its receivers: each message has the ID and the length of its
  struct, a 6-byte time, and a payload that lies inside the memory behind the pointer.
\<close>

definition packet_shape :: "string \<Rightarrow> nat \<Rightarrow> packet \<Rightarrow> bool" where
  "packet_shape i n p \<longleftrightarrow> ID p = i \<and> length (timestamp p) = 6 \<and> unat (data_length p) = n \<and>
     length (data p) = ETH_MTU - 4"

definition raw_shape :: "bytes \<Rightarrow> u32 \<Rightarrow> bytes \<Rightarrow> bool" where
  "raw_shape buf len ts \<longleftrightarrow> length buf = ETH_MTU \<and> 0 < unat len \<and> unat len \<le> ETH_MTU \<and> length ts = 6"

fun eth_promise :: "message \<Rightarrow> bool" where
  "eth_promise (demuxed_ADIS p) = packet_shape ''ADIS'' 24 p"
| "eth_promise (demuxed_MPL p) = packet_shape ''MPL3'' 6 p"
| "eth_promise (demuxed_BMP p) = packet_shape ''BMP1'' 6 p"
| "eth_promise (demuxed_RNH p) =
     (packet_shape ''RNHH'' 26 p \<or> packet_shape ''RNHP'' 16 p \<or> packet_shape ''RNHA'' 6 p)"
| "eth_promise (demuxed_RNHUMB p) = packet_shape ''RNHU'' 1 p"
| "eth_promise (demuxed_FCFH p) = packet_shape ''FCFH'' 124 p"
| "eth_promise (demuxed_JGPS p) = (\<exists>n \<le> ETH_MTU - 4. packet_shape ''JGPS'' n p)"
| "eth_promise (demuxed_COTS p) = (\<exists>n \<le> ETH_MTU - 4. packet_shape ''V8BS'' n p)"
| "eth_promise (demuxed_ARM buf len ts) = raw_shape buf len ts"
| "eth_promise (demuxed_RC buf len ts) = raw_shape buf len ts"
| "eth_promise (sequenced_error p) =
     (ID p = ''SEQE'' \<and> length (timestamp p) = 6 \<and> data_length p = 10 \<and> length (data p) = 10)"
| "eth_promise _ = False"

lemma same_type_fields:
  assumes "same_type t u"
  shows "dt_ID t = dt_ID u" "dt_data_length t = dt_data_length u" "dt_handler t = dt_handler u"
proof -
  from assms have "dt_ID (t\<lparr>next_sequence := 0\<rparr>) = dt_ID (u\<lparr>next_sequence := 0\<rparr>)"
    "dt_data_length (t\<lparr>next_sequence := 0\<rparr>) = dt_data_length (u\<lparr>next_sequence := 0\<rparr>)"
    "dt_handler (t\<lparr>next_sequence := 0\<rparr>) = dt_handler (u\<lparr>next_sequence := 0\<rparr>)"
    by (simp_all add: same_type_def)
  then show "dt_ID t = dt_ID u" "dt_data_length t = dt_data_length u" "dt_handler t = dt_handler u"
    by simp_all
qed

lemma same_type_next [simp]: "same_type (t\<lparr>next_sequence := n\<rparr>) u = same_type t u"
  by (simp add: same_type_def)

lemma format_sequenced_error_promised:
  "length ts = 6 \<Longrightarrow> x \<in> set (format_sequenced_error port ts e r) \<Longrightarrow> promised eth_promise x"
  by (simp add: format_sequenced_error_def sequence_error_data_def)

lemma delivery_promised:
  assumes "same_type type (demux_init v)" and "is_expected_length type len"
    and "unat len \<le> ETH_MTU" and "length ts = 6" and "length rest = ETH_MTU - 4"
  shows "promised eth_promise (delivery type ts len rest)"
  using assms expected_length_cases [OF assms(2)] same_type_fields [OF assms(1)]
  by (cases v) (auto simp: delivery_def packet_shape_def mk_demux_type_def ETH_MTU_def)

lemma sequenced_receive_promised:
  assumes "same_type type (demux_init v)" and "length buffer = ETH_MTU"
    and "unat len \<le> ETH_MTU" and "length ts = 6"
  shows "\<exists>type' out. sequenced_receive port buffer len ts type = Some (type', out) \<and>
    same_type type' (demux_init v) \<and> (\<forall>x\<in>set out. promised eth_promise x)"
proof (cases "is_expected_length type len")
  case False
  with assms show ?thesis
    by (auto simp: sequenced_receive_malformed intro: format_sequenced_error_promised)
next
  case True
  obtain n rest where b: "buffer = be32 n @ rest"
    using be32_prefix [of buffer] assms(2) by (auto simp: ETH_MTU_def)
  with assms(2) have "length rest = ETH_MTU - 4" by (simp add: ETH_MTU_def)
  with True assms show ?thesis
    by (auto simp: b sequenced_receive_be32 intro: format_sequenced_error_promised delivery_promised)
qed

lemma demux_promised:
  assumes inv: "eth_inv s"
  shows "\<exists>s' out. demux start s a = Some (s', out) \<and> eth_inv s' \<and> (\<forall>x\<in>set out. promised eth_promise x)"
proof -
  let ?r = "readsocketfromts (incoming a) (eth_buffer s) (length (eth_buffer s)) (stale_info a) (stale_ts a)"
  obtain rc buffer info ts where r: "?r = (rc, buffer, info, ts)" by (metis prod_cases4)
  have buffer: "length buffer = ETH_MTU"
    using length_readsocketfromts [of "eth_buffer s" "length (eth_buffer s)" "incoming a"
        "stale_info a" "stale_ts a"] inv r
    by (simp add: eth_inv_def)
  have rc: "rc \<le> int ETH_MTU"
    using readsocketfromts_bound [of "incoming a" "eth_buffer s" "length (eth_buffer s)"
        "stale_info a" "stale_ts a"] inv r
    by (simp add: eth_inv_def)
  let ?len = "word_of_int rc :: u32" and ?ts = "snd (to_psas_time start ts)"
    and ?port = "bswap16 (sin_port info)"
  show ?thesis
  proof (cases "rc > 0")
    case False
    then show ?thesis using inv buffer r by (simp add: demux_def eth_inv_def)
  next
    case True
    then have len: "0 < unat ?len" "unat ?len \<le> ETH_MTU"
      using rc by (auto simp: ETH_MTU_def unsigned_of_int take_bit_int_eq_self nat_less_iff)
    show ?thesis
    proof (cases "route_of ?port")
      case (Sequenced v)
      obtain type out where t: "sequenced_receive ?port buffer ?len ?ts (seq s v) = Some (type, out)"
        "same_type type (demux_init v)" "\<forall>x\<in>set out. promised eth_promise x"
        using sequenced_receive_promised [of "seq s v" v buffer ?len ?ts ?port] inv buffer len
        by (auto simp: eth_inv_def)
      with True Sequenced inv buffer r show ?thesis
        by (simp add: demux_def eth_inv_def)
    qed (use True inv buffer r len in \<open>auto simp: demux_def eth_inv_def raw_shape_def\<close>)
  qed
qed

lemma eth_inv_start: "eth_inv eth_start"
  by (simp add: eth_inv_def eth_start_def same_type_def)

interpretation eth: component "demux start" eth_inv "\<lambda>_. True" "promised eth_promise"
  by unfold_locales (rule demux_promised)

section \<open>Properties\<close>

text \<open>
  C5: Streams are delivered in order. Packets with consecutive sequence numbers, starting with
  the expected one and wrapping from \<open>2 ^ 32 - 1\<close> to 0, and of the size of the stream's struct
  (any size that fits, when the stream has no fixed size), are all handed to the handler, in
  order and without a sequence error, each with its exact payload length.
\<close>
theorem in_order_delivery:
  assumes "\<forall>(p, stale)\<in>set ps. right_size type p" and "next_sequence type = n"
  shows "run (seq_step port ts) type (numbered n ps) =
    Some (type\<lparr>next_sequence := n + word_of_nat (length ps)\<rparr>,
      map (\<lambda>(p, stale). Send (call_handler (dt_handler type)
        \<lparr>ID = dt_ID type, timestamp = ts, data_length = word_of_nat (length p),
         data = p @ stale\<rparr>)) ps)"
proof -
  have "ucast (word_of_nat (4 + length p) - 4 :: u32) = (word_of_nat (length p) :: u16)"
    if "right_size type p" for p
  proof -
    have "unat (ucast (word_of_nat (4 + length p) - 4 :: u32) :: u16) = length p"
      using expected_length_cases [OF right_size_expected [OF that]] right_size_expected [OF that] that
        unat_less_powers(2) [of "dt_data_length type"]
      by (auto simp: unat_of_nat right_size_def simp del: of_nat_add split: if_splits)
    then show ?thesis by (metis of_nat_unat ucast_id)
  qed
  with in_order_stream [OF assms] assms(1) show ?thesis
    by (auto simp: delivery_def simp del: of_nat_add)
qed

lemma in_order_delivery_witness:
  "\<exists>out. run (seq_step 35010 (replicate 6 0))
      ((demux_init seq_MPL)\<lparr>next_sequence := 0xFFFFFFFF\<rparr>)
      (numbered 0xFFFFFFFF [(replicate 6 1, []), (replicate 6 2, [])])
    = Some ((demux_init seq_MPL)\<lparr>next_sequence := 1\<rparr>, out) \<and> length out = 2"
  using in_order_delivery [of "[(replicate 6 1, []), (replicate 6 2, [])]"
      "(demux_init seq_MPL)\<lparr>next_sequence := 0xFFFFFFFF\<rparr>" "0xFFFFFFFF" 35010 "replicate 6 0"]
  by (simp add: right_size_def mk_demux_type_def del: seq_step.simps run.simps numbered.simps)

text \<open>
  The check of one packet. A packet of the wrong length is reported as error \<open>(0, 0)\<close> and
  changes nothing. Otherwise the big-endian number \<open>n\<close> in front decides: an unexpected number is
  reported with the expected one, a late packet (\<open>n\<close> below the expected number) is dropped, and
  any other is handed on; the number expected next is \<open>n + 1\<close> in every case.
\<close>
lemma sequence_check:
  "sequenced_receive port (be32 n @ rest) len ts type =
    (if \<not> is_expected_length type len then Some (type, format_sequenced_error port ts 0 0)
     else Some (type\<lparr>next_sequence := n + 1\<rparr>,
       (if n = next_sequence type then []
        else format_sequenced_error port ts (next_sequence type) n)
       @ (if n < next_sequence type then []
          else [Send (call_handler (dt_handler type)
            \<lparr>ID = dt_ID type, timestamp = ts, data_length = ucast (len - 4), data = rest\<rparr>)])))"
  by (auto simp: sequenced_receive_malformed sequenced_receive_be32 delivery_def)

text \<open>
  A packet that arrives twice in a row is handed on once and reported once, whatever the
  state of the stream was, unless its number is \<open>2 ^ 32 - 1\<close>: then the expected number has
  wrapped to 0 and the copy is handed on again.
\<close>
lemma duplicate_packet:
  assumes "is_expected_length type len"
    and "sequenced_receive port (be32 n @ rest) len ts type = Some (type', out)"
  shows "\<exists>out'. sequenced_receive port (be32 n @ rest) len ts type' = Some (type', out') \<and>
    out' = format_sequenced_error port ts (n + 1) n
      @ (if n = 0xFFFFFFFF then [Send (call_handler (dt_handler type)
          \<lparr>ID = dt_ID type, timestamp = ts, data_length = ucast (len - 4), data = rest\<rparr>)] else [])"
proof -
  have type': "type' = type\<lparr>next_sequence := n + 1\<rparr>" "is_expected_length type' len"
    using assms sequenced_receive_be32 [OF assms(1), of port n rest ts]
    by (auto simp: is_expected_length_def)
  have order: "n + 1 \<le> n \<longleftrightarrow> n = 0xFFFFFFFF"
    by uint_arith auto
  have "n \<noteq> n + 1" by simp
  then show ?thesis
    using sequenced_receive_be32 [OF type'(2), of port n rest ts] order
    by (auto simp: type'(1) delivery_def)
qed

text \<open>
  C18: What the modules behind the multiplexer may rely on. For every sequence of arrivals, also
  of failed reads, empty, truncated and malformed datagrams and unknown ports, \<open>demux\<close> never reads
  outside its buffer, and every message it sends has the ID of its stream, a 6-byte time, the
  size of the struct its receivers cast the payload to, and a payload inside the buffer. No MPU
  message is ever sent.
\<close>
theorem demux_contract:
  "\<exists>s' out. run (demux start) eth_start arrivals = Some (s', out) \<and> eth_inv s' \<and>
     list_all (promised eth_promise) out"
  using eth.run_ok [OF eth_inv_start, of arrivals start] by (auto simp: list_all_iff)

text \<open>
  C39: MPU packets cannot arrive. A datagram from the MPU port is reported as a sequence error
  with the numbers \<open>(0, 0)\<close> and dropped, whatever its length and content: the length its stream
  expects, \<open>4 + UINT16_MAX\<close>, does not fit the receive buffer.
\<close>
theorem mpu_always_rejected:
  assumes "eth_inv s" and "payload \<noteq> []" and "sin_port src = bswap16 MPU_PORT"
    and "incoming a = Datagram payload src cmsgs"
  shows "\<exists>s' ts. demux start s a = Some (s', format_sequenced_error MPU_PORT ts 0 0) \<and>
    seq s' = seq s"
proof -
  let ?n = "min (length (eth_buffer s)) (length payload)"
  have n: "0 < ?n" "?n \<le> ETH_MTU" using assms(1,2) by (auto simp: eth_inv_def ETH_MTU_def)
  have "same_type (seq s seq_MPU) (demux_init seq_MPU)"
    using assms(1) unfolding eth_inv_def by blast
  then have "dt_data_length (seq s seq_MPU) = 65535"
    by (simp add: same_type_fields(2) mk_demux_type_def)
  then have "\<not> is_expected_length (seq s seq_MPU) (word_of_nat ?n)"
    using n by (simp add: is_expected_length_def unat_of_nat ETH_MTU_def)
  then have rej: "sequenced_receive port b (word_of_nat ?n) ts (seq s seq_MPU)
      = Some (seq s seq_MPU, format_sequenced_error port ts 0 0)" for port b ts
    by (rule sequenced_receive_malformed)
  have route: "route_of MPU_PORT = Sequenced seq_MPU"
    by (simp add: route_of_def port_defs)
  have nz: "(?n = 0) = False" "eth_buffer s \<noteq> []" "payload \<noteq> []" using n(1) by auto
  show ?thesis
    by (auto simp: demux_def assms(3,4) copy_datagram_def Let_def route rej nz)
qed

lemma mpu_always_rejected_witness:
  "\<exists>s' ts. demux \<lparr>tv_sec = 0, tv_nsec = 0\<rparr> eth_start
      \<lparr>incoming = Datagram (replicate 32 1) \<lparr>sin_port = bswap16 MPU_PORT, sin_addr = 0\<rparr> [],
       stale_info = \<lparr>sin_port = 0, sin_addr = 0\<rparr>, stale_ts = \<lparr>tv_sec = 0, tv_nsec = 0\<rparr>\<rparr>
    = Some (s', format_sequenced_error MPU_PORT ts 0 0) \<and> seq s' = seq eth_start"
  by (rule mpu_always_rejected [OF eth_inv_start, where payload = "replicate 32 1"
      and src = "\<lparr>sin_port = bswap16 MPU_PORT, sin_addr = 0\<rparr>" and cmsgs = "[]"]) simp_all

text \<open>
  The sequence error on the wire. The payload of a \<open>SEQE\<close> message is 10 bytes from which the
  port, the expected and the received number are read back in network order.
\<close>
lemma sequence_error_roundtrip:
  "get_be16 (sequence_error_data port expected received) = port \<and>
   get_be32 (drop 2 (sequence_error_data port expected received)) = expected \<and>
   get_be32 (drop 6 (sequence_error_data port expected received)) = received \<and>
   length (sequence_error_data port expected received) = struct_size SequenceErrorData"
proof -
  have "sequence_error_data port expected received = be16 port @ be32 expected @ be32 received @ []"
    by (simp add: sequence_error_data_def)
  moreover have "drop 6 (be16 port @ be32 expected @ be32 received @ []) = be32 received @ []"
    by simp
  ultimately show ?thesis
    by (simp del: append_Nil2 add: be16.drop_enc)
qed

end
