(* ===== verification/Gps.thy ===== *)
theory Gps
  imports Psas_Packet
begin

text \<open>
  \<open>src/src/devices/gps.c\<close>: the byte stream of the Venus GPS receiver is collected in a buffer of
  512 bytes, split into frames, and the packets of valid frames are sent on. The state is the
  array \<open>buf\<close> and the offset of \<open>cur\<close> in it; frame pointers are offsets too. The diagnostics on
  \<open>stderr\<close> are left out; the code under \<open>#ifdef TESTING\<close> is in \<open>Gps_Selftest\<close>.
\<close>

section \<open>The code\<close>

definition GPS_BUF :: nat where "GPS_BUF = 512"

record gps_state =
  buf :: bytes
  cur :: nat

definition gps_start :: gps_state where
  "gps_start = \<lparr>buf = replicate GPS_BUF 0, cur = 0\<rparr>"

fun chexxor_loop :: "u8 \<Rightarrow> bytes \<Rightarrow> nat \<Rightarrow> u8 option" where
  "chexxor_loop ret p 0 = Some ret"
| "chexxor_loop ret (b # p) (Suc len) = chexxor_loop (ret XOR b) p len"
| "chexxor_loop ret [] (Suc len) = None"

definition chexxor :: "bytes \<Rightarrow> nat \<Rightarrow> u8 option" where
  "chexxor p len = chexxor_loop 0 p len"

text \<open>\<open>memchr\<close> of the C library: the offset of the first \<open>c\<close> among \<open>n\<close> bytes.\<close>

fun memchr :: "bytes \<Rightarrow> u8 \<Rightarrow> nat \<Rightarrow> nat option" where
  "memchr (x # p) c (Suc n) = (if x = c then Some 0 else map_option Suc (memchr p c n))"
| "memchr p c n = None"

definition hex_digit :: "nat \<Rightarrow> char" where
  "hex_digit n = (if n < 10 then char_of (48 + n) else char_of (55 + n))"

text \<open>\<open>sprintf (ID, "V8%02X", b)\<close>\<close>

definition venus_ID :: "u8 \<Rightarrow> string" where
  "venus_ID b = ''V8'' @ [hex_digit (unat b div 16), hex_digit (unat b mod 16)]"

text \<open>How the loop over the frames ends: the end of the data was reached without a frame start,
  or the data from an offset on is kept for the next call.\<close>

datatype loop_end = NoFrame | Keep nat

function venus_loop :: "bytes \<Rightarrow> bytes \<Rightarrow> nat \<Rightarrow> nat \<Rightarrow> (loop_end \<times> action list) option" where
  "venus_loop ts b c start =
     (if start < c then
        (case memchr (drop start b) 0xA0 (c - start) of
           None \<Rightarrow> Some (NoFrame, [])
         | Some off \<Rightarrow>
             let frame = start + off in
             if frame + 7 > c then Some (Keep frame, [])
             else do {
               b1 \<leftarrow> load8 b (frame + 1);
               if b1 \<noteq> 0xA1 then venus_loop ts b c (frame + 1)
               else do {
                 hi \<leftarrow> load8 b (frame + 2);
                 lo \<leftarrow> load8 b (frame + 3);
                 let packet_len = (push_bit 8 (ucast hi) OR ucast lo :: u16);
                 let n = unat packet_len;
                 if n > GPS_BUF div 2 then venus_loop ts b c (frame + 2)
                 else if frame + 7 + n > c then Some (Keep frame, [])
                 else do {
                   trailer \<leftarrow> memcpy_from (drop (frame + 5 + n) b) 2;
                   if trailer \<noteq> [0x0D, 0x0A] then venus_loop ts b c (frame + 2)
                   else do {
                     sum \<leftarrow> chexxor (drop (frame + 4) b) n;
                     checksum \<leftarrow> load8 b (frame + 4 + n);
                     if sum \<noteq> checksum then venus_loop ts b c (frame + 2)
                     else do {
                       ident \<leftarrow> load8 b (frame + 4);
                       let out = Send (gps_data_out \<lparr>ID = venus_ID ident, timestamp = ts,
                             data_length = packet_len - 1, data = drop (frame + 5) b\<rparr>);
                       (e, outs) \<leftarrow> venus_loop ts b c (frame + n + 7);
                       Some (e, out # outs)
                     }
                   }
                 }
               }
             })
      else Some (Keep start, []))"
  by pat_completeness auto
termination
  by (relation "measure (\<lambda>(ts, b, c, start). c - start)") auto

declare venus_loop.simps [simp del]

definition send_venus_messages :: "bytes \<Rightarrow> gps_state \<Rightarrow> (gps_state \<times> action list) option" where
  "send_venus_messages ts s = do {
     (e, outs) \<leftarrow> venus_loop ts (buf s) (cur s) 0;
     case e of
       NoFrame \<Rightarrow> Some (s\<lparr>cur := 0\<rparr>, outs)
     | Keep frame \<Rightarrow>
         let n = cur s - frame in
         Some (s\<lparr>buf := take n (drop frame (buf s)) @ drop n (buf s), cur := n\<rparr>, outs)
   }"

text \<open>\<open>None\<close>: the \<open>memcpy\<close> into \<open>buf\<close> reads past the source or writes past the end of \<open>buf\<close>.\<close>

definition cots_raw_in :: "gps_state \<Rightarrow> packet \<Rightarrow> (gps_state \<times> action list) option" where
  "cots_raw_in s p =
     (let len = unat (data_length p);
          s = (if cur s + len \<ge> GPS_BUF then s\<lparr>cur := 0\<rparr> else s)
      in do {
        src \<leftarrow> memcpy_from (data p) len;
        if cur s + len > length (buf s) then None
        else
          let s = s\<lparr>buf := take (cur s) (buf s) @ src @ drop (cur s + len) (buf s)\<rparr>;
              s = s\<lparr>cur := cur s + len\<rparr>
          in send_venus_messages (timestamp p) s
      })"

section \<open>The frame format\<close>

text \<open>What the parser computes, on the bytes alone: the packets of the valid frames, and the bytes
  that are kept because a frame may continue in the next chunk.\<close>

definition packet_size :: "bytes \<Rightarrow> nat" where
  "packet_size v = unat (get_be16 (drop 2 v))"

definition xor_sum :: "bytes \<Rightarrow> u8" where
  "xor_sum bs = foldl (XOR) 0 bs"

definition well_framed :: "bytes \<Rightarrow> nat \<Rightarrow> bool" where
  "well_framed v n \<longleftrightarrow> take 2 (drop (5 + n) v) = [0x0D, 0x0A] \<and>
     xor_sum (take n (drop 4 v)) = v ! (4 + n)"

lemma drop_dropWhile_less:
  "x = dropWhile P w \<Longrightarrow> \<not> length x < 7 \<Longrightarrow> 0 < k \<Longrightarrow> length x - k < length w"
  using length_dropWhile_le [of P w] by auto

function venus_parse :: "bytes \<Rightarrow> bytes list \<times> bytes" where
  "venus_parse w =
     (let v = dropWhile (\<lambda>b. b \<noteq> 0xA0) w in
      if length v < 7 then ([], v)
      else if v ! 1 \<noteq> 0xA1 then venus_parse (drop 1 v)
      else let n = packet_size v in
        if n > 256 then venus_parse (drop 2 v)
        else if length v < 7 + n then ([], v)
        else if \<not> well_framed v n then venus_parse (drop 2 v)
        else (let (ps, r) = venus_parse (drop (n + 7) v) in (take n (drop 4 v) # ps, r)))"
  by pat_completeness auto
termination
  by (relation "measure length") (simp_all add: drop_dropWhile_less)

declare venus_parse.simps [simp del]

definition frame_of :: "bytes \<Rightarrow> bytes" where
  "frame_of body =
     [0xA0, 0xA1] @ be16 (word_of_nat (length body)) @ body @ [xor_sum body] @ [0x0D, 0x0A]"

end
