(* ===== verification/Gps_Parse.thy ===== *)
theory Gps_Parse
  imports Gps
begin

text \<open>
  The loop of \<open>send_venus_messages\<close>, which works on offsets into the static buffer, computes the
  parser \<open>venus_parse\<close> of \<open>Gps.thy\<close>, which works on the bytes alone; and the laws of that parser:
  it accepts exactly the frames of the format, it keeps less than a frame, and it can be fed a
  stream in any chunks.
\<close>

section \<open>The loop computes the parser\<close>

text \<open>The bytes from offset \<open>f\<close> up to offset \<open>c\<close>.\<close>

definition slice :: "bytes \<Rightarrow> nat \<Rightarrow> nat \<Rightarrow> bytes" where
  "slice b f c = take (c - f) (drop f b)"

lemma length_slice [simp]: "c \<le> length b \<Longrightarrow> length (slice b f c) = c - f"
  by (simp add: slice_def)

lemma slice_nth: "i < c - f \<Longrightarrow> c \<le> length b \<Longrightarrow> slice b f c ! i = b ! (f + i)"
  by (simp add: slice_def)

lemma drop_slice [simp]: "drop k (slice b f c) = slice b (f + k) c"
  by (simp add: slice_def drop_take add.commute)

lemma take_drop_slice: "f + k + n \<le> c \<Longrightarrow> take n (slice b (f + k) c) = take n (drop (f + k) b)"
  by (simp add: slice_def)

lemma slice_empty [simp]: "slice b c c = []"
  by (simp add: slice_def)

lemma chexxor_loop_eq: "n \<le> length p \<Longrightarrow> chexxor_loop r p n = Some (foldl (XOR) r (take n p))"
  by (induction r p n rule: chexxor_loop.induct) auto

lemma chexxor_eq: "n \<le> length p \<Longrightarrow> chexxor p n = Some (xor_sum (take n p))"
  by (simp add: chexxor_def chexxor_loop_eq xor_sum_def)

lemma memchr_None: "n \<le> length p \<Longrightarrow> memchr p c n = None \<longleftrightarrow> dropWhile (\<lambda>b. b \<noteq> c) (take n p) = []"
  by (induction p c n rule: memchr.induct) auto

lemma memchr_Some: "memchr p c n = Some k \<Longrightarrow>
    k < n \<and> dropWhile (\<lambda>b. b \<noteq> c) (take n p) = drop k (take n p)"
  by (induction p c n arbitrary: k rule: memchr.induct) (auto split: if_splits)

lemma packet_size_eq:
  "Suc (Suc (Suc 0)) < length v \<Longrightarrow> (push_bit 8 (ucast (v ! 2)) OR ucast (v ! 3) :: u16) = get_be16 (drop 2 v)"
proof -
  assume "Suc (Suc (Suc 0)) < length v"
  then obtain a b h l r where "v = a # b # h # l # r"
    by (auto simp: Suc_less_eq2 Suc_length_conv less_eq_Suc_le Suc_le_length_iff)
  then show ?thesis by (simp add: push_bit_8_or get_be16_def of_be_def take_Suc numeral_2_eq_2)
qed

text \<open>The message for a packet: its ID names the packet type, and its data are the bytes after it.\<close>

definition emits :: "bytes \<Rightarrow> action \<Rightarrow> bytes \<Rightarrow> bool" where
  "emits ts a body \<longleftrightarrow> (\<exists>d. a = Send (gps_data_out
       \<lparr>ID = venus_ID (if body = [] then 0 else hd body), timestamp = ts,
        data_length = word_of_nat (length body) - 1, data = d\<rparr>)
     \<and> length body + 2 \<le> length d \<and> length d < GPS_BUF \<and> take (length body - 1) d = tl body
     \<and> (body \<noteq> [] \<longrightarrow> d ! (length body - 1) = xor_sum body))"

fun kept :: "bytes \<Rightarrow> nat \<Rightarrow> loop_end \<Rightarrow> bytes" where
  "kept b c NoFrame = []"
| "kept b c (Keep f) = slice b f c"

definition loop_ok :: "bytes \<Rightarrow> bytes \<Rightarrow> nat \<Rightarrow> nat \<Rightarrow> bool" where
  "loop_ok ts b c start \<longleftrightarrow> (\<exists>e outs. venus_loop ts b c start = Some (e, outs) \<and>
     list_all2 (emits ts) outs (fst (venus_parse (slice b start c))) \<and>
     kept b c e = snd (venus_parse (slice b start c)) \<and> (\<forall>f. e = Keep f \<longrightarrow> f \<le> c))"

lemma venus_parse_skip:
  "venus_parse w = venus_parse (dropWhile (\<lambda>b. b \<noteq> 0xA0) w)"
  by (subst (1 2) venus_parse.simps) (simp add: dropWhile_idem)

lemma venus_parse_Nil [simp]: "venus_parse [] = ([], [])"
  by (subst venus_parse.simps) simp

text \<open>At a byte \<open>0xA0\<close> no byte is skipped.\<close>

lemma venus_parse_at:
  assumes "v \<noteq> []" and "hd v = 0xA0"
  shows "venus_parse v =
     (if length v < 7 then ([], v)
      else if v ! 1 \<noteq> 0xA1 then venus_parse (drop 1 v)
      else if packet_size v > 256 then venus_parse (drop 2 v)
      else if length v < 7 + packet_size v then ([], v)
      else if \<not> well_framed v (packet_size v) then venus_parse (drop 2 v)
      else (let (ps, r) = venus_parse (drop (packet_size v + 7) v)
            in (take (packet_size v) (drop 4 v) # ps, r)))"
proof -
  have "dropWhile (\<lambda>b. b \<noteq> 0xA0) v = v" using assms by (cases v) auto
  then show ?thesis by (subst venus_parse.simps) (simp add: Let_def)
qed

text \<open>What the loop reads of a frame it has found, in terms of the data from there on.\<close>

lemma frame_reads:
  assumes "c \<le> length b" and "frame + 7 + n \<le> c"
  shows "i < 7 \<Longrightarrow> load8 b (frame + i) = Some (slice b frame c ! i)"
    and "memcpy_from (drop (frame + 5 + n) b) 2 = Some (take 2 (drop (5 + n) (slice b frame c)))"
    and "chexxor (drop (frame + 4) b) n = Some (xor_sum (take n (drop 4 (slice b frame c))))"
    and "load8 b (frame + 4 + n) = Some (slice b frame c ! (4 + n))"
    and "(push_bit 8 (ucast (slice b frame c ! 2)) OR ucast (slice b frame c ! 3) :: u16)
         = get_be16 (drop 2 (slice b frame c))"
  subgoal using assms by (simp add: load8_def slice_nth)
  subgoal using assms
    by (auto simp: memcpy_from_def slice_def drop_take add.assoc min_def add.left_commute add.commute)
  subgoal using assms by (auto simp: chexxor_eq slice_def drop_take min_def add.commute)
  subgoal using assms by (simp add: load8_def slice_nth add.assoc)
  subgoal using assms by (intro packet_size_eq) simp
  done

definition gps_message :: "bytes \<Rightarrow> bytes \<Rightarrow> nat \<Rightarrow> bytes \<Rightarrow> action" where
  "gps_message ts b frame v = Send (gps_data_out \<lparr>ID = venus_ID (v ! 4), timestamp = ts,
     data_length = get_be16 (drop 2 v) - 1, data = drop (frame + 5) b\<rparr>)"

lemma venus_loop_at:
  assumes "c \<le> length b" "start \<le> frame" "frame < c"
    and memchr: "memchr (drop start b) 0xA0 (c - start) = Some (frame - start)"
    and v: "v = slice b frame c"
  shows "venus_loop ts b c start =
     (if length v < 7 then Some (Keep frame, [])
      else if v ! 1 \<noteq> 0xA1 then venus_loop ts b c (frame + 1)
      else if packet_size v > 256 then venus_loop ts b c (frame + 2)
      else if length v < 7 + packet_size v then Some (Keep frame, [])
      else if \<not> well_framed v (packet_size v) then venus_loop ts b c (frame + 2)
      else do { (e, outs) \<leftarrow> venus_loop ts b c (frame + packet_size v + 7);
                Some (e, gps_message ts b frame v # outs) })"
proof -
  let ?n = "packet_size v"
  have len: "length v < k \<longleftrightarrow> frame + k > c" for k
    using assms by auto
  have loads: "load8 b (frame + 1) = Some (v ! 1)" "load8 b (frame + 2) = Some (v ! 2)"
    "load8 b (frame + 3) = Some (v ! 3)" "load8 b (frame + 4) = Some (v ! 4)"
    "(push_bit 8 (ucast (v ! 2)) OR ucast (v ! 3) :: u16) = get_be16 (drop 2 v)"
    if "\<not> frame + 7 > c"
    using frame_reads(1,5) [of c b frame 0] that assms
    by (simp_all del: add_Suc_right add_2_eq_Suc' One_nat_def)
  have reads: "memcpy_from (drop (frame + 5 + ?n) b) 2 = Some (take 2 (drop (5 + ?n) v))"
    "chexxor (drop (frame + 4) b) ?n = Some (xor_sum (take ?n (drop 4 v)))"
    "load8 b (frame + 4 + ?n) = Some (v ! (4 + ?n))"
    if "\<not> frame + 7 + ?n > c"
    using frame_reads(2-4) [of c b frame ?n] that assms by simp_all
  have start: "start < c" "start + (frame - start) = frame" using assms by simp_all
  show ?thesis
    unfolding len add.assoc [symmetric]
    by (subst venus_loop.simps)
      (simp add: start memchr loads reads Let_def well_framed_def gps_message_def GPS_BUF_def
        packet_size_def [symmetric] del: add_Suc_right add_2_eq_Suc' One_nat_def)
qed

lemma gps_message_emits:
  assumes "length b = GPS_BUF" "c \<le> length b" "frame + 7 + packet_size v \<le> c"
    and "v = slice b frame c" and "well_framed v (packet_size v)"
  shows "emits ts (gps_message ts b frame v) (take (packet_size v) (drop 4 v))"
proof -
  let ?n = "packet_size v"
  let ?body = "take ?n (drop 4 v)"
  have n: "length ?body = ?n" using assms by simp
  have size: "get_be16 (drop 2 v) = word_of_nat ?n" by (simp add: packet_size_def)
  have "take (?n - 1) (drop (frame + 5) b) = tl ?body"
    using assms(2,3) drop_Suc [of "frame + 4" b]
    by (auto simp: assms(4) slice_def drop_take tl_take tl_drop min_def add.commute)
  moreover have "v ! 4 = (if ?body = [] then 0 else hd ?body)"
  proof (cases "?n = 0")
    case True
    then show ?thesis using assms(5) by (simp add: well_framed_def xor_sum_def)
  next
    case False
    moreover have "4 < length v" using assms(2-4) by simp
    ultimately show ?thesis by (simp add: hd_drop_conv_nth)
  qed
  moreover have "drop (frame + 5) b ! (?n - 1) = xor_sum ?body" if "?n \<noteq> 0"
  proof -
    have "drop (frame + 5) b ! (?n - 1) = b ! (frame + (4 + ?n))"
      using assms(2,3) that by (simp add: algebra_simps)
    also have "\<dots> = v ! (4 + ?n)" using assms(2,3) by (simp add: assms(4) slice_def)
    finally show ?thesis using assms(5) by (simp add: well_framed_def)
  qed
  ultimately show ?thesis
    using assms(1-3) n size by (auto simp: emits_def gps_message_def)
qed

lemma loop_ok_done: "venus_loop ts b c start = Some (Keep f, []) \<Longrightarrow> f \<le> c \<Longrightarrow>
    venus_parse (slice b start c) = ([], slice b f c) \<Longrightarrow> loop_ok ts b c start"
  by (simp add: loop_ok_def)

lemma venus_loop_ok:
  assumes "length b = GPS_BUF" and "c \<le> GPS_BUF"
  shows "start \<le> c \<Longrightarrow> loop_ok ts b c start"
proof (induction "c - start" arbitrary: start rule: less_induct)
  case less
  show ?case
  proof (cases "memchr (drop start b) 0xA0 (c - start)")
    case None
    then have "dropWhile (\<lambda>x. x \<noteq> 0xA0) (slice b start c) = []"
      using memchr_None [of "c - start" "drop start b" "0xA0"] assms less.prems
      by (simp add: slice_def)
    then have "venus_parse (slice b start c) = ([], [])"
      by (subst venus_parse_skip) (simp only: venus_parse_Nil)
    moreover have "venus_loop ts b c start = Some (if start < c then NoFrame else Keep start, [])"
      using None by (subst venus_loop.simps) simp
    ultimately show ?thesis using less.prems by (auto simp: loop_ok_def)
  next
    case (Some off)
    define frame where "frame = start + off"
    let ?v = "slice b frame c"
    have frame: "start \<le> frame" "frame < c" "frame - start = off"
      "dropWhile (\<lambda>x. x \<noteq> 0xA0) (slice b start c) = ?v"
      using memchr_Some [OF Some] by (auto simp: frame_def slice_def drop_take ac_simps)
    then have v: "?v \<noteq> []" "length ?v = c - frame"
      using assms by (simp_all flip: length_0_conv)
    then have hd: "hd ?v = 0xA0"
      using frame(4) hd_dropWhile [of "\<lambda>x. x \<noteq> 0xA0" "slice b start c"] by metis
    have parse: "venus_parse (slice b start c) = venus_parse ?v"
      using venus_parse_skip [of "slice b start c"] frame(4) by simp
    have IH: "loop_ok ts b c (frame + k)" if "0 < k" "frame + k \<le> c" for k
      using less.hyps [of "frame + k"] that frame by simp
    have at: "venus_loop ts b c start =
     (if length ?v < 7 then Some (Keep frame, [])
      else if ?v ! 1 \<noteq> 0xA1 then venus_loop ts b c (frame + 1)
      else if packet_size ?v > 256 then venus_loop ts b c (frame + 2)
      else if length ?v < 7 + packet_size ?v then Some (Keep frame, [])
      else if \<not> well_framed ?v (packet_size ?v) then venus_loop ts b c (frame + 2)
      else do { (e, outs) \<leftarrow> venus_loop ts b c (frame + packet_size ?v + 7);
                Some (e, gps_message ts b frame ?v # outs) })"
      using assms frame Some by (intro venus_loop_at) auto
    let ?rest = "do { (e, outs) \<leftarrow> venus_loop ts b c (frame + packet_size ?v + 7);
                      Some (e, gps_message ts b frame ?v # outs) }"
    have emitted: "\<exists>e outs. ?rest = Some (e, outs) \<and>
        list_all2 (emits ts) outs (take (packet_size ?v) (drop 4 ?v)
          # fst (venus_parse (drop (packet_size ?v + 7) ?v))) \<and>
        kept b c e = snd (venus_parse (drop (packet_size ?v + 7) ?v)) \<and> (\<forall>f. e = Keep f \<longrightarrow> f \<le> c)"
      if "\<not> length ?v < 7 + packet_size ?v" "well_framed ?v (packet_size ?v)"
      using IH [of "packet_size ?v + 7"] gps_message_emits [of b c frame ?v ts] that v(2) assms frame(2)
      by (fastforce simp: loop_ok_def not_less add.assoc)
    show ?thesis
      unfolding loop_ok_def at parse venus_parse_at [OF v(1) hd]
      using IH [of 1] IH [of 2] emitted v(2) frame(2)
      by (simp add: loop_ok_def case_prod_beta)
  qed
qed

section \<open>The parser on a stream\<close>

text \<open>
  A parser that is fed chunk by chunk and keeps a remainder. If parsing is compatible with
  appending, then the chunks do not matter: only the stream does.
\<close>

fun feed :: "('a list \<Rightarrow> 'b list \<times> 'a list) \<Rightarrow> 'a list \<Rightarrow> 'a list list \<Rightarrow> 'b list \<times> 'a list" where
  "feed parse r [] = ([], r)"
| "feed parse r (c # cs) =
     (let (ps, r') = parse (r @ c); (qs, r'') = feed parse r' cs in (ps @ qs, r''))"

locale incremental_parser =
  fixes parse :: "'a list \<Rightarrow> 'b list \<times> 'a list"
  assumes parse_Nil: "parse [] = ([], [])"
    and parse_append: "parse (u @ v) =
      (let (ps, r) = parse u; (qs, r') = parse (r @ v) in (ps @ qs, r'))"
begin

lemma parse_remainder: "parse (snd (parse u)) = ([], snd (parse u))"
proof -
  obtain ps r where u: "parse u = (ps, r)" by fastforce
  obtain qs r' where r: "parse r = (qs, r')" by fastforce
  have "parse (u @ []) = (ps @ qs, r')" by (subst parse_append) (simp add: u r)
  with u r show ?thesis by simp
qed

lemma feed_concat: "parse r = ([], r) \<Longrightarrow> feed parse r cs = parse (r @ concat cs)"
proof (induction cs arbitrary: r)
  case (Cons c cs)
  obtain ps r' where rc: "parse (r @ c) = (ps, r')" by fastforce
  then have "parse r' = ([], r')" using parse_remainder [of "r @ c"] by simp
  then have "feed parse r' cs = parse (r' @ concat cs)" by (rule Cons.IH)
  then show ?case
    using parse_append [of "r @ c" "concat cs"] by (simp add: rc)
qed simp

lemma feed_stream: "feed parse [] cs = parse (concat cs)"
  using feed_concat [of "[]" cs] by (simp add: parse_Nil)

lemma feed_chunking: "concat cs = concat ds \<Longrightarrow> feed parse [] cs = feed parse [] ds"
  by (simp add: feed_stream)

end

lemma dropWhile_append_nonempty:
  "dropWhile P u \<noteq> [] \<Longrightarrow> dropWhile P (u @ v) = dropWhile P u @ v"
  by (induction u) auto

lemma take_drop_append: "k + n \<le> length u \<Longrightarrow> take n (drop k (u @ v)) = take n (drop k u)"
  by simp

lemma packet_size_append: "4 \<le> length u \<Longrightarrow> packet_size (u @ v) = packet_size u"
  unfolding packet_size_def get_be16_def by (subst take_drop_append) simp_all

lemma well_framed_append: "7 + n \<le> length u \<Longrightarrow> well_framed (u @ v) n = well_framed u n"
  unfolding well_framed_def by (simp add: take_drop_append nth_append del: drop_append take_append)

lemma venus_parse_append:
  "venus_parse (u @ v) =
     (let (ps, r) = venus_parse u; (qs, r') = venus_parse (r @ v) in (ps @ qs, r'))"
proof (induction u rule: venus_parse.induct)
  case (1 u)
  define d where "d = dropWhile (\<lambda>b. b \<noteq> 0xA0) u"
  have pu: "venus_parse u = venus_parse d" by (subst venus_parse_skip) (simp add: d_def)
  show ?case
  proof (cases "d = []")
    case True
    then have "dropWhile (\<lambda>b. b \<noteq> 0xA0) (u @ v) = dropWhile (\<lambda>b. b \<noteq> 0xA0) v"
      by (simp add: d_def)
    then have "venus_parse (u @ v) = venus_parse v"
      by (metis venus_parse_skip)
    with True pu show ?thesis by simp
  next
    case False
    then have hd: "hd d = 0xA0" "hd (d @ v) = 0xA0" "d @ v \<noteq> []"
      using hd_dropWhile [of "\<lambda>b. b \<noteq> 0xA0" u] by (auto simp: d_def)
    have "dropWhile (\<lambda>b. b \<noteq> 0xA0) (u @ v) = d @ v"
      using False dropWhile_append_nonempty [of "\<lambda>b. b \<noteq> 0xA0" u v] by (simp add: d_def)
    then have puv: "venus_parse (u @ v) = venus_parse (d @ v)"
      by (metis venus_parse_skip)
    note IH = "1.IH" [OF d_def]
    show ?thesis
    proof (cases "length d < 7 \<or> d ! 1 = 0xA1 \<and> packet_size d \<le> 256 \<and> length d < 7 + packet_size d")
      case True
      then have "venus_parse d = ([], d)"
        by (subst venus_parse_at [OF False hd(1)]) auto
      then show ?thesis by (simp add: pu puv)
    next
      case long: False
      then show ?thesis
        unfolding pu puv venus_parse_at [OF False hd(1)] venus_parse_at [OF hd(3,2)]
        using IH by (auto simp: nth_append not_less Let_def case_prod_beta packet_size_append well_framed_append)
    qed
  qed
qed

interpretation venus: incremental_parser venus_parse
  by unfold_locales (rule venus_parse_Nil, rule venus_parse_append)

text \<open>What is kept is the beginning of a frame at most.\<close>

lemma venus_parse_remainder: "length (snd (venus_parse w)) \<le> 262"
proof (induction w rule: venus_parse.induct)
  case (1 w)
  define d where "d = dropWhile (\<lambda>b. b \<noteq> 0xA0) w"
  show ?case
    using "1.IH" [OF d_def] unfolding venus_parse.simps [of w] d_def [symmetric]
    by (auto simp: Let_def case_prod_beta)
qed

text \<open>Frames are recognised, and nothing else is.\<close>

text \<open>Frames are recognised, and nothing else is.\<close>

lemma be16_cases: obtains h l where "be16 w = [h, l]" and "\<And>r. get_be16 (h # l # r) = w"
proof -
  have *: "be16 w = [word_of_nat (unat w div 256), word_of_nat (unat w)]"
    by (simp add: be16_def be_of_numeral)
  then have "get_be16 (word_of_nat (unat w div 256) # word_of_nat (unat w) # r) = w" for r
    using get_put(1) [of w r] by simp
  with * show thesis by (rule that)
qed

lemma venus_parse_frame:
  assumes "length body \<le> 256"
  shows "venus_parse (frame_of body @ rest) =
     (body # fst (venus_parse rest), snd (venus_parse rest))"
proof -
  obtain h l where hl: "be16 (word_of_nat (length body)) = [h, l]"
    "\<And>r. get_be16 (h # l # r) = word_of_nat (length body)"
    using be16_cases by blast
  define v where "v = 0xA0 # 0xA1 # h # l # body @ xor_sum body # 0x0D # 0x0A # rest"
  have v: "frame_of body @ rest = v"
    by (simp add: v_def frame_of_def hl)
  have at: "v \<noteq> []" "hd v = 0xA0" "v ! 1 = 0xA1" "length v = 7 + length body + length rest"
    by (simp_all add: v_def)
  have size: "packet_size v = length body"
    using assms by (simp add: packet_size_def v_def hl unat_of_nat)
  have parts: "well_framed v (length body)" "drop (length body + 7) v = rest"
    "take (length body) (drop 4 v) = body"
    by (simp_all add: well_framed_def v_def numeral_eq_Suc)
  show ?thesis
    unfolding v venus_parse_at [OF at(1,2)] using assms at(3,4)
    by (simp add: size parts case_prod_beta)
qed

lemma venus_parse_garbage:
  assumes "0xA0 \<notin> set g"
  shows "venus_parse (g @ w) = venus_parse w"
proof -
  have "dropWhile (\<lambda>b. b \<noteq> 0xA0) (g @ w) = dropWhile (\<lambda>b. b \<noteq> 0xA0) w"
    using assms by (intro dropWhile_append2) auto
  then show ?thesis
    by (simp only: venus_parse_skip [of "g @ w"] venus_parse_skip [of w])
qed

lemma venus_parse_frames:
  assumes "\<forall>body\<in>set bodies. length body \<le> 256"
  shows "venus_parse (concat (map frame_of bodies) @ rest) =
     (bodies @ fst (venus_parse rest), snd (venus_parse rest))"
  using assms by (induction bodies) (simp_all add: venus_parse_frame)

lemma well_framed_frame_of:
  assumes "v \<noteq> []" "hd v = 0xA0" "v ! 1 = 0xA1" "7 + packet_size v \<le> length v"
    and "well_framed v (packet_size v)"
  shows "v = frame_of (take (packet_size v) (drop 4 v)) @ drop (packet_size v + 7) v"
proof -
  let ?n = "packet_size v"
  obtain a b h l t where "v = a # b # h # l # t"
    using assms(4) by (auto simp: Suc_le_length_iff numeral_eq_Suc)
  then have v: "v = 0xA0 # 0xA1 # h # l # t" using assms(2,3) by simp
  have n: "?n = unat (get_be16 [h, l])" by (simp add: v packet_size_def get_be16_def)
  have len: "3 + ?n \<le> length t" using assms(4) v by simp
  have "be16 (get_be16 [h, l]) = [h, l]" by (simp add: bytes_simps)
  then have hl: "be16 (word_of_nat ?n) = [h, l]" by (simp add: n)
  have "drop ?n t = t ! ?n # take 2 (drop (1 + ?n) t) @ drop (3 + ?n) t"
    using len by (simp add: Cons_nth_drop_Suc [symmetric] take_drop drop_drop flip: drop_drop)
  also have "\<dots> = xor_sum (take ?n t) # [0x0D, 0x0A] @ drop (3 + ?n) t"
    using assms(5) by (subst (asm) v) (simp add: well_framed_def numeral_eq_Suc)
  finally have t: "t = take ?n t @ xor_sum (take ?n t) # [0x0D, 0x0A] @ drop (3 + ?n) t"
    by (metis append_take_drop_id)
  have "take ?n (drop 4 v) = take ?n t" "drop (?n + 7) v = drop (3 + ?n) t"
    by (subst v, simp add: numeral_eq_Suc)+
  moreover have "length (take ?n t) = ?n" using len by simp
  ultimately show ?thesis
    using t by (subst v) (simp add: frame_of_def hl)
qed

lemma venus_parse_sound:
  "body \<in> set (fst (venus_parse w)) \<Longrightarrow>
    \<exists>pre post. w = pre @ frame_of body @ post \<and> length body \<le> 256"
proof (induction w rule: venus_parse.induct)
  case (1 w)
  define v where "v = dropWhile (\<lambda>b. b \<noteq> 0xA0) w"
  have w: "w = takeWhile (\<lambda>b. b \<noteq> 0xA0) w @ v" by (simp add: v_def)
  have up: "\<exists>pre post. w = pre @ frame_of body @ post \<and> length body \<le> 256"
    if "\<exists>pre post. drop k v = pre @ frame_of body @ post \<and> length body \<le> 256" for k
    using that w by (metis append_take_drop_id append.assoc)
  note IH = "1.IH" [OF v_def]
  have parse: "venus_parse w = venus_parse v"
    unfolding v_def by (rule venus_parse_skip)
  have body: "body \<in> set (fst (venus_parse v))"
    using "1.prems" by (simp only: parse)
  then have v: "v \<noteq> []" by auto
  then have hd: "hd v = 0xA0" using hd_dropWhile [of "\<lambda>b. b \<noteq> 0xA0" w] by (auto simp: v_def)
  let ?n = "packet_size v"
  consider (skip) k where "body \<in> set (fst (venus_parse (drop k v)))"
      "\<And>w'. w' = drop k v \<Longrightarrow> body \<in> set (fst (venus_parse w')) \<Longrightarrow>
        \<exists>pre post. w' = pre @ frame_of body @ post \<and> length body \<le> 256"
    | (here) "v ! 1 = 0xA1" "?n \<le> 256" "7 + ?n \<le> length v" "well_framed v ?n"
      "body = take ?n (drop 4 v)"
    using body IH unfolding venus_parse_at [OF v hd]
    by (simp add: Let_def case_prod_beta not_less split: if_splits) blast+
  then show ?case
  proof cases
    case skip
    then show ?thesis using up by blast
  next
    case here
    then have "drop 0 v = [] @ frame_of body @ drop (?n + 7) v" "length body \<le> 256"
      using well_framed_frame_of [OF v hd] by simp_all
    then show ?thesis using up [of 0] by blast
  qed
qed

end
