(* ===== verification/Gps_Stream.thy ===== *)
theory Gps_Stream
  imports Gps_Parse
begin

text \<open>
  The receiver \<open>cots_raw_in\<close>: its invariant, when it stays inside its buffer, and what it sends for
  a stream of bytes that arrives in chunks.
\<close>

section \<open>The receiver of the byte stream\<close>

definition pending :: "gps_state \<Rightarrow> bytes" where
  "pending s = slice (buf s) 0 (cur s)"

definition gps_inv :: "gps_state \<Rightarrow> bool" where
  "gps_inv s \<longleftrightarrow> length (buf s) = GPS_BUF \<and> cur s \<le> 262 \<and>
     venus_parse (pending s) = ([], pending s)"

definition chunk :: "packet \<Rightarrow> bytes" where
  "chunk p = take (unat (data_length p)) (data p)"

text \<open>The receiver is called with as many bytes as it may read.\<close>

definition readable :: "packet \<Rightarrow> bool" where
  "readable p \<longleftrightarrow> unat (data_length p) \<le> length (data p)"

lemma gps_inv_start: "gps_inv gps_start"
  by (simp add: gps_inv_def gps_start_def pending_def)

lemma send_venus_messages_ok:
  assumes "length (buf s) = GPS_BUF" and "cur s \<le> GPS_BUF"
  shows "\<exists>s' outs. send_venus_messages ts s = Some (s', outs) \<and> gps_inv s' \<and>
    list_all2 (emits ts) outs (fst (venus_parse (pending s))) \<and>
    pending s' = snd (venus_parse (pending s))"
proof -
  let ?w = "pending s"
  obtain e outs where e: "venus_loop ts (buf s) (cur s) 0 = Some (e, outs)"
    "list_all2 (emits ts) outs (fst (venus_parse ?w))" "kept (buf s) (cur s) e = snd (venus_parse ?w)"
    "\<forall>f. e = Keep f \<longrightarrow> f \<le> cur s"
    using venus_loop_ok [OF assms, of 0 ts] by (auto simp: loop_ok_def pending_def)
  let ?s' = "case e of NoFrame \<Rightarrow> s\<lparr>cur := 0\<rparr>
    | Keep f \<Rightarrow> s\<lparr>buf := take (cur s - f) (drop f (buf s)) @ drop (cur s - f) (buf s), cur := cur s - f\<rparr>"
  have send: "send_venus_messages ts s = Some (?s', outs)"
    by (cases e) (simp_all add: send_venus_messages_def e(1) Let_def)
  have pend: "pending ?s' = snd (venus_parse ?w)" and buf: "length (buf ?s') = GPS_BUF"
    using e(3,4) assms by (auto simp: pending_def slice_def min_def split: loop_end.splits)
  have cur: "cur ?s' = length (snd (venus_parse ?w))"
    using assms by (cases e) (auto simp flip: e(3) simp: length_slice)
  have "gps_inv ?s'"
    using buf cur venus_parse_remainder [of ?w] venus.parse_remainder [of ?w]
    by (simp add: gps_inv_def pend)
  with send e(2) pend show ?thesis by blast
qed

text \<open>What is parsed when a chunk arrives: after an overrun the bytes waiting are dropped.\<close>

definition stream_at :: "gps_state \<Rightarrow> packet \<Rightarrow> bytes" where
  "stream_at s p = (if cur s + unat (data_length p) \<ge> GPS_BUF then [] else pending s) @ chunk p"

lemma cots_raw_in_ok:
  assumes inv: "gps_inv s" and r: "readable p" and n: "unat (data_length p) \<le> GPS_BUF"
  shows "\<exists>s' outs. cots_raw_in s p = Some (s', outs) \<and> gps_inv s' \<and>
    list_all2 (emits (timestamp p)) outs (fst (venus_parse (stream_at s p))) \<and>
    pending s' = snd (venus_parse (stream_at s p))"
proof -
  let ?n = "unat (data_length p)"
  let ?c = "if cur s + ?n \<ge> GPS_BUF then 0 else cur s"
  let ?t = "s\<lparr>buf := take ?c (buf s) @ chunk p @ drop (?c + ?n) (buf s), cur := ?c + ?n\<rparr>"
  have c: "?c + ?n \<le> GPS_BUF" using n by auto
  have buf: "length (buf s) = GPS_BUF" using inv by (simp add: gps_inv_def)
  have len: "length (chunk p) = ?n" using r by (simp add: chunk_def readable_def)
  have "cots_raw_in s p = send_venus_messages (timestamp p) ?t"
    using c buf r by (auto simp: cots_raw_in_def memcpy_from_def readable_def chunk_def Let_def)
  moreover have "pending ?t = stream_at s p"
    using c buf len by (auto simp: pending_def slice_def stream_at_def)
  moreover have "length (buf ?t) = GPS_BUF" "cur ?t \<le> GPS_BUF"
    using c buf len by auto
  ultimately show ?thesis
    using send_venus_messages_ok [of ?t "timestamp p"] by simp
qed

lemma cots_raw_in_overflow:
  assumes "gps_inv s" and "unat (data_length p) > GPS_BUF"
  shows "cots_raw_in s p = None"
  using assms by (auto simp: cots_raw_in_def gps_inv_def Let_def memcpy_from_def)

text \<open>The part of a message that the receiver decides: the ID, the length and the payload.\<close>

fun gps_view :: "action \<Rightarrow> (string \<times> u16 \<times> bytes) option" where
  "gps_view (Send (gps_data_out p)) = Some (ID p, data_length p,
     if unat (data_length p) < GPS_BUF then take (unat (data_length p)) (data p) else [])"
| "gps_view _ = None"

definition body_view :: "bytes \<Rightarrow> (string \<times> u16 \<times> bytes) option" where
  "body_view body = (case body of
       [] \<Rightarrow> Some (venus_ID 0, 65535, [])
     | b # rest \<Rightarrow> Some (venus_ID b, word_of_nat (length rest), rest))"

lemma emits_view:
  assumes "emits ts a body" and "length body \<le> 256"
  shows "gps_view a = body_view body"
proof (cases body)
  case Nil
  have "unat (- 1 :: u16) = 65535" by (simp add: unsigned_minus_1_eq_mask mask_eq_exp_minus_1)
  with Nil assms show ?thesis by (auto simp: emits_def body_view_def GPS_BUF_def)
next
  case (Cons b rest)
  then have "unat (word_of_nat (length rest) :: u16) = length rest"
    using assms(2) by (simp add: unat_of_nat)
  with Cons assms show ?thesis by (auto simp: emits_def body_view_def GPS_BUF_def)
qed

lemma emits_views:
  assumes "list_all2 (emits ts) outs (fst (venus_parse w))"
  shows "map gps_view outs = map body_view (fst (venus_parse w))"
proof -
  have "\<forall>body\<in>set (fst (venus_parse w)). length body \<le> 256"
    using venus_parse_sound by blast
  with assms show ?thesis
    by (induction rule: list_all2_induct) (auto simp: emits_view)
qed

text \<open>Chunks of up to 249 bytes never overrun: they are parsed as one stream.\<close>

definition small_chunk :: "packet \<Rightarrow> bool" where
  "small_chunk p \<longleftrightarrow> readable p \<and> unat (data_length p) \<le> 249"

lemma cots_raw_in_small:
  assumes "gps_inv s" and "small_chunk p"
  shows "\<exists>s' outs. cots_raw_in s p = Some (s', outs) \<and> gps_inv s' \<and>
    map gps_view outs = map body_view (fst (venus_parse (pending s @ chunk p))) \<and>
    pending s' = snd (venus_parse (pending s @ chunk p))"
proof -
  have "stream_at s p = pending s @ chunk p"
    using assms by (simp add: stream_at_def gps_inv_def small_chunk_def GPS_BUF_def)
  then show ?thesis
    using cots_raw_in_ok [of s p] assms emits_views
    by (fastforce simp: small_chunk_def GPS_BUF_def)
qed

lemma run_cots_raw_in:
  assumes "gps_inv s" and "\<forall>p\<in>set ps. small_chunk p"
  shows "\<exists>s' outs. run cots_raw_in s ps = Some (s', outs) \<and> gps_inv s' \<and>
    map gps_view outs = map body_view (fst (feed venus_parse (pending s) (map chunk ps))) \<and>
    pending s' = snd (feed venus_parse (pending s) (map chunk ps))"
  using assms
proof (induction ps arbitrary: s)
  case (Cons p ps)
  obtain s' outs where 1: "cots_raw_in s p = Some (s', outs)" "gps_inv s'"
    "map gps_view outs = map body_view (fst (venus_parse (pending s @ chunk p)))"
    "pending s' = snd (venus_parse (pending s @ chunk p))"
    using cots_raw_in_small [of s p] Cons.prems by auto
  obtain s'' outs' where "run cots_raw_in s' ps = Some (s'', outs')" "gps_inv s''"
    "map gps_view outs' = map body_view (fst (feed venus_parse (pending s') (map chunk ps)))"
    "pending s'' = snd (feed venus_parse (pending s') (map chunk ps))"
    using Cons.IH [OF 1(2)] Cons.prems by auto
  with 1 show ?case by (simp add: case_prod_beta)
qed simp

lemma run_cots_raw_in_stream:
  assumes "\<forall>p\<in>set ps. small_chunk p"
  shows "\<exists>s' outs. run cots_raw_in gps_start ps = Some (s', outs) \<and> gps_inv s' \<and>
    map gps_view outs = map body_view (fst (venus_parse (concat (map chunk ps)))) \<and>
    pending s' = snd (venus_parse (concat (map chunk ps)))"
  using run_cots_raw_in [OF gps_inv_start assms]
  by (simp add: pending_def gps_start_def venus.feed_stream)

text \<open>What the receiver promises of its messages, for the modules that listen to it.\<close>

fun gps_promise :: "message \<Rightarrow> bool" where
  "gps_promise (gps_data_out p) \<longleftrightarrow> take 2 (ID p) = ''V8'' \<and> length (ID p) = 4 \<and>
     length (timestamp p) = 6 \<and> 2 \<le> length (data p) \<and>
     (unat (data_length p) \<le> 255 \<and> unat (data_length p) + 3 \<le> length (data p)
      \<or> ID p = ''V800'' \<and> data_length p = 65535 \<and> length (data p) < GPS_BUF)"
| "gps_promise _ = False"

lemma venus_ID_0: "venus_ID 0 = ''V800''"
  by code_simp

lemma gps_promise_emits:
  assumes "emits ts a body" and "length body \<le> 256" and "length ts = 6"
  shows "promised gps_promise a"
proof (cases body)
  case Nil
  have "(- 1 :: u16) = 65535" by simp
  with Nil venus_ID_0 assms show ?thesis by (auto simp: emits_def)
next
  case (Cons b rest)
  then have "unat (word_of_nat (length rest) :: u16) = length rest"
    using assms(2) by (simp add: unat_of_nat)
  then show ?thesis using Cons assms by (auto simp: emits_def venus_ID_def)
qed

definition accepted :: "packet \<Rightarrow> bool" where
  "accepted p \<longleftrightarrow> readable p \<and> unat (data_length p) \<le> GPS_BUF \<and> length (timestamp p) = 6"

interpretation gps: component cots_raw_in gps_inv accepted "promised gps_promise"
proof unfold_locales
  fix s p
  assume "gps_inv s" and p: "accepted p"
  then obtain s' outs where *: "cots_raw_in s p = Some (s', outs)" "gps_inv s'"
    "list_all2 (emits (timestamp p)) outs (fst (venus_parse (stream_at s p)))"
    using cots_raw_in_ok [of s p] by (auto simp: accepted_def)
  have "\<forall>body\<in>set (fst (venus_parse (stream_at s p))). length body \<le> 256"
    using venus_parse_sound by blast
  with *(3) have "\<forall>x\<in>set outs. promised gps_promise x"
    using p by (induction rule: list_all2_induct) (auto intro: gps_promise_emits simp: accepted_def)
  with * show "\<exists>s' outs. cots_raw_in s p = Some (s', outs) \<and> gps_inv s' \<and>
      (\<forall>x\<in>set outs. promised gps_promise x)"
    by blast
qed

text \<open>
  Two short frames. A frame of length zero is accepted, and the length of its packet, \<open>packet_len - 1\<close>,
  wraps to 65535, far more than the buffer behind the pointer holds. A frame of length one has an
  empty packet, and the byte behind the pointer is the checksum.
\<close>

lemma short_frame:
  assumes inv: "gps_inv s" and cur: "cur s = 0" and r: "readable p"
    and c: "chunk p = frame_of body" and b: "length body \<le> 1"
  shows "\<exists>s' d. cots_raw_in s p = Some (s', [Send (gps_data_out
      \<lparr>ID = venus_ID (if body = [] then 0 else hd body), timestamp = timestamp p,
       data_length = word_of_nat (length body) - 1, data = d\<rparr>)]) \<and> gps_inv s' \<and>
    2 \<le> length d \<and> length d < GPS_BUF \<and> (body \<noteq> [] \<longrightarrow> d ! 0 = hd body)"
proof -
  have "length (chunk p) = 7 + length body" by (simp add: c frame_of_def)
  then have n: "unat (data_length p) = 7 + length body"
    using r by (simp add: chunk_def readable_def)
  have "stream_at s p = frame_of body @ []"
    using c cur by (simp add: stream_at_def pending_def)
  then obtain s' outs where 1: "cots_raw_in s p = Some (s', outs)" "gps_inv s'"
    "list_all2 (emits (timestamp p)) outs (fst (venus_parse (frame_of body @ [])))"
    using cots_raw_in_ok [OF inv r] n b by (auto simp: GPS_BUF_def)
  have "fst (venus_parse (frame_of body @ [])) = [body]"
    using venus_parse_frame [of body "[]"] b by simp
  with 1(3) obtain a where a: "outs = [a]" "emits (timestamp p) a body"
    by (auto simp: list_all2_Cons2)
  have "body \<noteq> [] \<longrightarrow> length body - 1 = 0 \<and> xor_sum body = hd body"
    using b by (cases body) (auto simp: xor_sum_def)
  with a 1(1,2) show ?thesis by (auto simp: emits_def)
qed

section \<open>Properties\<close>

text \<open>
  C15: The parser delivers a stream. However the bytes of a sequence of frames of the receiver
  are cut into datagrams of up to 249 bytes, \<open>cots_raw_in\<close> sends exactly the packets of those
  frames, in order, each with the ID of its type, its length and its payload, and keeps nothing
  back at the end.
\<close>
theorem gps_stream_delivers:
  assumes "concat (map chunk ps) = concat (map frame_of bodies)"
    and "\<forall>b\<in>set bodies. length b \<le> 256" and "\<forall>p\<in>set ps. small_chunk p"
  shows "\<exists>s' outs. run cots_raw_in gps_start ps = Some (s', outs) \<and>
    map gps_view outs = map body_view bodies \<and> cur s' = 0"
proof -
  have "venus_parse (concat (map chunk ps)) = (bodies, [])"
    using venus_parse_frames [OF assms(2), of "[]"] by (simp add: assms(1))
  then obtain s' outs where r: "run cots_raw_in gps_start ps = Some (s', outs)" "gps_inv s'"
    "map gps_view outs = map body_view bodies" "pending s' = []"
    using run_cots_raw_in_stream [OF assms(3)] by auto
  from r(2,4) have "cur s' = 0" by (auto simp: gps_inv_def pending_def slice_def GPS_BUF_def)
  with r show ?thesis by blast
qed

lemma gps_stream_delivers_witness:
  "\<exists>s' outs. run cots_raw_in gps_start
     [\<lparr>ID = ''V8BS'', timestamp = replicate 6 0, data_length = 4, data = [0xA0, 0xA1, 0, 2]\<rparr>,
      \<lparr>ID = ''V8BS'', timestamp = replicate 6 1, data_length = 5, data = [0xA8, 3, 0xAB, 0x0D, 0x0A]\<rparr>]
     = Some (s', outs) \<and> map gps_view outs = [body_view [0xA8, 3]] \<and> cur s' = 0"
  using gps_stream_delivers [where bodies = "[[0xA8, 3]]" and ps =
    "[\<lparr>ID = ''V8BS'', timestamp = replicate 6 0, data_length = 4, data = [0xA0, 0xA1, 0, 2]\<rparr>,
      \<lparr>ID = ''V8BS'', timestamp = replicate 6 1, data_length = 5, data = [0xA8, 3, 0xAB, 0x0D, 0x0A]\<rparr>]"]
  by (simp add: chunk_def small_chunk_def readable_def frame_of_def xor_sum_def be16_def be_of_numeral
      del: run.simps)

text \<open>
  Chunking does not matter. Two ways of cutting the same bytes, whatever they are, into
  datagrams of up to 249 bytes make the receiver send the same packets and leave the same bytes
  waiting.
\<close>
lemma gps_chunk_independent:
  assumes "concat (map chunk ps) = concat (map chunk qs)"
    and "\<forall>p\<in>set (ps @ qs). small_chunk p"
  shows "\<exists>s outs t outs'. run cots_raw_in gps_start ps = Some (s, outs) \<and>
    run cots_raw_in gps_start qs = Some (t, outs') \<and>
    map gps_view outs = map gps_view outs' \<and> pending s = pending t"
  using run_cots_raw_in_stream [of ps] run_cots_raw_in_stream [of qs] assms by auto

text \<open>
  C28: Only valid frames get through. Whatever bytes arrive, in chunks of up to 249 bytes,
  every packet that is sent is the content of a frame in the received stream: start bytes,
  big-endian length of at most 256, content, its XOR checksum, and the trailer.
\<close>
theorem gps_only_valid_frames:
  assumes "\<forall>p\<in>set ps. small_chunk p" and "run cots_raw_in gps_start ps = Some (s', outs)"
    and "a \<in> set outs"
  shows "\<exists>body pre post. gps_view a = body_view body \<and> length body \<le> 256 \<and>
    concat (map chunk ps) = pre @ frame_of body @ post"
proof -
  have "map gps_view outs = map body_view (fst (venus_parse (concat (map chunk ps))))"
    using run_cots_raw_in_stream [OF assms(1)] assms(2) by auto
  then have "gps_view a \<in> body_view ` set (fst (venus_parse (concat (map chunk ps))))"
    using assms(3) by (metis image_eqI image_set)
  then show ?thesis using venus_parse_sound by blast
qed

definition gps_sample :: packet where
  "gps_sample = \<lparr>ID = ''V8BS'', timestamp = replicate 6 0, data_length = 8,
     data = [0xA0, 0xA1, 0, 1, 0xA8, 0xA8, 0x0D, 0x0A]\<rparr>"

lemma gps_only_valid_frames_witness:
  "\<exists>s' a. run cots_raw_in gps_start [gps_sample] = Some (s', [a]) \<and>
    (\<exists>body pre post. gps_view a = body_view body \<and> length body \<le> 256 \<and>
       concat (map chunk [gps_sample]) = pre @ frame_of body @ post)"
proof -
  have small: "\<forall>p\<in>set [gps_sample]. small_chunk p"
    by (simp add: gps_sample_def small_chunk_def readable_def)
  have chunk: "concat (map chunk [gps_sample]) = frame_of [0xA8] @ []"
    by (simp add: gps_sample_def chunk_def frame_of_def xor_sum_def be16_def be_of_numeral)
  obtain s' outs where r: "run cots_raw_in gps_start [gps_sample] = Some (s', outs)"
    "map gps_view outs = map body_view [[0xA8]]"
    using run_cots_raw_in_stream [OF small] unfolding chunk
    by (auto simp: venus_parse_frame simp del: append_Nil2)
  then obtain a where "outs = [a]" by auto
  with r gps_only_valid_frames [OF small] show ?thesis by auto
qed

text \<open>
  C26: When the receiver stays inside its buffer. From a state that its own operations reach, a
  datagram with 512 bytes of payload or less is always processed, at most 262 bytes are kept
  (so chunks of up to 249 bytes never cause a drop), and every packet sent lies inside the
  buffer, except the one of a frame of length zero. A datagram with more than 512 bytes always
  writes past the end of \<open>buf\<close>: the overrun check resets \<open>cur\<close>, but does not compare the length
  with the size of the buffer.
\<close>
theorem gps_buffer_safety:
  assumes "gps_inv s" and "readable p" and "length (timestamp p) = 6"
  shows "if unat (data_length p) \<le> GPS_BUF
    then \<exists>s' outs. cots_raw_in s p = Some (s', outs) \<and> gps_inv s' \<and> cur s' \<le> 262 \<and>
      (\<forall>x\<in>set outs. promised gps_promise x)
    else cots_raw_in s p = None"
proof (cases "unat (data_length p) \<le> GPS_BUF")
  case True
  with gps.step_ok [of s p] assms show ?thesis
    by (auto simp: accepted_def gps_inv_def)
next
  case False
  with cots_raw_in_overflow assms(1) show ?thesis by simp
qed

lemma gps_buffer_safety_witness:
  "cots_raw_in gps_start \<lparr>ID = ''V8BS'', timestamp = replicate 6 0, data_length = 513,
     data = replicate 1496 0\<rparr> = None"
  using gps_buffer_safety [OF gps_inv_start, of "\<lparr>ID = ''V8BS'', timestamp = replicate 6 0,
      data_length = 513, data = replicate 1496 0\<rparr>"]
  by (simp add: readable_def GPS_BUF_def)

end
