(* ===== verification/Gps_Selftest.thy ===== *)
theory Gps_Selftest
  imports Gps_Stream
begin

text \<open>
  The program that \<open>src/src/devices/gps.c\<close> becomes when it is compiled with \<open>TESTING\<close>: it fills 64
  KiB with frames of random content, feeds them to the parser in chunks of random length and prints a
  line for every packet. The results of \<open>random\<close> are the argument \<open>rnd\<close>, in the order of the calls, and
  the lines printed are the result.
\<close>

section \<open>The code\<close>

fun decimal :: "nat \<Rightarrow> string" where
  "decimal n = (if n < 10 then [hex_digit n] else decimal (n div 10) @ [hex_digit (n mod 10)])"

declare decimal.simps [simp del]

text \<open>The format \<open>"GPS packet: %s#%u @ %u len %u\n"\<close>.\<close>

definition gps_line :: "string \<Rightarrow> u8 \<Rightarrow> u8 \<Rightarrow> u16 \<Rightarrow> string" where
  "gps_line i seqno time5 dlen =
     ''GPS packet: '' @ i @ ''#'' @ decimal (unat seqno) @ '' @ '' @ decimal (unat time5) @
     '' len '' @ decimal (unat dlen) @ [CHR 0x0A]"

text \<open>The sender \<open>gps_data_out\<close> of this build.\<close>

fun test_gps_data_out :: "action \<Rightarrow> string option" where
  "test_gps_data_out (Send (gps_data_out p)) = do {
     seqno \<leftarrow> load8 (data p) 0;
     time5 \<leftarrow> load8 (timestamp p) 5;
     Some (gps_line (ID p) seqno time5 (data_length p)) }"
| "test_gps_data_out _ = None"

text \<open>\<open>dump\<close> is not called. The argument \<open>i\<close> is the counter of its loop.\<close>

fun dump_loop :: "bytes \<Rightarrow> nat \<Rightarrow> nat \<Rightarrow> string option" where
  "dump_loop b i 0 = Some [CHR 0x0A]"
| "dump_loop (x # b) i (Suc n) = do {
     rest \<leftarrow> dump_loop b (i + 1) n;
     Some ([hex_digit (unat x div 16), hex_digit (unat x mod 16), CHR 0x20] @
           (if i mod 16 = 15 then [CHR 0x0A] else []) @ rest) }"
| "dump_loop [] i (Suc n) = None"

definition dump :: "bytes \<Rightarrow> nat \<Rightarrow> string option" where
  "dump b n = dump_loop b 0 n"

record packetA8 =
  a8_head :: bytes
  a8_len :: u16
  a8_ID :: u8
  a8_seq :: u8
  a8_data :: bytes
  a8_checksum :: u8
  a8_tail :: bytes

definition packetA8_layout :: layout where
  "packetA8_layout = [(''head'', ARRAY 2 UINT8), (''len'', UINT16), (''ID'', UINT8), (''seq'', UINT8),
     (''data'', ARRAY 57 UINT8), (''checksum'', UINT8), (''tail'', ARRAY 2 UINT8)]"

definition pA8 :: packetA8 where
  "pA8 = \<lparr>a8_head = [0xA0, 0xA1], a8_len = 0, a8_ID = 0xA8, a8_seq = 0, a8_data = replicate 57 0,
     a8_checksum = 0, a8_tail = [0x0D, 0x0A]\<rparr>"

definition packetA8_bytes :: "packetA8 \<Rightarrow> bytes" where
  "packetA8_bytes a = a8_head a @ host16 (a8_len a) @ [a8_ID a, a8_seq a] @ a8_data a @
     [a8_checksum a] @ a8_tail a"

definition INPUT_SIZE :: nat where "INPUT_SIZE = 0x10000"

text \<open>The two loops of \<open>main\<close>. \<open>p\<close> is the offset of the pointer in \<open>input\<close>, \<open>k\<close> the number of calls of
  \<open>random\<close> so far.\<close>

function fill_input :: "(nat \<Rightarrow> nat) \<Rightarrow> packetA8 \<Rightarrow> bytes \<Rightarrow> nat \<Rightarrow> nat \<Rightarrow> (packetA8 \<times> bytes \<times> nat) option" where
  "fill_input rnd a input p k =
     (if p + struct_size packetA8_layout < INPUT_SIZE then do {
        let a = a\<lparr>a8_data := map (\<lambda>i. word_of_nat (rnd (k + i)) AND 0xFF) [0..<57]\<rparr>;
        sum \<leftarrow> chexxor (drop 4 (packetA8_bytes a)) (57 + 1 + 1);
        let a = a\<lparr>a8_checksum := sum\<rparr>;
        input \<leftarrow> store input p (packetA8_bytes a);
        fill_input rnd (a\<lparr>a8_seq := a8_seq a + 1\<rparr>) input (p + struct_size packetA8_layout) (k + 57)
      }
      else Some (a, input, k))"
  by pat_completeness auto
termination
  by (relation "measure (\<lambda>(rnd, a, input, p, k). INPUT_SIZE - p)") (auto simp: packetA8_layout_def struct_size_def)

function drain_input :: "(nat \<Rightarrow> nat) \<Rightarrow> gps_state \<Rightarrow> bytes \<Rightarrow> bytes \<Rightarrow> nat \<Rightarrow> nat \<Rightarrow> nat \<Rightarrow> string list option" where
  "drain_input rnd s ts input p n k =
     (if p + n < INPUT_SIZE then do {
        (s, out) \<leftarrow> cots_raw_in s \<lparr>ID = ''GPSV'', timestamp = ts, data_length = word_of_nat n,
                                    data = drop p input\<rparr>;
        printed \<leftarrow> those (map test_gps_data_out out);
        rest \<leftarrow> drain_input rnd s (ts[5 := ts ! 5 + 1]) input (p + n) (90 + rnd k mod 20) (k + 1);
        Some (printed @ rest)
      }
      else Some [])"
  by pat_completeness auto
termination
  by (relation "measure (\<lambda>(rnd, s, ts, input, p, n, k). INPUT_SIZE - p + (if n = 0 then 1 else 0))") auto

declare fill_input.simps [simp del] drain_input.simps [simp del]

definition gps_selftest :: "(nat \<Rightarrow> nat) \<Rightarrow> string list option" where
  "gps_selftest rnd = do {
     let a = pA8\<lparr>a8_len := bswap16 59\<rparr>;
     (a, input, k) \<leftarrow> fill_input rnd a (replicate INPUT_SIZE 0) 0 0;
     drain_input rnd gps_start (replicate 6 0) input 0 100 k
   }"

text \<open>\<open>dump\<close> prints three characters for a byte, a line feed after every sixteenth and one at the end.\<close>

lemma dump_loop_length:
  "n \<le> length b \<Longrightarrow> \<exists>out. dump_loop b i n = Some out \<and> length out = 3 * n + ((i + n) div 16 - i div 16) + 1"
proof (induction b i n rule: dump_loop.induct)
  case (2 x b i n)
  then obtain out where out: "dump_loop b (i + 1) n = Some out"
    "length out = 3 * n + ((i + 1 + n) div 16 - (i + 1) div 16) + 1" by auto
  have "(i + 1) div 16 \<le> (i + 1 + n) div 16" by (rule div_le_mono) simp
  moreover have "(i + 1) div 16 = (if i mod 16 = 15 then i div 16 + 1 else i div 16)"
    using div_Suc [of i 16] mod_Suc [of i 16] by simp
  ultimately show ?case using out by (cases "i mod 16 = 15") (simp_all, linarith+)
qed simp_all

lemma dump_length:
  "n \<le> length b \<Longrightarrow> \<exists>out. dump b n = Some out \<and> length out = 3 * n + n div 16 + 1"
  using dump_loop_length [of n b 0] by (simp add: dump_def)

section \<open>The input\<close>

definition test_body :: "(nat \<Rightarrow> nat) \<Rightarrow> nat \<Rightarrow> bytes" where
  "test_body rnd j = 0xA8 # word_of_nat j # map (\<lambda>i. word_of_nat (rnd (57 * j + i)) AND 0xFF) [0..<57]"

definition test_frames :: "(nat \<Rightarrow> nat) \<Rightarrow> nat \<Rightarrow> bytes" where
  "test_frames rnd n = concat (map (\<lambda>j. frame_of (test_body rnd j)) [0..<n])"

lemma length_test_body [simp]: "length (test_body rnd j) = 59"
  by (simp add: test_body_def)

lemma length_test_frame [simp]: "length (frame_of (test_body rnd j)) = 66"
  by (simp add: frame_of_def)

lemma test_frames_Suc: "test_frames rnd (Suc n) = test_frames rnd n @ frame_of (test_body rnd n)"
  by (simp add: test_frames_def)

lemma length_test_frames [simp]: "length (test_frames rnd n) = 66 * n"
  by (induction n) (simp_all add: test_frames_Suc, simp add: test_frames_def)

lemma packetA8_size: "struct_size packetA8_layout = 66"
  by (simp add: packetA8_layout_def struct_size_def)

text \<open>The frame that is built in \<open>pA8\<close> is the \<open>j\<close>-th frame of the stream.\<close>

definition template :: "nat \<Rightarrow> packetA8 \<Rightarrow> bool" where
  "template j a \<longleftrightarrow> a8_head a = [0xA0, 0xA1] \<and> a8_len a = bswap16 59 \<and> a8_ID a = 0xA8 \<and>
     a8_seq a = word_of_nat j \<and> a8_tail a = [0x0D, 0x0A]"

lemma packetA8_frame:
  assumes "template j a" and "a8_data a = map (\<lambda>i. word_of_nat (rnd (57 * j + i)) AND 0xFF) [0..<57]"
  shows "chexxor (drop 4 (packetA8_bytes a)) 59 = Some (xor_sum (test_body rnd j))"
    and "packetA8_bytes (a\<lparr>a8_checksum := xor_sum (test_body rnd j)\<rparr>) = frame_of (test_body rnd j)"
proof -
  have "packetA8_bytes a = [0xA0, 0xA1] @ be16 59 @ test_body rnd j @ [a8_checksum a, 0x0D, 0x0A]"
    using assms by (simp add: packetA8_bytes_def template_def test_body_def)
  moreover have "length (be16 59) = 2" by simp
  ultimately have "drop 4 (packetA8_bytes a) = test_body rnd j @ [a8_checksum a, 0x0D, 0x0A]" by simp
  then show "chexxor (drop 4 (packetA8_bytes a)) 59 = Some (xor_sum (test_body rnd j))"
    by (simp add: chexxor_eq)
  show "packetA8_bytes (a\<lparr>a8_checksum := xor_sum (test_body rnd j)\<rparr>) = frame_of (test_body rnd j)"
    using assms by (simp add: packetA8_bytes_def template_def test_body_def frame_of_def)
qed

lemma fill_input_frames:
  assumes "template j a" and "j \<le> 992"
  shows "\<exists>a' k. fill_input rnd a (test_frames rnd j @ replicate (INPUT_SIZE - 66 * j) 0) (66 * j) (57 * j) =
    Some (a', test_frames rnd 992 @ replicate 64 0, k)"
  using assms
proof (induction "992 - j" arbitrary: j a)
  case 0
  then have "j = 992" by simp
  then show ?case by (simp add: fill_input.simps [of rnd a] packetA8_size INPUT_SIZE_def)
next
  case (Suc d)
  let ?a = "a\<lparr>a8_data := map (\<lambda>i. word_of_nat (rnd (57 * j + i)) AND 0xFF) [0..<57]\<rparr>"
  let ?b = "?a\<lparr>a8_checksum := xor_sum (test_body rnd j)\<rparr>"
  let ?z = "replicate (INPUT_SIZE - 66 * j) 0 :: bytes"
  let ?z' = "replicate (INPUT_SIZE - 66 * Suc j) 0 :: bytes"
  have j: "j < 992" using Suc.hyps(2) by simp
  have t: "template j ?a" using Suc.prems(1) by (simp add: template_def)
  note f = packetA8_frame [OF t, of rnd, simplified]
  have "drop 66 ?z = ?z'" by simp
  then have st: "store (test_frames rnd j @ ?z) (66 * j) (packetA8_bytes ?b) = Some (test_frames rnd (Suc j) @ ?z')"
    unfolding f(2) using j by (simp add: store_def INPUT_SIZE_def test_frames_Suc)
  have "template (Suc j) (?b\<lparr>a8_seq := a8_seq ?b + 1\<rparr>)"
    using Suc.prems(1) by (simp add: template_def add.commute)
  moreover have "d = 992 - Suc j" "Suc j \<le> 992" using Suc.hyps(2) j by simp_all
  ultimately obtain a' k where IH: "fill_input rnd (?b\<lparr>a8_seq := a8_seq ?b + 1\<rparr>) (test_frames rnd (Suc j) @ ?z')
      (66 * Suc j) (57 * Suc j) = Some (a', test_frames rnd 992 @ replicate 64 0, k)"
    using Suc.hyps(1) [of "Suc j"] by blast
  have "fill_input rnd a (test_frames rnd j @ ?z) (66 * j) (57 * j) =
      fill_input rnd (?b\<lparr>a8_seq := a8_seq ?b + 1\<rparr>) (test_frames rnd (Suc j) @ ?z') (66 * j + 66) (57 * j + 57)"
    unfolding fill_input.simps [of rnd a] packetA8_size
    using j f(1) st by (simp add: INPUT_SIZE_def)
  with IH show ?case by (simp add: add.commute)
qed

section \<open>The chunks\<close>

lemma those_append:
  "those (xs @ ys) = do { a \<leftarrow> those xs; b \<leftarrow> those ys; Some (a @ b) }"
proof (induction xs)
  case (Cons x xs)
  then show ?case by (cases x; cases "those xs"; cases "those ys") auto
qed (cases "those ys"; simp)

text \<open>Draining is a run of the parser on the chunks, which make up a prefix of the input: all but its last
  109 bytes at most.\<close>

definition printing :: "gps_state \<Rightarrow> packet list \<Rightarrow> string list option" where
  "printing s ps = do { (t, out) \<leftarrow> run cots_raw_in s ps; those (map test_gps_data_out out) }"

lemma printing_Cons:
  "printing s (p # ps) = do {
     (t, out) \<leftarrow> cots_raw_in s p; printed \<leftarrow> those (map test_gps_data_out out);
     rest \<leftarrow> printing t ps; Some (printed @ rest) }"
  by (auto simp: printing_def those_append case_prod_unfold split: Option.bind_splits)

function pieces :: "(nat \<Rightarrow> nat) \<Rightarrow> bytes \<Rightarrow> bytes \<Rightarrow> nat \<Rightarrow> nat \<Rightarrow> nat \<Rightarrow> packet list" where
  "pieces rnd ts input p n k =
     (if p + n < INPUT_SIZE then
        \<lparr>ID = ''GPSV'', timestamp = ts, data_length = word_of_nat n, data = drop p input\<rparr> #
        pieces rnd (ts[5 := ts ! 5 + 1]) input (p + n) (90 + rnd k mod 20) (k + 1)
      else [])"
  by pat_completeness auto
termination
  by (relation "measure (\<lambda>(rnd, ts, input, p, n, k). INPUT_SIZE - p + (if n = 0 then 1 else 0))") auto

declare pieces.simps [simp del]

lemma drain_input_printing: "drain_input rnd s ts input p n k = printing s (pieces rnd ts input p n k)"
proof (induction rnd ts input p n k arbitrary: s rule: pieces.induct)
  case (1 rnd ts input p n k)
  show ?case
  proof (cases "p + n < INPUT_SIZE")
    case True
    from 1 [OF True] show ?thesis
      unfolding drain_input.simps [of rnd s] pieces.simps [of rnd ts] printing_Cons if_P [OF True] by simp
  qed (simp add: drain_input.simps [of rnd s] pieces.simps [of rnd ts] printing_def)
qed

lemma pieces_cut:
  assumes "n \<le> 109" and "p \<le> INPUT_SIZE" and "length input = INPUT_SIZE" and "length ts = 6"
  shows "\<forall>x\<in>set (pieces rnd ts input p n k). small_chunk x \<and> length (timestamp x) = 6"
    and "\<exists>q. concat (map chunk (pieces rnd ts input p n k)) = slice input p q \<and> p \<le> q \<and>
      q \<le> INPUT_SIZE \<and> INPUT_SIZE \<le> q + 109"
  using assms
proof (induction rnd ts input p n k rule: pieces.induct)
  case (1 rnd ts input p n k)
  let ?x = "\<lparr>ID = ''GPSV'', timestamp = ts, data_length = word_of_nat n, data = drop p input\<rparr>"
  let ?ps = "pieces rnd (ts[5 := ts ! 5 + 1]) input (p + n) (90 + rnd k mod 20) (k + 1)"
  have m: "90 + rnd k mod 20 \<le> 109" using mod_less_divisor [of 20 "rnd k"] by simp
  {
    case 1
    with m show ?case
      using "1.IH"(1)
      by (auto simp: pieces.simps [of rnd ts] small_chunk_def readable_def unat_of_nat)
  next
    case 2
    show ?case
    proof (cases "p + n < INPUT_SIZE")
      case True
      with "1.IH"(2) [OF True m] 2 obtain q
        where q: "concat (map chunk ?ps) = slice input (p + n) q" "p + n \<le> q" "q \<le> INPUT_SIZE"
          "INPUT_SIZE \<le> q + 109" by auto
      have "q - p = n + (q - (p + n))" using q(2) by simp
      then have "take n (drop p input) @ slice input (p + n) q = slice input p q"
        unfolding slice_def by (metis take_add drop_drop add.commute)
      moreover have "chunk ?x = take n (drop p input)" using 2(1) by (simp add: chunk_def unat_of_nat)
      ultimately have "concat (map chunk (pieces rnd ts input p n k)) = slice input p q"
        using True q(1) by (simp add: pieces.simps [of rnd ts])
      with q show ?thesis by auto
    next
      case False
      then have "concat (map chunk (pieces rnd ts input p n k)) = slice input p p"
        by (simp add: pieces.simps [of rnd ts])
      with False 2 show ?thesis by (intro exI [of _ p]) simp
    qed
  }
qed

section \<open>The packets found\<close>

text \<open>A frame that has begun yields nothing yet.\<close>

lemma venus_parse_part:
  assumes "length body \<le> 256" and "j < length (frame_of body)"
  shows "fst (venus_parse (take j (frame_of body))) = []"
proof (cases "j = 0")
  case True
  then show ?thesis by (simp add: venus_parse.simps)
next
  case False
  obtain h l where hl: "be16 (word_of_nat (length body)) = [h, l]"
    "\<And>r. get_be16 (h # l # r) = word_of_nat (length body)"
    using be16_cases by blast
  let ?v = "take j (frame_of body)"
  have f: "frame_of body = 0xA0 # 0xA1 # h # l # body @ [xor_sum body, 0x0D, 0x0A]" by (simp add: frame_of_def hl)
  have v: "?v \<noteq> []" "hd ?v = 0xA0" using False by (simp_all add: f take_Cons' hd_take)
  have len: "length ?v = j" "j < 7 + length body" using assms(2) by (simp_all add: frame_of_def)
  have "?v ! 1 = 0xA1 \<and> packet_size ?v = length body" if "7 \<le> j"
  proof -
    have "j = Suc (Suc (Suc (Suc (j - 4))))" using that by simp
    then have "?v = 0xA0 # 0xA1 # h # l # take (j - 4) (body @ [xor_sum body, 0x0D, 0x0A])"
      unfolding f by (metis take_Suc_Cons)
    then show ?thesis using assms(1) by (simp add: packet_size_def hl unat_of_nat)
  qed
  with v len show ?thesis
    unfolding venus_parse_at [OF v] using assms(1) by (cases "j < 7") simp_all
qed

lemma venus_parse_zeros: "venus_parse (replicate n 0) = ([], [])"
  using venus_parse_garbage [of "replicate n 0" "[]"] by (simp add: venus_parse.simps [of "[]"])

lemma test_frames_parse:
  assumes "66 * n \<le> q" and "q < 66 * n + 66" and "n < 992 \<or> n = 992"
  shows "fst (venus_parse (take q (test_frames rnd 992 @ replicate 64 0))) = map (test_body rnd) [0..<n]"
proof -
  have parse: "venus_parse (test_frames rnd n @ rest) =
      (map (test_body rnd) [0..<n] @ fst (venus_parse rest), snd (venus_parse rest))" for rest
    using venus_parse_frames [of "map (test_body rnd) [0..<n]" rest]
    by (simp add: test_frames_def comp_def)
  from assms(3) show ?thesis
  proof
    assume n: "n < 992"
    have ext: "\<exists>r. test_frames rnd 992 = test_frames rnd (Suc n) @ r"
    proof -
      have "[0..<992] = [0..<Suc n] @ [Suc n..<992]" using n upt_add_eq_append [of 0 "Suc n" "992 - Suc n"] by simp
      then show ?thesis unfolding test_frames_def by (metis concat_append map_append)
    qed
    then obtain r where "test_frames rnd 992 = test_frames rnd n @ frame_of (test_body rnd n) @ r"
      by (auto simp: test_frames_Suc)
    then have "take q (test_frames rnd 992 @ replicate 64 0) =
        test_frames rnd n @ take (q - 66 * n) (frame_of (test_body rnd n))"
      using assms(1,2) by simp
    with parse venus_parse_part [of "test_body rnd n" "q - 66 * n"] assms(1,2) show ?thesis by simp
  next
    assume n: "n = 992"
    then have "take q (test_frames rnd 992 @ replicate 64 0) = test_frames rnd n @ replicate (min (q - 66 * n) 64) 0"
      using assms(1) by simp
    with parse venus_parse_zeros show ?thesis by simp
  qed
qed

text \<open>A packet of the test is printed with its number.\<close>

lemma test_line:
  assumes "gps_view x = body_view (test_body rnd j)" and "promised gps_promise x"
  shows "\<exists>t. test_gps_data_out x = Some (gps_line ''V8A8'' (word_of_nat j) t 58)"
proof -
  have v8: "venus_ID 0xA8 = ''V8A8''" by code_simp
  from assms(2) obtain p where x: "x = Send (gps_data_out p)" and p: "gps_promise (gps_data_out p)"
    by (cases x; cases "case x of Send m \<Rightarrow> m") auto
  with assms(1) have 1: "ID p = ''V8A8''" "data_length p = 58" "take 58 (data p) = tl (test_body rnd j)"
    by (auto simp: body_view_def test_body_def v8 GPS_BUF_def split: if_splits)
  then have "take 58 (data p) ! 0 = word_of_nat j" "data p \<noteq> []" by (auto simp: test_body_def)
  then have "data p ! 0 = word_of_nat j" "data p \<noteq> []" by simp_all
  moreover have "length (timestamp p) = 6" using p by simp
  ultimately have "test_gps_data_out x = Some (gps_line ''V8A8'' (word_of_nat j) (timestamp p ! 5) 58)"
    using x 1 by (simp add: load8_def)
  then show ?thesis by blast
qed

lemma test_lines:
  assumes "map gps_view out = map (\<lambda>j. body_view (test_body rnd j)) [m..<n]" and "\<forall>x\<in>set out. promised gps_promise x"
  shows "\<exists>t. those (map test_gps_data_out out) = Some (map (\<lambda>j. gps_line ''V8A8'' (word_of_nat j) (t j) 58) [m..<n])"
  using assms
proof (induction out arbitrary: m)
  case (Cons x out)
  then have mn: "m < n" by (cases "m < n") auto
  with Cons.prems(1) have x: "gps_view x = body_view (test_body rnd m)"
    and out: "map gps_view out = map (\<lambda>j. body_view (test_body rnd j)) [Suc m..<n]"
    by (simp_all add: upt_conv_Cons)
  from test_line [OF x] Cons.prems(2) obtain t0
    where t0: "test_gps_data_out x = Some (gps_line ''V8A8'' (word_of_nat m) t0 58)" by auto
  from Cons.IH [OF out] Cons.prems(2) obtain t
    where "those (map test_gps_data_out out) = Some (map (\<lambda>j. gps_line ''V8A8'' (word_of_nat j) (t j) 58) [Suc m..<n])"
    by auto
  with t0 mn show ?case by (intro exI [of _ "t(m := t0)"]) (auto simp: upt_conv_Cons)
qed simp

section \<open>Property\<close>

text \<open>
  C27: the self-test of the parser ends and passes. Whatever numbers \<open>random\<close> returns, the test program fills
  its input and drains it without leaving an object, and prints one line for each frame that it
  wrote, in order and with consecutive numbers modulo 256, all of type \<open>V8A8\<close> and of length 58; only the last
  of the 992 frames may be missing, because draining stops before a chunk would pass the end.
\<close>

theorem gps_selftest_passes:
  "\<exists>n t. gps_selftest rnd = Some (map (\<lambda>j. gps_line ''V8A8'' (word_of_nat j) (t j) 58) [0..<n]) \<and>
    991 \<le> n \<and> n \<le> 992"
proof -
  let ?in = "test_frames rnd 992 @ replicate 64 0"
  have "template 0 (pA8\<lparr>a8_len := bswap16 59\<rparr>)" by (simp add: template_def pA8_def)
  from fill_input_frames [OF this, of rnd] obtain a k
    where fill: "fill_input rnd (pA8\<lparr>a8_len := bswap16 59\<rparr>) (replicate INPUT_SIZE 0) 0 0 = Some (a, ?in, k)"
    by (auto simp: test_frames_def)
  define ps where "ps = pieces rnd (replicate 6 0) ?in 0 100 k"
  have ps: "\<forall>x\<in>set ps. small_chunk x \<and> length (timestamp x) = 6"
    unfolding ps_def by (rule pieces_cut(1)) (simp_all add: INPUT_SIZE_def)
  have "\<exists>q. concat (map chunk ps) = slice ?in 0 q \<and> 0 \<le> q \<and> q \<le> INPUT_SIZE \<and> INPUT_SIZE \<le> q + 109"
    unfolding ps_def by (rule pieces_cut(2)) (simp_all add: INPUT_SIZE_def)
  then obtain q where q: "concat (map chunk ps) = take q ?in" "q \<le> 65536" "65427 \<le> q"
    by (auto simp: slice_def INPUT_SIZE_def)
  define n where "n = min 992 (q div 66)"
  have n: "66 * n \<le> q" "q < 66 * n + 66" "991 \<le> n" "n \<le> 992" using q(2,3) by (auto simp: n_def min_def)
  have bodies: "fst (venus_parse (concat (map chunk ps))) = map (test_body rnd) [0..<n]"
    unfolding q(1) using n by (intro test_frames_parse) auto
  obtain s' out where r: "run cots_raw_in gps_start ps = Some (s', out)"
    and v: "map gps_view out = map body_view (fst (venus_parse (concat (map chunk ps))))"
    using run_cots_raw_in_stream [of ps] ps by blast
  have "\<forall>p\<in>set ps. accepted p" using ps by (auto simp: accepted_def small_chunk_def GPS_BUF_def)
  from gps.run_ok [OF gps_inv_start this] r have "\<forall>x\<in>set out. promised gps_promise x" by auto
  moreover have "map gps_view out = map (\<lambda>j. body_view (test_body rnd j)) [0..<n]" using v bodies by (simp add: comp_def)
  ultimately obtain t where t: "those (map test_gps_data_out out) =
      Some (map (\<lambda>j. gps_line ''V8A8'' (word_of_nat j) (t j) 58) [0..<n])" using test_lines by blast
  have "gps_selftest rnd = Some (map (\<lambda>j. gps_line ''V8A8'' (word_of_nat j) (t j) 58) [0..<n])"
    by (simp add: gps_selftest_def fill drain_input_printing flip: ps_def) (simp add: printing_def r t)
  with n show ?thesis by blast
qed

end
