(* ===== verification/Log_Filter.thy ===== *)
theory Log_Filter
  imports Psas_Packet
begin

text \<open>
  \<open>src/src/filter.c\<close>: which messages are logged to the disk only. The module has no state.
\<close>

definition filter_receive :: "packet \<Rightarrow> action list" where
  "filter_receive p =
     (if memcmp_zero (ID p) ''V8'' 2 \<or> memcmp_zero (ID p) ''JGPS'' 4
      then if memcmp_zero (ID p) ''V8A8'' 4 then [Send (filter_to_ground p)]
           else [Send (filter_to_disk p)]
      else [Send (filter_to_ground p)])"

text \<open>The messages that are withheld from the ground.\<close>

definition disk_only :: "string \<Rightarrow> bool" where
  "disk_only i \<longleftrightarrow> (take 2 i = ''V8'' \<and> take 4 i \<noteq> ''V8A8'') \<or> take 4 i = ''JGPS''"

lemma filter_receive_eq:
  "filter_receive p =
     [Send (if disk_only (ID p) then filter_to_disk p else filter_to_ground p)]"
proof -
  have "take 2 i = ''V8'' \<Longrightarrow> take 4 i \<noteq> ''JGPS''" for i :: string
    by (cases i) auto
  moreover have "take 4 i = ''V8A8'' \<Longrightarrow> take 2 i = ''V8''" for i :: string
  proof -
    assume "take 4 i = ''V8A8''"
    then have "take 2 (take 4 i) = ''V8''" by simp
    then show "take 2 i = ''V8''" by simp
  qed
  ultimately show ?thesis
    by (auto simp: filter_receive_def disk_only_def memcmp_zero_def)
qed

end
