(* ===== verification/Doubles.thy ===== *)
theory Doubles
  imports Fc_Prelude
begin

text \<open>
  The C type \<open>double\<close>. The values the code computes are finite, so a double is modelled by the
  rational number it stands for, and each operation of the source is the exact operation followed
  by rounding to binary64, to nearest and ties to even, as IEEE 754 prescribes and the hardware
  does. The flight computer is built with \<open>-Ofast\<close>, which assumes that there are no NaNs and
  infinities and that the sign of zero does not matter (\<open>-ffinite-math-only\<close>,
  \<open>-fno-signed-zeros\<close>); neither is represented here. Overflow beyond \<open>2 ^ 1024\<close> is not modelled,
  and neither are reorderings of expressions that \<open>-Ofast\<close> would allow: operations are rounded
  one by one in source order.
\<close>

section \<open>Rounding to an integer\<close>

definition rne :: "'a::floor_ceiling \<Rightarrow> int" where
  "rne x = (let f = \<lfloor>x\<rfloor>; d = x - of_int f
            in if d < 1 / 2 then f else if d > 1 / 2 then f + 1
               else if even f then f else f + 1)"

lemma rne_floor: "\<lfloor>x\<rfloor> \<le> rne x" "rne x \<le> \<lfloor>x\<rfloor> + 1"
  by (simp_all add: rne_def Let_def)

lemma rne_of_int [simp]: "rne (of_int n) = n"
  by (simp add: rne_def)

lemma rne_mono:
  fixes x y :: "'a::floor_ceiling"
  assumes "x \<le> y"
  shows "rne x \<le> rne y"
proof (cases "\<lfloor>x\<rfloor> = \<lfloor>y\<rfloor>")
  case True
  with assms show ?thesis by (auto simp: rne_def Let_def)
next
  case False
  with floor_mono [OF assms] have "\<lfloor>x\<rfloor> + 1 \<le> \<lfloor>y\<rfloor>" by simp
  with rne_floor(2) [of x] rne_floor(1) [of y] show ?thesis by simp
qed

lemma rne_minus:
  fixes x :: "'a::floor_ceiling"
  shows "rne (- x) = - rne x"
proof (cases "of_int \<lfloor>x\<rfloor> = x")
  case True
  then show ?thesis by (metis rne_of_int of_int_minus)
next
  case False
  have "of_int \<lfloor>x\<rfloor> \<le> x" by simp
  moreover have "x < of_int \<lfloor>x\<rfloor> + 1" using floor_less_iff [of x "\<lfloor>x\<rfloor> + 1"] by simp
  ultimately have "\<lfloor>- x\<rfloor> = - \<lfloor>x\<rfloor> - 1"
    using False by (intro floor_unique) (auto simp: less_le)
  then show ?thesis
    unfolding rne_def Let_def by (cases "even \<lfloor>x\<rfloor>") (auto simp: not_less)
qed

section \<open>The binary exponent\<close>

function zlog2 :: "int \<Rightarrow> int" where
  "zlog2 n = (if n < 2 then 0 else zlog2 (n div 2) + 1)"
  by auto
termination by (relation "measure nat") auto

declare zlog2.simps [simp del]

lemma zlog2_nonneg: "0 \<le> zlog2 n"
  by (induction n rule: zlog2.induct) (subst zlog2.simps, simp)

lemma zlog2: "0 < n \<Longrightarrow> 2 ^ nat (zlog2 n) \<le> n \<and> n < 2 ^ nat (zlog2 n + 1)"
proof (induction n rule: zlog2.induct)
  case (1 n)
  show ?case
  proof (cases "n < 2")
    case True
    with "1.prems" show ?thesis by (subst (1 2) zlog2.simps) simp
  next
    case False
    define m where "m = zlog2 (n div 2)"
    have m: "0 \<le> m" by (simp add: m_def zlog2_nonneg)
    from "1.IH" False have "2 ^ nat m \<le> n div 2 \<and> n div 2 < 2 ^ nat (m + 1)"
      by (simp add: m_def)
    moreover have "zlog2 n = m + 1" using False by (subst zlog2.simps) (simp add: m_def)
    ultimately show ?thesis using m by (simp add: nat_add_distrib) linarith
  qed
qed

definition ilog2 :: "rat \<Rightarrow> int" where
  "ilog2 x = (let (p, q) = quotient_of x; e = zlog2 p - zlog2 q
              in if 2 powi e \<le> x then e else e - 1)"

lemma zlog2_rat:
  assumes "0 < p"
  shows "2 powi zlog2 p \<le> (of_int p :: rat)" and "(of_int p :: rat) < 2 powi (zlog2 p + 1)"
proof -
  have *: "2 powi k = (of_int (2 ^ nat k) :: rat)" if "0 \<le> k" for k
    using that by (simp add: power_int_def)
  show "2 powi zlog2 p \<le> (of_int p :: rat)" "(of_int p :: rat) < 2 powi (zlog2 p + 1)"
    using zlog2 [OF assms] zlog2_nonneg [of p] by (simp_all only: * of_int_le_iff of_int_less_iff)
qed

lemma ilog2:
  assumes "0 < x"
  shows "2 powi ilog2 x \<le> x" and "x < 2 powi (ilog2 x + 1)"
proof -
  obtain p q where pq: "quotient_of x = (p, q)" by fastforce
  then have x: "x = of_int p / of_int q" and q: "0 < q"
    by (simp_all add: quotient_of_div quotient_of_denom_pos)
  have p: "0 < p" using assms q by (simp add: x zero_less_divide_iff)
  define a b where "a = zlog2 p" and "b = zlog2 q"
  note pa = zlog2_rat [OF p, folded a_def] and qb = zlog2_rat [OF q, folded b_def]
  have pw: "2 powi (a - b + 1) = (2 powi (a + 1) / 2 powi b :: rat)"
    "2 powi (a - b - 1) = (2 powi a / 2 powi (b + 1) :: rat)"
    by (simp_all add: power_int_add power_int_diff)
  have hi: "x < 2 powi (a - b + 1)"
    using pa qb p q unfolding x pw by (intro frac_less) simp_all
  have lo: "2 powi (a - b - 1) \<le> x"
    using pa qb p q unfolding x pw by (intro frac_le) simp_all
  show "2 powi ilog2 x \<le> x" "x < 2 powi (ilog2 x + 1)"
    using hi lo by (simp_all add: ilog2_def pq Let_def not_le flip: a_def b_def)
qed

lemma powi_less_iff [simp]: "(2::'a::linordered_field) powi m < 2 powi n \<longleftrightarrow> m < n"
  using power_int_strict_increasing [of m n "2::'a"] power_int_increasing [of n m "2::'a"]
  by (cases "m < n") (auto simp: not_less dest: leD)

lemma powi_le_iff [simp]: "(2::'a::linordered_field) powi m \<le> 2 powi n \<longleftrightarrow> m \<le> n"
  using powi_less_iff [where 'a = 'a, of n m] by (simp flip: not_less)

lemma ilog2_unique:
  assumes "2 powi e \<le> x" and "x < 2 powi (e + 1)"
  shows "ilog2 x = e"
proof -
  have "0 < x" using assms(1) by (rule less_le_trans [rotated]) simp
  note l = ilog2 [OF this]
  have "(2::rat) powi ilog2 x < 2 powi (e + 1)" "(2::rat) powi e < 2 powi (ilog2 x + 1)"
    using l assms by linarith+
  then have "ilog2 x < e + 1" "e < ilog2 x + 1"
    by (simp_all add: powi_less_iff del: zle_add1_eq_le)
  then show ?thesis by simp
qed

section \<open>Rounding to binary64\<close>

definition round_at :: "int \<Rightarrow> rat \<Rightarrow> rat" where
  "round_at e x = of_int (rne (x / 2 powi (e - 52))) * 2 powi (e - 52)"

definition expo :: "rat \<Rightarrow> int" where
  "expo x = max (-1022) (ilog2 \<bar>x\<bar>)"

definition round64 :: "rat \<Rightarrow> rat" where
  "round64 x = (if x = 0 then 0 else round_at (expo x) x)"

text \<open>For evaluation: the same numbers from numerator and denominator, on integers.\<close>

definition rne_div :: "int \<Rightarrow> int \<Rightarrow> int" where
  "rne_div p q = (let f = p div q; r = 2 * (p mod q)
                  in if r < q then f else if r > q then f + 1 else if even f then f else f + 1)"

lemma rne_div:
  assumes "0 < q"
  shows "rne_div p q = rne (of_int p / of_int q :: rat)"
proof -
  let ?x = "of_int p / of_int q :: rat"
  have f: "\<lfloor>?x\<rfloor> = p div q" by (simp add: floor_divide_of_int_eq)
  have "?x - of_int (p div q) = of_int (p mod q) / of_int q"
    using assms by (simp add: field_simps flip: of_int_mult of_int_add)
  moreover have "of_int (p mod q) / of_int q < (1 / 2 :: rat) \<longleftrightarrow> of_int (2 * (p mod q)) < (of_int q :: rat)"
    "(1 / 2 :: rat) < of_int (p mod q) / of_int q \<longleftrightarrow> (of_int q :: rat) < of_int (2 * (p mod q))"
    using assms by (simp_all add: field_simps)
  ultimately show ?thesis
    unfolding rne_div_def rne_def Let_def f by (simp only: of_int_less_iff)
qed

lemma ilog2_code [code]:
  "ilog2 x = (let (p, q) = quotient_of x; e = zlog2 p - zlog2 q
     in if (if 0 \<le> e then 2 ^ nat e * q \<le> p else q \<le> p * 2 ^ nat (- e)) then e else e - 1)"
proof -
  obtain p q where pq: "quotient_of x = (p, q)" by fastforce
  then have x: "x = of_int p / of_int q" and q: "0 < q"
    by (simp_all add: quotient_of_div quotient_of_denom_pos)
  have "2 powi e \<le> x \<longleftrightarrow> (if 0 \<le> e then 2 ^ nat e * q \<le> p else q \<le> p * 2 ^ nat (- e))" for e
  proof (cases "0 \<le> e")
    case True
    have "2 powi e \<le> x \<longleftrightarrow> of_int (2 ^ nat e * q) \<le> (of_int p :: rat)"
      using True q by (simp add: x power_int_def pos_le_divide_eq)
    with True show ?thesis by (simp only: of_int_le_iff if_True)
  next
    case False
    have "2 powi e \<le> x \<longleftrightarrow> of_int q \<le> (of_int (p * 2 ^ nat (- e)) :: rat)"
      using False q by (simp add: x power_int_def field_simps)
    with False show ?thesis by (simp only: of_int_le_iff if_False)
  qed
  then show ?thesis by (simp add: ilog2_def pq)
qed

lemma round_at_code [code]:
  "round_at e x = (let (p, q) = quotient_of x in
     if e \<le> 52 then let u = 2 ^ nat (52 - e) in Fract (rne_div (p * u) q) u
     else let u = 2 ^ nat (e - 52) in of_int (rne_div p (q * u) * u))"
proof -
  obtain p q where pq: "quotient_of x = (p, q)" by fastforce
  then have x: "x = of_int p / of_int q" and q: "0 < q"
    by (simp_all add: quotient_of_div quotient_of_denom_pos)
  show ?thesis
  proof (cases "e \<le> 52")
    case True
    have "x / 2 powi (e - 52) = of_int (p * 2 ^ nat (52 - e)) / of_int q"
      using True by (simp add: x power_int_def field_simps)
    moreover have "y * 2 powi (e - 52) = y / of_int (2 ^ nat (52 - e))" for y :: rat
      using True by (simp add: power_int_def field_simps)
    ultimately show ?thesis
      using True q by (simp only: round_at_def pq Let_def rne_div Fract_of_int_quotient if_True
          prod.case)
  next
    case False
    have "x / 2 powi (e - 52) = of_int p / of_int (q * 2 ^ nat (e - 52))"
      using False by (simp add: x power_int_def field_simps)
    moreover have "2 powi (e - 52) = (of_int (2 ^ nat (e - 52)) :: rat)"
      using False by (simp add: power_int_def)
    moreover have "0 < q * 2 ^ nat (e - 52)" using q by simp
    ultimately show ?thesis
      using False by (simp only: round_at_def pq Let_def rne_div of_int_mult if_False prod.case)
  qed
qed

lemma round_at_mono: "x \<le> y \<Longrightarrow> round_at e x \<le> round_at e y"
  by (simp add: round_at_def rne_mono divide_right_mono)

lemma round_at_minus: "round_at e (- x) = - round_at e x"
  by (simp add: round_at_def rne_minus)

lemma round_at_fixes:
  assumes "x = of_int n * 2 powi k" and "e - 52 \<le> k"
  shows "round_at e x = x"
proof -
  have "x / 2 powi (e - 52) = of_int (n * 2 ^ nat (k - (e - 52)))"
    using assms by (simp add: power_int_diff [symmetric] power_int_of_nat [symmetric] field_simps
      flip: power_int_add)
  then have "round_at e x = x / 2 powi (e - 52) * 2 powi (e - 52)"
    unfolding round_at_def by (simp only: rne_of_int)
  then show ?thesis by simp
qed

lemma round_at_between:
  assumes "x \<le> 2 powi b" and "e - 52 \<le> b"
  shows "round_at e x \<le> 2 powi b"
  using round_at_mono [OF assms(1), of e] round_at_fixes [of "2 powi b" 1 b e] assms(2) by simp

lemma round_at_above:
  assumes "2 powi b \<le> x" and "e - 52 \<le> b"
  shows "2 powi b \<le> round_at e x"
  using round_at_mono [OF assms(1), of e] round_at_fixes [of "2 powi b" 1 b e] assms(2) by simp

lemma round64_0 [simp]: "round64 0 = 0"
  by (simp add: round64_def)

lemma round64_minus: "round64 (- x) = - round64 x"
  by (simp add: round64_def expo_def round_at_minus)

lemma round64_nonneg: "0 \<le> x \<Longrightarrow> 0 \<le> round64 x"
  using round_at_mono [of 0 x "expo x"] by (auto simp: round64_def round_at_def rne_def)

lemma round64_mono_pos:
  assumes "0 < x" and "x \<le> y"
  shows "round64 x \<le> round64 y"
proof -
  have "0 < y" using assms by simp
  note lx = ilog2 [OF assms(1)] and ly = ilog2 [OF this]
  have "(2::rat) powi ilog2 x < 2 powi (ilog2 y + 1)" using lx ly assms by linarith
  then have le: "ilog2 x \<le> ilog2 y" by simp
  show ?thesis
  proof (cases "expo x = expo y")
    case True
    with assms show ?thesis by (simp add: round64_def round_at_mono)
  next
    case False
    then have e: "expo y = ilog2 y" "expo x < ilog2 y" "ilog2 x \<le> expo x"
      using le assms by (auto simp: expo_def max_def split: if_splits)
    have "x \<le> 2 powi (expo x + 1)"
      using lx(2) e(3) powi_le_iff [of "ilog2 x + 1" "expo x + 1", where 'a = rat] by linarith
    then have "round_at (expo x) x \<le> 2 powi (expo x + 1)" by (rule round_at_between) simp
    also have "\<dots> \<le> (2::rat) powi ilog2 y" using e by simp
    also have "\<dots> \<le> round_at (expo y) y" using ly(1) e by (intro round_at_above) auto
    finally show ?thesis using assms by (simp add: round64_def)
  qed
qed

lemma round64_mono:
  assumes "x \<le> y"
  shows "round64 x \<le> round64 y"
proof (cases "0 < x")
  case True
  with assms show ?thesis by (intro round64_mono_pos)
next
  case x: False
  show ?thesis
  proof (cases "0 \<le> y")
    case True
    have "round64 x \<le> 0" using round64_nonneg [of "- x"] x by (simp add: round64_minus)
    also have "0 \<le> round64 y" using True by (rule round64_nonneg)
    finally show ?thesis .
  next
    case False
    with assms have "round64 (- y) \<le> round64 (- x)" by (intro round64_mono_pos) auto
    then show ?thesis by (simp add: round64_minus)
  qed
qed

text \<open>Numbers of at most 53 significant bits are doubles.\<close>

lemma round64_fixes:
  assumes "x = of_int n * 2 powi k" and "\<bar>n\<bar> < 2 ^ 53" and "- 1074 \<le> k"
  shows "round64 x = x"
proof (cases "x = 0")
  case False
  have "\<bar>x\<bar> < 2 powi (k + 53)"
  proof -
    have "\<bar>x\<bar> = of_int \<bar>n\<bar> * 2 powi k" by (simp add: assms(1) abs_mult)
    also have "\<dots> < of_int (2 ^ 53) * 2 powi k"
      using assms(2) by (intro mult_strict_right_mono) (simp_all only: of_int_less_iff, simp)
    finally show ?thesis by (simp add: power_int_add)
  qed
  moreover have "2 powi ilog2 \<bar>x\<bar> \<le> \<bar>x\<bar>" using False by (intro ilog2) simp
  ultimately have "(2::rat) powi ilog2 \<bar>x\<bar> < 2 powi (k + 53)" by (rule le_less_trans [rotated])
  then have "expo x - 52 \<le> k" using assms(3) by (simp add: expo_def)
  with False show ?thesis by (simp add: round64_def round_at_fixes [OF assms(1)])
qed simp

lemma round64_of_int: "\<bar>n\<bar> < 2 ^ 53 \<Longrightarrow> round64 (of_int n) = of_int n"
  by (rule round64_fixes [of _ n 0]) simp_all

lemma round64_numeral [simp]: "(numeral k :: int) < 2 ^ 53 \<Longrightarrow> round64 (numeral k) = numeral k"
  using round64_of_int [of "numeral k"] by simp

lemma round64_1 [simp]: "round64 1 = 1"
  using round64_of_int [of 1] by simp

lemma round64_representable:
  obtains n k where "round64 x = of_int n * 2 powi k" and "\<bar>n\<bar> < 2 ^ 53" and "- 1074 \<le> k"
proof (cases "x = 0")
  case True
  with that [of 0 0] show ?thesis by simp
next
  case False
  define k where "k = expo x - 52"
  define n where "n = rne (x / 2 powi k)"
  have r: "round64 x = of_int n * 2 powi k"
    using False by (simp add: round64_def round_at_def n_def k_def)
  have k: "- 1074 \<le> k" by (simp add: k_def expo_def)
  have "\<bar>x\<bar> < 2 powi (ilog2 \<bar>x\<bar> + 1)" using False by (intro ilog2) simp
  also have "\<dots> \<le> (2::rat) powi (k + 53)" by (simp add: k_def expo_def)
  finally have "\<bar>x\<bar> / 2 powi k \<le> of_int (2 ^ 53)"
    by (simp add: power_int_add pos_divide_le_eq mult.commute)
  then have "x / 2 powi k \<le> of_int (2 ^ 53)" "of_int (- (2 ^ 53)) \<le> x / 2 powi k"
    by (auto simp: abs_le_iff pos_divide_le_eq pos_le_divide_eq)
  from rne_mono [OF this(1)] rne_mono [OF this(2)] have n: "\<bar>n\<bar> \<le> 2 ^ 53"
    unfolding n_def rne_of_int by (simp only: abs_le_iff) simp
  show ?thesis
  proof (cases "\<bar>n\<bar> = 2 ^ 53")
    case True
    then have "n = 2 * sgn n * 2 ^ 52" by (auto simp: abs_if sgn_if split: if_splits)
    then have "of_int n * 2 powi k = of_int (sgn n * 2 ^ 52) * (2::rat) powi (k + 1)"
      by (subst (asm) mult.assoc) (simp add: power_int_add)
    moreover have "\<bar>sgn n * 2 ^ 52\<bar> < 2 ^ 53" by (simp add: abs_mult abs_sgn_eq)
    ultimately show ?thesis using r k by (intro that [of "sgn n * 2 ^ 52" "k + 1"]) simp_all
  next
    case False
    with n r k show ?thesis by (intro that [of n k]) simp_all
  qed
qed

lemma round64_round64 [simp]: "round64 (round64 x) = round64 x"
  by (rule round64_representable [of x]) (metis round64_fixes)


section \<open>The operations of the source\<close>

text \<open>
  What the control code relies on: rounding keeps the order of its arguments and treats a number
  and its negative alike. Every sign and bound argument about the code's expressions is made
  from these two laws, inside the locale.
\<close>

locale rounding =
  fixes rnd :: "rat \<Rightarrow> rat"
  assumes mono: "x \<le> y \<Longrightarrow> rnd x \<le> rnd y"
    and minus: "rnd (- x) = - rnd x"
begin

lemma zero: "rnd 0 = 0"
  using minus [of 0] by simp

lemma nonneg: "0 \<le> x \<Longrightarrow> 0 \<le> rnd x"
  using mono [of 0 x] by (simp add: zero)

lemma nonpos: "x \<le> 0 \<Longrightarrow> rnd x \<le> 0"
  using mono [of x 0] by (simp add: zero)

lemma ge_fixed: "rnd b = b \<Longrightarrow> b \<le> x \<Longrightarrow> b \<le> rnd x"
  using mono [of b x] by simp

lemma le_fixed: "rnd b = b \<Longrightarrow> x \<le> b \<Longrightarrow> rnd x \<le> b"
  using mono [of x b] by simp

lemma abs: "rnd \<bar>x\<bar> = \<bar>rnd x\<bar>"
  using nonneg [of x] nonpos [of x] minus [of x] by (cases "0 \<le> x") simp_all

end

interpretation round64: rounding round64
  by unfold_locales (rule round64_mono, assumption, rule round64_minus)

definition is_double :: "rat \<Rightarrow> bool" where
  "is_double x \<longleftrightarrow> round64 x = x"

definition fadd :: "rat \<Rightarrow> rat \<Rightarrow> rat" where "fadd x y = round64 (x + y)"
definition fsub :: "rat \<Rightarrow> rat \<Rightarrow> rat" where "fsub x y = round64 (x - y)"
definition fmul :: "rat \<Rightarrow> rat \<Rightarrow> rat" where "fmul x y = round64 (x * y)"
definition fdiv :: "rat \<Rightarrow> rat \<Rightarrow> rat" where "fdiv x y = round64 (x / y)"

text \<open>A decimal constant of the source, and the conversion of an integer.\<close>

definition lit :: "rat \<Rightarrow> rat" where "lit x = round64 x"
definition double_of_int :: "int \<Rightarrow> rat" where "double_of_int n = round64 (of_int n)"

lemmas float_defs = fadd_def fsub_def fmul_def fdiv_def lit_def

lemma is_double_ops [simp]:
  "is_double (fadd x y)" "is_double (fsub x y)" "is_double (fmul x y)" "is_double (fdiv x y)"
  "is_double (lit x)" "is_double (double_of_int n)" "is_double 0"
  by (simp_all add: is_double_def float_defs double_of_int_def)

lemma is_double_numeral [simp]:
  "(numeral k :: int) < 2 ^ 53 \<Longrightarrow> is_double (numeral k)"
  "(numeral k :: int) < 2 ^ 53 \<Longrightarrow> is_double (- numeral k)"
  by (simp_all add: is_double_def round64_minus)

lemma is_double_minus [simp]: "is_double (- x) \<longleftrightarrow> is_double x"
  by (simp add: is_double_def round64_minus)

lemma float_minus:
  "fmul (- x) y = - fmul x y" "fmul x (- y) = - fmul x y"
  "fdiv (- x) y = - fdiv x y" "fdiv x (- y) = - fdiv x y"
  "fsub (- x) (- y) = - fsub x y" "fadd (- x) (- y) = - fadd x y"
proof -
  have "- x + - y = - (x + y)" "- x - - y = - (x - y)" by simp_all
  then show "fsub (- x) (- y) = - fsub x y" "fadd (- x) (- y) = - fadd x y"
    unfolding float_defs by (simp_all only: round64_minus)
qed (simp_all add: float_defs round64_minus)

lemma float_zero [simp]:
  "fmul 0 y = 0" "fmul x 0 = 0" "fdiv 0 y = 0" "fdiv x 0 = 0" "fsub x x = 0"
  by (simp_all add: float_defs)

lemma float_nonneg:
  "0 \<le> x \<Longrightarrow> 0 \<le> y \<Longrightarrow> 0 \<le> fadd x y" "0 \<le> x \<Longrightarrow> 0 \<le> y \<Longrightarrow> 0 \<le> fmul x y"
  "0 \<le> x \<Longrightarrow> 0 \<le> y \<Longrightarrow> 0 \<le> fdiv x y" "y \<le> x \<Longrightarrow> 0 \<le> fsub x y"
  by (simp_all add: float_defs round64.nonneg)

lemma float_add_ge: "is_double y \<Longrightarrow> 0 \<le> x \<Longrightarrow> y \<le> fadd x y"
  by (simp add: fadd_def is_double_def round64.ge_fixed)

lemma float_abs: "\<bar>fmul x y\<bar> = fmul \<bar>x\<bar> \<bar>y\<bar>" "\<bar>fdiv x y\<bar> = fdiv \<bar>x\<bar> \<bar>y\<bar>"
  by (simp_all add: float_defs abs_mult abs_divide flip: round64.abs)

text \<open>
  \<open>sqrt\<close> is correctly rounded: the root is scaled to at least 53 bits before its point, its
  integer part is computed, and its place relative to the next half decides the rounding. The
  argument of a square root in this program is never negative.
\<close>

fun isqrt_up :: "int \<Rightarrow> int \<Rightarrow> nat \<Rightarrow> int" where
  "isqrt_up n r 0 = r"
| "isqrt_up n r (Suc k) = isqrt_up n (if (r + 2 ^ k) * (r + 2 ^ k) \<le> n then r + 2 ^ k else r) k"

definition isqrt :: "int \<Rightarrow> int" where
  "isqrt n = isqrt_up n 0 (nat (zlog2 n + 1))"

lemma isqrt_up: "r\<^sup>2 \<le> n \<Longrightarrow> n < (r + 2 ^ k)\<^sup>2 \<Longrightarrow> 0 \<le> r \<Longrightarrow>
    (isqrt_up n r k)\<^sup>2 \<le> n \<and> n < (isqrt_up n r k + 1)\<^sup>2 \<and> 0 \<le> isqrt_up n r k"
proof (induction n r k rule: isqrt_up.induct)
  case (2 n r k)
  define r' where "r' = (if (r + 2 ^ k) * (r + 2 ^ k) \<le> n then r + 2 ^ k else r)"
  have "r + 2 ^ Suc k = r + 2 ^ k + 2 ^ k" by simp
  with "2.prems" have "r'\<^sup>2 \<le> n" "n < (r' + 2 ^ k)\<^sup>2" "0 \<le> r'"
    by (simp_all add: r'_def power2_eq_square not_le add.commute)
  then show ?case using "2.IH" by (simp add: r'_def)
qed simp

lemma isqrt:
  assumes "0 \<le> n"
  shows "(isqrt n)\<^sup>2 \<le> n" and "n < (isqrt n + 1)\<^sup>2" and "0 \<le> isqrt n"
proof -
  have "n < 2 ^ nat (zlog2 n + 1)" using zlog2 [of n] assms by (cases "n = 0") auto
  also have "\<dots> \<le> (0 + 2 ^ nat (zlog2 n + 1))\<^sup>2"
    by (simp add: power2_eq_square)
  finally show "(isqrt n)\<^sup>2 \<le> n" "n < (isqrt n + 1)\<^sup>2" "0 \<le> isqrt n"
    using isqrt_up [of 0 n "nat (zlog2 n + 1)"] assms by (simp_all add: isqrt_def)
qed

text \<open>The square root of \<open>z\<close> rounded to an integer, ties to even.\<close>

definition rne_sqrt :: "rat \<Rightarrow> int" where
  "rne_sqrt z = (let f = isqrt \<lfloor>z\<rfloor>; h = (of_int f + 1 / 2)\<^sup>2
                 in if z < h then f else if z > h then f + 1 else if even f then f else f + 1)"

definition fsqrt :: "rat \<Rightarrow> rat" where
  "fsqrt x = (if x \<le> 0 then 0
     else let e = ilog2 x div 2 - 52 in of_int (rne_sqrt (x / (2 powi e)\<^sup>2)) * 2 powi e)"

lemma floor_eq_bounds: "\<lfloor>x :: rat\<rfloor> = n \<Longrightarrow> of_int n \<le> x \<and> x < of_int n + 1"
  by (auto simp: floor_eq_iff)

lemma floor_sqrt:
  assumes "0 \<le> z"
  shows "\<lfloor>sqrt (of_rat z)\<rfloor> = isqrt \<lfloor>z\<rfloor>"
proof (rule floor_unique)
  define f where "f = isqrt \<lfloor>z\<rfloor>"
  have f: "f\<^sup>2 \<le> \<lfloor>z\<rfloor>" "\<lfloor>z\<rfloor> < (f + 1)\<^sup>2" "0 \<le> f" using isqrt [of "\<lfloor>z\<rfloor>"] assms by (auto simp: f_def)
  have "of_int (f\<^sup>2) \<le> z" using f(1) by (simp only: le_floor_iff)
  then have "of_rat (of_int (f\<^sup>2)) \<le> (of_rat z :: real)" by (simp only: of_rat_less_eq)
  then have "of_int (f\<^sup>2) \<le> (of_rat z :: real)" by (simp only: of_rat_of_int_eq)
  then have 1: "(of_int f)\<^sup>2 \<le> (of_rat z :: real)" by simp
  have "z < of_int ((f + 1)\<^sup>2)" using f(2) by (simp only: floor_less_iff)
  then have "(of_rat z :: real) < of_rat (of_int ((f + 1)\<^sup>2))" by (simp only: of_rat_less)
  then have "(of_rat z :: real) < of_int ((f + 1)\<^sup>2)" by (simp only: of_rat_of_int_eq)
  then have 2: "of_rat z < ((of_int f + 1)\<^sup>2 :: real)" by simp
  show "of_int (isqrt \<lfloor>z\<rfloor>) \<le> sqrt (of_rat z)"
    using 1 by (intro real_le_rsqrt) (simp add: f_def)
  show "sqrt (of_rat z) < of_int (isqrt \<lfloor>z\<rfloor>) + 1"
    using 2 f(3) by (intro real_less_lsqrt) (simp_all add: f_def assms)
qed

lemma rne_sqrt:
  assumes "0 \<le> z"
  shows "rne_sqrt z = rne (sqrt (of_rat z))"
proof -
  define f where "f = isqrt \<lfloor>z\<rfloor>"
  have "0 \<le> f" using isqrt [of "\<lfloor>z\<rfloor>"] assms by (simp add: f_def)
  define h where "h = (of_int f + 1 / 2 :: rat)"
  have h: "(of_rat h :: real) = of_int f + 1 / 2" "0 \<le> h"
    using \<open>0 \<le> f\<close> by (simp_all add: h_def of_rat_add of_rat_divide)
  have "sqrt (of_rat (h\<^sup>2)) = of_rat h"
    unfolding of_rat_power real_sqrt_abs using \<open>0 \<le> h\<close> by (simp del: of_rat_add)
  then have "sqrt (of_rat z) < of_rat h \<longleftrightarrow> z < h\<^sup>2" "of_rat h < sqrt (of_rat z) \<longleftrightarrow> h\<^sup>2 < z"
    by (metis of_rat_less real_sqrt_less_iff)+
  then have "sqrt (of_rat z) - of_int f < 1 / 2 \<longleftrightarrow> z < h\<^sup>2"
    "1 / 2 < sqrt (of_rat z) - of_int f \<longleftrightarrow> h\<^sup>2 < z"
    unfolding h(1) by linarith+
  then show ?thesis
    unfolding rne_sqrt_def rne_def floor_sqrt [OF assms] Let_def f_def [symmetric]
    by (simp only: h_def [symmetric])
qed

lemma fsqrt_between:
  assumes "0 < x"
  shows "2 powi (ilog2 x div 2) \<le> fsqrt x" and "fsqrt x \<le> 2 powi (ilog2 x div 2 + 1)"
proof -
  define e where "e = ilog2 x div 2 - 52"
  define z where "z = x / (2 powi e)\<^sup>2"
  have e2: "(2 powi e)\<^sup>2 = (2::rat) powi (2 * e)"
    using power_int_add [of "2::rat" e e] by (simp add: power2_eq_square)
  have "2 * e + 104 \<le> ilog2 x" "ilog2 x + 1 \<le> 2 * e + 106" unfolding e_def by presburger+
  then have "2 powi (2 * e + 104) \<le> (2::rat) powi ilog2 x"
    "2 powi (ilog2 x + 1) \<le> (2::rat) powi (2 * e + 106)" by (simp_all only: powi_le_iff)
  then have "2 powi (2 * e + 104) \<le> x" "x \<le> 2 powi (2 * e + 106)"
    using ilog2 [OF assms] by linarith+
  then have z: "2 ^ 104 \<le> z" "z \<le> 2 ^ 106" "0 \<le> z"
    using assms by (simp_all add: z_def e2 power_int_add pos_divide_le_eq pos_le_divide_eq
      mult.commute)
  then have zr: "(2 ^ 52)\<^sup>2 \<le> (of_rat z :: real)" "(of_rat z :: real) \<le> (2 ^ 53)\<^sup>2"
    using of_rat_less_eq [where 'a = real, of "2 ^ 104" z]
      of_rat_less_eq [where 'a = real, of z "2 ^ 106"] by (simp_all add: of_rat_power)
  have "of_int (2 ^ 52) \<le> sqrt (of_rat z)" "sqrt (of_rat z) \<le> of_int (2 ^ 53)"
    using zr by (simp_all add: real_le_rsqrt real_le_lsqrt z(3))
  from rne_mono [OF this(1)] rne_mono [OF this(2)] have "2 ^ 52 \<le> rne_sqrt z" "rne_sqrt z \<le> 2 ^ 53"
    unfolding rne_sqrt [OF z(3)] rne_of_int by simp_all
  then have "of_int (2 ^ 52) \<le> (of_int (rne_sqrt z) :: rat)"
    "of_int (rne_sqrt z) \<le> (of_int (2 ^ 53) :: rat)" by (simp_all only: of_int_le_iff)
  then have "of_int (2 ^ 52) * 2 powi e \<le> (of_int (rne_sqrt z) * 2 powi e :: rat)"
    "of_int (rne_sqrt z) * 2 powi e \<le> (of_int (2 ^ 53) * 2 powi e :: rat)"
    by (simp_all only: mult_right_mono zero_le_power_int zero_le_numeral)
  moreover have "2 powi (ilog2 x div 2) = (of_int (2 ^ 52) * 2 powi e :: rat)"
    "2 powi (ilog2 x div 2 + 1) = (of_int (2 ^ 53) * 2 powi e :: rat)"
    by (simp_all add: e_def power_int_diff power_int_add)
  moreover have "fsqrt x = of_int (rne_sqrt z) * 2 powi e"
    using assms by (simp add: fsqrt_def Let_def z_def e_def)
  ultimately show "2 powi (ilog2 x div 2) \<le> fsqrt x" "fsqrt x \<le> 2 powi (ilog2 x div 2 + 1)"
    by simp_all
qed

lemma fsqrt_mono:
  assumes "x \<le> y"
  shows "fsqrt x \<le> fsqrt y"
proof (cases "0 < x")
  case False
  then have "fsqrt x = 0" by (simp add: fsqrt_def)
  also have "0 \<le> fsqrt y"
    using fsqrt_between(1) [of y] less_le_trans [of 0 "2 powi (ilog2 y div 2)" "fsqrt y"]
    by (cases "0 < y") (auto simp: fsqrt_def)
  finally show ?thesis .
next
  case True
  then have y: "0 < y" using assms by simp
  have "(2::rat) powi ilog2 x < 2 powi (ilog2 y + 1)"
    using ilog2 [OF True] ilog2 [OF y] assms by linarith
  then have le: "ilog2 x div 2 \<le> ilog2 y div 2" by (simp add: zdiv_mono1)
  show ?thesis
  proof (cases "ilog2 x div 2 = ilog2 y div 2")
    case True
    define e where "e = ilog2 y div 2 - 52"
    have "rne_sqrt (x / (2 powi e)\<^sup>2) \<le> rne_sqrt (y / (2 powi e)\<^sup>2)"
      using assms \<open>0 < x\<close> y
      by (simp add: rne_sqrt) (intro rne_mono real_sqrt_le_mono, simp add: of_rat_less_eq
        divide_right_mono)
    then show ?thesis
      using True \<open>0 < x\<close> y by (simp add: fsqrt_def Let_def e_def)
  next
    case False
    with le have "(2::rat) powi (ilog2 x div 2 + 1) \<le> 2 powi (ilog2 y div 2)" by simp
    with fsqrt_between [OF True] fsqrt_between [OF y] show ?thesis by linarith
  qed
qed

section \<open>The 64 bits of a double\<close>

text \<open>
  Sign, eleven bits of biased exponent, 52 bits of fraction. Reading bits whose exponent field is
  all ones gives an infinity or a NaN, which the model does not represent: \<open>None\<close>.
\<close>

definition double_bits :: "rat \<Rightarrow> u64" where
  "double_bits x =
     (if x = 0 then 0
      else let e = expo x; m = \<lfloor>\<bar>x\<bar> / 2 powi (e - 52)\<rfloor>
           in word_of_int ((if x < 0 then 2 ^ 63 else 0) + (e + 1022) * 2 ^ 52 + m))"

definition double_of_bits :: "u64 \<Rightarrow> rat option" where
  "double_of_bits b =
     (let w = uint b; E = w div 2 ^ 52 mod 2048; f = w mod 2 ^ 52;
          m = (if E = 0 then f else f + 2 ^ 52)
      in if E = 2047 then None
         else Some ((if w div 2 ^ 63 = 1 then -1 else 1) * of_int m * 2 powi (max E 1 - 1075)))"

lemma double_parts:
  assumes "is_double x" and "x \<noteq> 0"
  obtains m where "\<bar>x\<bar> = of_int m * 2 powi (expo x - 52)" and "0 < m" and "m < 2 ^ 53"
    and "expo x = - 1022 \<or> 2 ^ 52 \<le> m"
proof -
  define e where "e = expo x"
  define m where "m = rne (\<bar>x\<bar> / 2 powi (e - 52))"
  have "expo \<bar>x\<bar> = e" by (simp add: expo_def e_def)
  moreover have "round64 \<bar>x\<bar> = \<bar>x\<bar>" using assms by (simp add: is_double_def round64.abs)
  ultimately have x: "\<bar>x\<bar> = of_int m * 2 powi (e - 52)"
    using assms(2) by (simp add: round64_def round_at_def m_def)
  have l: "2 powi ilog2 \<bar>x\<bar> \<le> \<bar>x\<bar>" "\<bar>x\<bar> < 2 powi (ilog2 \<bar>x\<bar> + 1)"
    using assms(2) by (simp_all add: ilog2)
  have "0 < of_int m * (2::rat) powi (e - 52)" using assms(2) by (simp flip: x)
  moreover have "(0::rat) < 2 powi (e - 52)" by simp
  ultimately have "(0::rat) < of_int m" by (rule zero_less_mult_pos2)
  then have "0 < m" by simp
  moreover have "m < 2 ^ 53"
  proof -
    have "(2::rat) powi (ilog2 \<bar>x\<bar> + 1) \<le> 2 powi (e - 52 + 53)" by (simp add: e_def expo_def)
    with l(2) have "of_int m * 2 powi (e - 52) < (2::rat) powi (e - 52 + 53)"
      unfolding x [symmetric] by (rule less_le_trans)
    then have "(of_int m :: rat) < of_int (2 ^ 53)" by (subst (asm) power_int_add) simp_all
    then show ?thesis by (simp only: of_int_less_iff)
  qed
  moreover have "e = - 1022 \<or> 2 ^ 52 \<le> m"
  proof (cases "e = - 1022")
    case False
    then have "e = ilog2 \<bar>x\<bar>" by (auto simp: e_def expo_def)
    then have "(2::rat) powi (e - 52 + 52) \<le> of_int m * 2 powi (e - 52)"
      using l(1) x by simp
    then have "of_int (2 ^ 52) \<le> (of_int m :: rat)" by (subst (asm) power_int_add) simp_all
    then show ?thesis by (simp only: of_int_le_iff) simp
  qed simp
  ultimately show ?thesis using that x by (simp add: e_def)
qed

lemma double_of_double_bits:
  assumes "is_double x" and "\<bar>x\<bar> < 2 powi 1024"
  shows "double_of_bits (double_bits x) = Some x"
proof (cases "x = 0")
  case True
  then show ?thesis by (simp add: double_bits_def double_of_bits_def)
next
  case False
  obtain m where x: "\<bar>x\<bar> = of_int m * 2 powi (expo x - 52)" and m: "0 < m" "m < 2 ^ 53"
    and n: "expo x = - 1022 \<or> 2 ^ 52 \<le> m"
    using assms(1) False by (rule double_parts)
  define e where "e = expo x + 1022"
  have "2 powi ilog2 \<bar>x\<bar> \<le> \<bar>x\<bar>" using False by (intro ilog2) simp
  then have "(2::rat) powi ilog2 \<bar>x\<bar> < 2 powi 1024" using assms(2) by simp
  then have "ilog2 \<bar>x\<bar> < 1024" by (simp only: powi_less_iff)
  then have e: "0 \<le> e" "e \<le> 2045" by (auto simp: e_def expo_def)
  define s where "s = (if x < 0 then 1 else 0 :: int)"
  have s: "0 \<le> s" "s \<le> 1" by (simp_all add: s_def)
  have q: "\<bar>x\<bar> / 2 powi (expo x - 52) = of_int m" by (simp add: x)
  have w: "uint (double_bits x) = s * 2 ^ 63 + e * 2 ^ 52 + m"
  proof -
    have "double_bits x = word_of_int (s * 2 ^ 63 + e * 2 ^ 52 + m)"
      using False unfolding double_bits_def Let_def q floor_of_int s_def e_def by simp
    moreover have "s * 2 ^ 63 + e * 2 ^ 52 + m < 2 ^ 64" "0 \<le> s * 2 ^ 63 + e * 2 ^ 52 + m"
      using s e m by simp_all
    ultimately show ?thesis by (intro word_of_int_inverse [OF sym]) simp_all
  qed
  define E where "E = e + m div 2 ^ 52"
  have md: "m div 2 ^ 52 = (if m < 2 ^ 52 then 0 else 1)"
    using m by auto
  have E: "0 \<le> E" "E < 2047" using e unfolding E_def md by auto
  have "uint (double_bits x) = (s * 2048 + E) * 2 ^ 52 + m mod 2 ^ 52"
    unfolding w E_def by (simp add: distrib_right)
  then have d: "uint (double_bits x) div 2 ^ 52 = s * 2048 + E"
    "uint (double_bits x) mod 2 ^ 52 = m mod 2 ^ 52"
    by (simp_all only: div_mult_self3 mod_mult_self3 mod_div_trivial mod_mod_trivial) simp
  have "uint (double_bits x) div 2 ^ 63 = uint (double_bits x) div 2 ^ 52 div 2048"
    by (simp add: zdiv_zmult2_eq [symmetric])
  also have "\<dots> = s" unfolding d using E by simp
  finally have d3: "uint (double_bits x) div 2 ^ 63 = s" .
  have Em: "(s * 2048 + E) mod 2048 = E" using E by simp
  have x': "x = (if s = 1 then - 1 else 1) * of_int m * 2 powi (expo x - 52)"
    using x by (auto simp: s_def abs_if split: if_splits)
  have "(if E = 0 then m mod 2 ^ 52 else m mod 2 ^ 52 + 2 ^ 52) = m \<and> max E 1 - 1075 = expo x - 52"
    using n m e by (auto simp: E_def md e_def minus_div_mult_eq_mod [symmetric] max_def)
  then show ?thesis
    unfolding double_of_bits_def Let_def d d3 Em using E x' by simp
qed

end
