(* ===== verification/Arm.thy ===== *)
theory Arm
  imports Doubles Utils_Sockets
begin

text \<open>
  \<open>src/src/arm.c\<close>: the ARM Rocket Manager. It watches the accelerometer and the GPS fix, and
  answers the commands that arm and disarm the rocket.
\<close>

section \<open>State\<close>

record arm_state =
  slock_enable :: bool
  GPS_locked :: bool
  upright :: int

text \<open>The static variables before \<open>arm_init\<close>.\<close>

definition arm_static :: arm_state where
  "arm_static = \<lparr>slock_enable = False, GPS_locked = False, upright = 0\<rparr>"

definition arm_init :: "socket_env \<Rightarrow> arm_state \<Rightarrow> arm_state \<times> int \<times> syscall list" where
  "arm_init env s =
     (let s = s\<lparr>slock_enable := True\<rparr>; (sd, calls) = udp_socket env
      in if sd < 0 then (s, sd, calls)
         else let calls = calls @ [Connect sd ARM_ADDR]
              in if connect_ret env < 0 then (s, sd, calls @ [Close sd]) else (s, sd, calls))"

definition arm_final :: "int \<Rightarrow> syscall list" where
  "arm_final sd = [Close sd]"

section \<open>Sensors\<close>

definition ACCEL_NOISE_BOUND :: rat where "ACCEL_NOISE_BOUND = lit (1 / 10)"

definition about :: "rat \<Rightarrow> rat \<Rightarrow> bool" where
  "about a b \<longleftrightarrow> \<bar>fsub a b\<bar> < ACCEL_NOISE_BOUND"

text \<open>\<open>data->acc_x\<close> is a host \<open>int16_t\<close>, scaled to \<open>g\<close>.\<close>

definition arm_acc :: "u16 \<Rightarrow> rat" where
  "arm_acc raw = fmul (double_of_int (sint raw)) (lit (333 / 100000))"

definition arm_receive_imu :: "arm_state \<Rightarrow> packet \<Rightarrow> (arm_state \<times> action list) option" where
  "arm_receive_imu s p = do {
     ax \<leftarrow> field16 ADIS16405Data ''acc_x'' (data p);
     ay \<leftarrow> field16 ADIS16405Data ''acc_y'' (data p);
     az \<leftarrow> field16 ADIS16405Data ''acc_z'' (data p);
     let x = arm_acc ax;
     let y = arm_acc ay;
     let z = arm_acc az;
     if \<not> about x (-1) \<or> \<not> about y 0 \<or> \<not> about z 0 then Some (s\<lparr>upright := 0\<rparr>, [])
     else if upright s < 100 then Some (s\<lparr>upright := upright s + 1\<rparr>, [])
     else Some (s, [])
   }"

definition VENUS_A8_FIX_MODE_3D :: u8 where "VENUS_A8_FIX_MODE_3D = 2"

definition arm_receive_gps :: "arm_state \<Rightarrow> packet \<Rightarrow> (arm_state \<times> action list) option" where
  "arm_receive_gps s p =
     (if \<not> memcmp_zero ''V8A8'' (ID p) 4 then Some (s, [])
      else do {
        fix_mode \<leftarrow> field8 Venus8NavigationData ''fix_mode'' (data p);
        if fix_mode \<ge> VENUS_A8_FIX_MODE_3D then Some (s\<lparr>GPS_locked := True\<rparr>, [])
        else Some (s\<lparr>GPS_locked := False\<rparr>, [])
      })"

section \<open>Commands\<close>

text \<open>\<open>COMPARE_BUFFER_TO_CMD (a, b, len)\<close>: \<open>sizeof (b)\<close> counts the NUL of the literal.\<close>

definition COMPARE_BUFFER_TO_CMD :: "bytes \<Rightarrow> string \<Rightarrow> nat \<Rightarrow> bool option" where
  "COMPARE_BUFFER_TO_CMD a b len =
     map_option (\<lambda>r. r = 0)
       (strncmp a (cstring b) (if length (cstring b) > len then len else length (cstring b)))"

definition send_arm_response :: "string \<Rightarrow> action list" where
  "send_arm_response msg = [Write ArmSocket (chars msg)]"

definition arm_raw_in ::
  "arm_state \<Rightarrow> bytes \<Rightarrow> u32 \<Rightarrow> (arm_state \<times> action list) option" where
  "arm_raw_in s buffer len32 =
     (let len = unat len32 in do {
        m \<leftarrow> COMPARE_BUFFER_TO_CMD buffer ''#YOLO'' len;
        if m then
          let accel_locked = upright s = 100;
              sensors_allow_launch = (GPS_locked s \<and> accel_locked) \<or> \<not> slock_enable s
          in if sensors_allow_launch
             then Some (s, [Send (arm_send_signal ''ARM'')] @ send_arm_response ''successful ARM'')
             else Some (s, send_arm_response ''ARM failed due to sensor lock'')
        else do {
          m \<leftarrow> COMPARE_BUFFER_TO_CMD buffer ''#SAFE'' len;
          if m then Some (s, [Send (arm_send_signal ''SAFE'')] @ send_arm_response ''successful SAFE'')
          else do {
            m \<leftarrow> COMPARE_BUFFER_TO_CMD buffer ''EN_SLOCK'' len;
            if m then Some (s\<lparr>slock_enable := True\<rparr>, send_arm_response ''successful EN_SLOCK'')
            else do {
              m \<leftarrow> COMPARE_BUFFER_TO_CMD buffer ''DI_SLOCK'' len;
              if m then Some (s\<lparr>slock_enable := False\<rparr>, send_arm_response ''Sensor Lock Overridden'')
              else Some (s, send_arm_response ''UNKNOWN COMMAND'')
            }
          }
        }
      })"

text \<open>The receivers of the module, as the events it reacts to.\<close>

datatype arm_event = ArmImu packet | ArmGps packet | ArmRaw bytes u32

fun arm_step :: "arm_state \<Rightarrow> arm_event \<Rightarrow> (arm_state \<times> action list) option" where
  "arm_step s (ArmImu p) = arm_receive_imu s p"
| "arm_step s (ArmGps p) = arm_receive_gps s p"
| "arm_step s (ArmRaw buffer len) = arm_raw_in s buffer len"

end
