(* ===== verification/Arm_Proofs.thy ===== *)
theory Arm_Proofs
  imports Arm
begin

text \<open>
  The sensor lock and the commands of the ARM Rocket Manager: the state is a function of the
  history of samples, fixes and commands, and arming is allowed exactly when that history allows
  it.
\<close>

section \<open>Accelerometer thresholds\<close>

text \<open>The double comparison decides by the raw integer, since each operation is monotone.\<close>

definition arm_offset :: "rat \<Rightarrow> int \<Rightarrow> rat" where
  "arm_offset b n = fsub (fmul (double_of_int n) (lit (333 / 100000))) b"

lemma arm_offset_mono:
  assumes "m \<le> n"
  shows "arm_offset b m \<le> arm_offset b n"
proof -
  have "double_of_int m \<le> double_of_int n"
    using assms by (simp add: double_of_int_def round64_mono)
  moreover have "0 \<le> lit (333 / 100000)" by (simp add: lit_def round64_nonneg)
  ultimately show ?thesis
    by (simp add: arm_offset_def fsub_def fmul_def round64_mono mult_right_mono)
qed

lemma about_arm_acc: "about (arm_acc w) b \<longleftrightarrow> \<bar>arm_offset b (sint w)\<bar> < ACCEL_NOISE_BOUND"
  by (simp add: about_def arm_acc_def arm_offset_def)

lemma arm_offset_bounds:
  "\<not> - ACCEL_NOISE_BOUND < arm_offset (-1) (-331)" "- ACCEL_NOISE_BOUND < arm_offset (-1) (-330)"
  "arm_offset (-1) (-271) < ACCEL_NOISE_BOUND" "\<not> arm_offset (-1) (-270) < ACCEL_NOISE_BOUND"
  "\<not> - ACCEL_NOISE_BOUND < arm_offset 0 (-31)" "- ACCEL_NOISE_BOUND < arm_offset 0 (-30)"
  "arm_offset 0 30 < ACCEL_NOISE_BOUND" "\<not> arm_offset 0 31 < ACCEL_NOISE_BOUND"
proof -
  show "\<not> - ACCEL_NOISE_BOUND < arm_offset (-1) (-331)" by code_simp
  show "- ACCEL_NOISE_BOUND < arm_offset (-1) (-330)" by code_simp
  show "arm_offset (-1) (-271) < ACCEL_NOISE_BOUND" by code_simp
  show "\<not> arm_offset (-1) (-270) < ACCEL_NOISE_BOUND" by code_simp
  show "\<not> - ACCEL_NOISE_BOUND < arm_offset 0 (-31)" by code_simp
  show "- ACCEL_NOISE_BOUND < arm_offset 0 (-30)" by code_simp
  show "arm_offset 0 30 < ACCEL_NOISE_BOUND" by code_simp
  show "\<not> arm_offset 0 31 < ACCEL_NOISE_BOUND" by code_simp
qed

lemma about_range:
  assumes "\<not> - ACCEL_NOISE_BOUND < arm_offset b (lo - 1)" "- ACCEL_NOISE_BOUND < arm_offset b lo"
    and "arm_offset b hi < ACCEL_NOISE_BOUND" "\<not> arm_offset b (hi + 1) < ACCEL_NOISE_BOUND"
  shows "about (arm_acc w) b \<longleftrightarrow> lo \<le> sint w \<and> sint w \<le> hi"
proof -
  have "lo \<le> sint w" if "- ACCEL_NOISE_BOUND < arm_offset b (sint w)"
    using that assms(1) arm_offset_mono [of "sint w" "lo - 1" b] by (intro leI notI) auto
  moreover have "sint w \<le> hi" if "arm_offset b (sint w) < ACCEL_NOISE_BOUND"
    using that assms(4) arm_offset_mono [of "hi + 1" "sint w" b] by (intro leI notI) auto
  moreover have "- ACCEL_NOISE_BOUND < arm_offset b (sint w)" if "lo \<le> sint w"
    using assms(2) arm_offset_mono [OF that, of b] by simp
  moreover have "arm_offset b (sint w) < ACCEL_NOISE_BOUND" if "sint w \<le> hi"
    using assms(3) arm_offset_mono [OF that, of b] by simp
  ultimately show ?thesis by (auto simp: about_arm_acc abs_less_iff)
qed

lemma about_minus_1: "about (arm_acc w) (-1) \<longleftrightarrow> -330 \<le> sint w \<and> sint w \<le> -271"
  by (rule about_range) (use arm_offset_bounds in simp_all)

lemma about_0: "about (arm_acc w) 0 \<longleftrightarrow> -30 \<le> sint w \<and> sint w \<le> 30"
  by (rule about_range) (use arm_offset_bounds in simp_all)

text \<open>A sample that counts as upright, on the host-order words of the packet.\<close>

definition imu_word :: "nat \<Rightarrow> packet \<Rightarrow> u16" where
  "imu_word off p = get_host16 (drop off (data p))"

definition upright_words :: "u16 \<Rightarrow> u16 \<Rightarrow> u16 \<Rightarrow> bool" where
  "upright_words x y z \<longleftrightarrow> -330 \<le> sint x \<and> sint x \<le> -271 \<and> \<bar>sint y\<bar> \<le> 30 \<and> \<bar>sint z\<bar> \<le> 30"

definition upright_sample :: "packet \<Rightarrow> bool" where
  "upright_sample p = upright_words (imu_word 8 p) (imu_word 10 p) (imu_word 12 p)"

lemma arm_receive_imu:
  assumes "14 \<le> length (data p)"
  shows "arm_receive_imu s p =
    Some (s\<lparr>upright := if \<not> upright_sample p then 0
            else if upright s < 100 then upright s + 1 else upright s\<rparr>, [])"
  using assms
  by (simp add: arm_receive_imu_def load16_def about_minus_1 about_0 upright_sample_def
      upright_words_def imu_word_def abs_le_iff)

section \<open>Commands\<close>

text \<open>What \<open>COMPARE_BUFFER_TO_CMD\<close> compares: as many bytes as the shorter of the received
  message and the literal with its NUL.\<close>

definition matches :: "bytes \<Rightarrow> nat \<Rightarrow> string \<Rightarrow> bool" where
  "matches buffer len cmd \<longleftrightarrow>
     (let n = min len (length cmd + 1) in take n buffer = take n (cstring cmd))"

lemma compare_matches:
  assumes "len \<le> length buffer" and "0 \<notin> set (chars cmd)"
  shows "COMPARE_BUFFER_TO_CMD buffer cmd len = Some (matches buffer len cmd)"
proof -
  define n where "n = min len (length cmd + 1)"
  have n: "n \<le> length buffer" "n \<le> length (cstring cmd)"
    using assms(1) by (simp_all add: n_def cstring_def)
  have "n - 1 \<le> length cmd" by (simp add: n_def)
  then have "take (n - 1) (cstring cmd) = take (n - 1) (chars cmd)" by (simp add: cstring_def)
  then have 0: "0 \<notin> set (take (n - 1) (cstring cmd))"
    using assms(2) set_take_subset [of "n - 1" "chars cmd"] by auto
  obtain r where r: "strncmp buffer (cstring cmd) n = Some r"
    using strncmp_total n by blast
  have "(if length (cstring cmd) > len then len else length (cstring cmd)) = n"
    by (auto simp: n_def cstring_def)
  with r strncmp_zero_iff [OF n 0] show ?thesis
    unfolding COMPARE_BUFFER_TO_CMD_def matches_def Let_def n_def [symmetric] by simp
qed

datatype arm_command = YOLO | SAFE | EN_SLOCK | DI_SLOCK | UNKNOWN

definition arm_command :: "bytes \<Rightarrow> u32 \<Rightarrow> arm_command" where
  "arm_command buffer len =
     (if matches buffer (unat len) ''#YOLO'' then YOLO
      else if matches buffer (unat len) ''#SAFE'' then SAFE
      else if matches buffer (unat len) ''EN_SLOCK'' then EN_SLOCK
      else if matches buffer (unat len) ''DI_SLOCK'' then DI_SLOCK else UNKNOWN)"

definition sensors_allow :: "arm_state \<Rightarrow> bool" where
  "sensors_allow s \<longleftrightarrow> GPS_locked s \<and> upright s = 100 \<or> \<not> slock_enable s"

lemma arm_raw_in:
  assumes "unat len \<le> length buffer"
  shows "arm_raw_in s buffer len = Some (case arm_command buffer len of
      YOLO \<Rightarrow> (s, if sensors_allow s
                    then [Send (arm_send_signal ''ARM''), Write ArmSocket (chars ''successful ARM'')]
                    else [Write ArmSocket (chars ''ARM failed due to sensor lock'')])
    | SAFE \<Rightarrow> (s, [Send (arm_send_signal ''SAFE''), Write ArmSocket (chars ''successful SAFE'')])
    | EN_SLOCK \<Rightarrow> (s\<lparr>slock_enable := True\<rparr>, [Write ArmSocket (chars ''successful EN_SLOCK'')])
    | DI_SLOCK \<Rightarrow> (s\<lparr>slock_enable := False\<rparr>, [Write ArmSocket (chars ''Sensor Lock Overridden'')])
    | UNKNOWN \<Rightarrow> (s, [Write ArmSocket (chars ''UNKNOWN COMMAND'')]))"
proof -
  have c: "COMPARE_BUFFER_TO_CMD buffer ''#YOLO'' (unat len) = Some (matches buffer (unat len) ''#YOLO'')"
    "COMPARE_BUFFER_TO_CMD buffer ''#SAFE'' (unat len) = Some (matches buffer (unat len) ''#SAFE'')"
    "COMPARE_BUFFER_TO_CMD buffer ''EN_SLOCK'' (unat len) = Some (matches buffer (unat len) ''EN_SLOCK'')"
    "COMPARE_BUFFER_TO_CMD buffer ''DI_SLOCK'' (unat len) = Some (matches buffer (unat len) ''DI_SLOCK'')"
    using assms by (intro compare_matches; simp add: chars_def of_char_def)+
  show ?thesis
    by (simp add: arm_raw_in_def c Let_def arm_command_def sensors_allow_def send_arm_response_def)
qed

section \<open>The state as a function of the history\<close>

definition nav_packet :: "packet \<Rightarrow> bool" where
  "nav_packet p \<longleftrightarrow> take 4 (ID p) = ''V8A8''"

definition fix_3D :: "packet \<Rightarrow> bool" where
  "fix_3D p \<longleftrightarrow> 2 \<le> unat (data p ! 0)"

lemma arm_receive_gps:
  assumes "nav_packet p \<longrightarrow> data p \<noteq> []"
  shows "arm_receive_gps s p = Some (if nav_packet p then s\<lparr>GPS_locked := fix_3D p\<rparr> else s, [])"
  using assms
  by (auto simp: arm_receive_gps_def nav_packet_def memcmp_zero_def load8_def fix_3D_def
      VENUS_A8_FIX_MODE_3D_def word_le_nat_alt)

fun samples :: "arm_event list \<Rightarrow> packet list" where
  "samples [] = []"
| "samples (ArmImu p # es) = p # samples es"
| "samples (e # es) = samples es"

text \<open>The last \<open>V8A8\<close> message, and the last of the two commands about the sensor lock.\<close>

fun last_fix :: "bool \<Rightarrow> arm_event list \<Rightarrow> bool" where
  "last_fix b [] = b"
| "last_fix b (ArmGps p # es) = last_fix (if nav_packet p then fix_3D p else b) es"
| "last_fix b (e # es) = last_fix b es"

fun lock_enabled :: "bool \<Rightarrow> arm_event list \<Rightarrow> bool" where
  "lock_enabled b [] = b"
| "lock_enabled b (ArmRaw buffer len # es) =
     lock_enabled (case arm_command buffer len of EN_SLOCK \<Rightarrow> True | DI_SLOCK \<Rightarrow> False | _ \<Rightarrow> b) es"
| "lock_enabled b (e # es) = lock_enabled b es"

text \<open>The number of consecutive upright samples at the end of the history, up to 100.\<close>

definition trailing :: "packet list \<Rightarrow> int" where
  "trailing ps = int (min 100 (length (takeWhile upright_sample (rev ps))))"

definition arm_spec :: "arm_event list \<Rightarrow> arm_state" where
  "arm_spec es = \<lparr>slock_enable = lock_enabled True es, GPS_locked = last_fix False es,
     upright = trailing (samples es)\<rparr>"

text \<open>The events the other modules produce: complete IMU packets, navigation messages with at
  least one byte behind the pointer, commands of the length given.\<close>

fun arm_admissible :: "arm_event \<Rightarrow> bool" where
  "arm_admissible (ArmImu p) \<longleftrightarrow> 14 \<le> length (data p)"
| "arm_admissible (ArmGps p) \<longleftrightarrow> (nav_packet p \<longrightarrow> data p \<noteq> [])"
| "arm_admissible (ArmRaw buffer len) \<longleftrightarrow> unat len \<le> length buffer"

lemma trailing_snoc:
  "trailing (ps @ [p]) = (if \<not> upright_sample p then 0 else
     if trailing ps < 100 then trailing ps + 1 else trailing ps)"
  by (simp add: trailing_def)

lemma samples_snoc: "samples (es @ [e]) = samples es @ (case e of ArmImu p \<Rightarrow> [p] | _ \<Rightarrow> [])"
  by (induction es rule: samples.induct) (auto split: arm_event.splits)

lemma last_fix_append: "last_fix b (es @ fs) = last_fix (last_fix b es) fs"
  by (induction b es rule: last_fix.induct) auto

lemma lock_enabled_append: "lock_enabled b (es @ fs) = lock_enabled (lock_enabled b es) fs"
  by (induction b es rule: lock_enabled.induct) auto

lemma arm_step_spec:
  assumes "arm_admissible e"
  shows "\<exists>os. arm_step (arm_spec es) e = Some (arm_spec (es @ [e]), os)"
proof (cases e)
  case (ArmImu p)
  with assms show ?thesis
    by (simp add: arm_receive_imu arm_spec_def samples_snoc trailing_snoc last_fix_append
        lock_enabled_append)
next
  case (ArmGps p)
  with assms show ?thesis
    by (simp add: arm_receive_gps arm_spec_def samples_snoc last_fix_append lock_enabled_append)
next
  case (ArmRaw buffer len)
  with assms show ?thesis
    by (simp add: arm_raw_in arm_spec_def samples_snoc last_fix_append lock_enabled_append
        split: arm_command.splits)
qed

lemma arm_run_spec:
  assumes "\<forall>e\<in>set es. arm_admissible e"
  shows "\<exists>os. run arm_step (arm_spec []) es = Some (arm_spec es, os)"
  using assms
proof (induction es rule: rev_induct)
  case (snoc e es)
  then obtain os where "run arm_step (arm_spec []) es = Some (arm_spec es, os)" by auto
  moreover obtain os' where "arm_step (arm_spec es) e = Some (arm_spec (es @ [e]), os')"
    using arm_step_spec [of e es] snoc.prems by auto
  ultimately show ?case by (simp add: run_append)
qed simp

lemma arm_init_spec: "fst (arm_init env arm_static) = arm_spec []"
  by (auto simp: arm_init_def arm_static_def arm_spec_def trailing_def udp_socket_def Let_def)

section \<open>The contract of the component\<close>

definition arm_inv :: "arm_state \<Rightarrow> bool" where
  "arm_inv s \<longleftrightarrow> 0 \<le> upright s \<and> upright s \<le> 100"

fun arm_allowed :: "action \<Rightarrow> bool" where
  "arm_allowed (Send (arm_send_signal sig)) \<longleftrightarrow> sig = ''ARM'' \<or> sig = ''SAFE''"
| "arm_allowed (Send _) \<longleftrightarrow> False"
| "arm_allowed (Write c bs) \<longleftrightarrow> c = ArmSocket"

interpretation arm: component arm_step arm_inv arm_admissible arm_allowed
proof unfold_locales
  fix s e assume "arm_inv s" and "arm_admissible e"
  then show "\<exists>s' os. arm_step s e = Some (s', os) \<and> arm_inv s' \<and> (\<forall>x\<in>set os. arm_allowed x)"
    by (cases e) (auto simp: arm_receive_imu arm_receive_gps arm_raw_in arm_inv_def
        split: arm_command.splits)
qed

section \<open>Properties\<close>

text \<open>
  C17: after initialisation, whatever events follow, none of the receivers reads outside the
  memory it is given, and the state is the summary of the history the arming rule asks for: the
  sensor lock is enabled unless the last of the two lock commands disabled it, the GPS is locked
  if the last navigation message had at least a 3D fix, and \<open>upright\<close> counts the trailing upright
  samples up to 100.
\<close>

theorem arm_history:
  assumes "\<forall>e\<in>set es. arm_admissible e"
  shows "\<exists>s os. run arm_step (fst (arm_init env arm_static)) es = Some (s, os) \<and>
    slock_enable s = lock_enabled True es \<and> GPS_locked s = last_fix False es \<and>
    upright s = int (min 100 (length (takeWhile upright_sample (rev (samples es)))))"
proof -
  obtain os where "run arm_step (arm_spec []) es = Some (arm_spec es, os)"
    using arm_run_spec [OF assms] by blast
  then show ?thesis unfolding arm_init_spec by (simp add: arm_spec_def trailing_def)
qed

definition nav_sample :: packet where
  "nav_sample = \<lparr>ID = ''V8A8'', timestamp = replicate 6 0, data_length = 58,
     data = 2 # replicate 57 0\<rparr>"

lemma arm_history_witness:
  "\<exists>s os. run arm_step (fst (arm_init \<lparr>socket_ret = 3, bind_ret = 0, setsockopt_ret = 0,
        connect_ret = 0\<rparr> arm_static)) [ArmGps nav_sample] = Some (s, os) \<and>
    slock_enable s = True \<and> GPS_locked s = True \<and> upright s = 0"
  using arm_history [of "[ArmGps nav_sample]" "\<lparr>socket_ret = 3, bind_ret = 0,
      setsockopt_ret = 0, connect_ret = 0\<rparr>"]
  by (simp add: nav_sample_def nav_packet_def fix_3D_def)

text \<open>
  C7: the arming rule. Whatever happened since initialisation, a command is answered with the
  signal \<open>ARM\<close> to the other modules if and only if it is recognised as the arm command and
  either the last navigation message had a 3D fix and the last 100 accelerometer samples were
  all upright, or the sensor lock has been disabled by command and not enabled again.
\<close>

theorem arm_signal_iff:
  assumes "\<forall>e\<in>set es. arm_admissible e"
    and "run arm_step (fst (arm_init env arm_static)) es = Some (s, os)"
    and "unat len \<le> length buffer"
  shows "\<exists>s' out. arm_raw_in s buffer len = Some (s', out) \<and>
    (Send (arm_send_signal ''ARM'') \<in> set out \<longleftrightarrow>
       arm_command buffer len = YOLO \<and>
       (last_fix False es \<and> 100 \<le> length (takeWhile upright_sample (rev (samples es)))
        \<or> \<not> lock_enabled True es))"
proof -
  have s: "s = arm_spec es"
    using arm_run_spec [OF assms(1)] assms(2) by (auto simp: arm_init_spec)
  have "sensors_allow s \<longleftrightarrow>
    last_fix False es \<and> 100 \<le> length (takeWhile upright_sample (rev (samples es)))
    \<or> \<not> lock_enabled True es"
    by (auto simp: s sensors_allow_def arm_spec_def trailing_def)
  then show ?thesis
    using arm_raw_in [OF assms(3), of s] by (auto split: arm_command.splits)
qed

definition disable_then_arm :: "arm_event list" where
  "disable_then_arm = [ArmRaw (chars ''DI_SLOCK'') 8]"

lemma arm_command_samples:
  "arm_command (chars ''DI_SLOCK'') 8 = DI_SLOCK" "arm_command (chars ''#YOLO'') 5 = YOLO"
  by (simp_all add: arm_command_def matches_def cstring_def chars_def of_char_def)

lemma arm_signal_iff_witness:
  "\<exists>s' out. arm_raw_in \<lparr>slock_enable = False, GPS_locked = False, upright = 0\<rparr> (chars ''#YOLO'') 5
      = Some (s', out) \<and> Send (arm_send_signal ''ARM'') \<in> set out"
proof -
  have "run arm_step (fst (arm_init \<lparr>socket_ret = 3, bind_ret = 0, setsockopt_ret = 0,
      connect_ret = 0\<rparr> arm_static)) disable_then_arm
    = Some (\<lparr>slock_enable = False, GPS_locked = False, upright = 0\<rparr>,
        [Write ArmSocket (chars ''Sensor Lock Overridden'')])"
    unfolding arm_init_spec disable_then_arm_def
    by (simp add: arm_raw_in arm_command_samples arm_spec_def trailing_def)
  from arm_signal_iff [OF _ this, of 5 "chars ''#YOLO''"] show ?thesis
    by (simp add: arm_command_samples disable_then_arm_def)
qed

text \<open>
  The comparison of doubles in \<open>about\<close> draws the line at exact raw readings: a vertical
  reading counts as -1 g from -330 to -271 counts, a lateral reading as 0 from -30 to 30 counts.
\<close>

lemma arm_thresholds:
  "(about (arm_acc w) (-1) \<longleftrightarrow> -330 \<le> sint w \<and> sint w \<le> -271) \<and>
   (about (arm_acc w) 0 \<longleftrightarrow> -30 \<le> sint w \<and> sint w \<le> 30)"
  by (simp add: about_minus_1 about_0)

text \<open>
  C38: the accelerometer packet is in network byte order, as \<open>state_receive_imu\<close> reads it, but
  \<open>arm_receive_imu\<close> reads the words in host order. So a packet that reports -1 g on the vertical
  axis, within the noise bound, always resets the count of upright samples.
\<close>

theorem arm_imu_byte_order:
  assumes "-330 \<le> k" and "k \<le> -271"
    and "data p = before @ be16 (word_of_int k) @ rest" and "length before = 8"
    and "4 \<le> length rest"
  shows "arm_receive_imu s p = Some (s\<lparr>upright := 0\<rparr>, [])"
proof -
  define w :: u16 where "w = word_of_int k"
  define lo where "lo = nat (k + 65536) - 65024"
  have lo: "182 \<le> lo" "lo \<le> 241" using assms(1,2) by (auto simp: lo_def)
  have "w = word_of_int (k + 65536)" by (simp add: w_def)
  then have "uint w = k + 65536"
    using assms(1,2) by (intro word_of_int_inverse [OF sym]) auto
  then have w: "unat w = 254 * 256 + lo" using lo assms(1) by (simp add: lo_def unat_eq_nat_uint)
  have "bswap16 w = word_of_nat (lo * 256 + 254)"
  proof -
    have "(254 * 256 + lo) div 256 = 254" using lo by simp
    then have "be16 w = [254, word_of_nat lo]"
      by (simp only: be16_def w be_of_numeral) (simp add: word_of_nat_eq_iff take_bit_eq_mod)
    then show ?thesis
      using lo by (simp add: bswap16_def get_be16_def host16_def of_be_Cons unat_of_nat)
  qed
  then have u: "uint (bswap16 w) = int (lo * 256 + 254)"
    using lo by (intro word_of_int_inverse [OF sym]) auto
  have "sint (bswap16 w) = int (lo * 256 + 254) - 65536"
    using lo by (simp add: sint16 u)
  then have "\<not> -330 \<le> sint (bswap16 w)" using lo by simp
  moreover have "imu_word 8 p = bswap16 w"
  proof -
    have "drop 8 (data p) = host16 (bswap16 w) @ rest"
      using assms(3,4) by (simp add: w_def)
    then show ?thesis by (simp only: imu_word_def get_put)
  qed
  ultimately show ?thesis
    using assms by (simp add: arm_receive_imu upright_sample_def upright_words_def)
qed

lemma arm_imu_byte_order_witness:
  "arm_receive_imu \<lparr>slock_enable = True, GPS_locked = True, upright = 99\<rparr>
     \<lparr>ID = ''ADIS'', timestamp = replicate 6 0, data_length = 24,
      data = replicate 8 0 @ be16 (word_of_int (-300)) @ replicate 14 0\<rparr>
   = Some (\<lparr>slock_enable = True, GPS_locked = True, upright = 0\<rparr>, [])"
  by (subst arm_imu_byte_order [of "-300" _ "replicate 8 0" "replicate 14 0"]) simp_all

text \<open>
  Which messages arm the rocket. A message of up to five bytes is taken for the arm command
  when it is a prefix of \<open>#YOLO\<close>, so \<open>#\<close> alone is; a longer message only when \<open>#YOLO\<close> is
  followed by a NUL, so \<open>#YOLO\<close> with a newline is not.
\<close>

lemma arm_prefix_accepted:
  "arm_command buffer len = YOLO \<longleftrightarrow>
     (if unat len \<le> 5 then take (unat len) buffer = take (unat len) (chars ''#YOLO'')
      else take 6 buffer = chars ''#YOLO'' @ [0])"
proof -
  have 6: "length ''#YOLO'' + 1 = (6::nat)" by simp
  have "take (min n 6) (cstring ''#YOLO'') =
      (if n \<le> 5 then take n (chars ''#YOLO'') else chars ''#YOLO'' @ [0])" for n
    by (cases "n \<le> 5"; cases "n = 6") (simp_all add: cstring_def min_def)
  moreover have "min n 6 = (if n \<le> 5 then n else 6)" for n :: nat by auto
  ultimately have "matches buffer n ''#YOLO'' \<longleftrightarrow>
      (if n \<le> 5 then take n buffer = take n (chars ''#YOLO'') else take 6 buffer = chars ''#YOLO'' @ [0])"
    for n by (simp only: matches_def 6 Let_def) simp
  then show ?thesis by (simp add: arm_command_def)
qed

text \<open>
  The strings that the ground tool sends, without a terminator, are recognised as the
  commands they name, whatever follows them in the receive buffer.
\<close>

lemma arm_tool_commands:
  "arm_command (chars ''#YOLO'' @ r) 5 = YOLO \<and> arm_command (chars ''#SAFE'' @ r) 5 = SAFE \<and>
   arm_command (chars ''EN_SLOCK'' @ r) 8 = EN_SLOCK \<and>
   arm_command (chars ''DI_SLOCK'' @ r) 8 = DI_SLOCK"
  by (simp add: arm_command_def matches_def cstring_def chars_def of_char_def)

end
