(* ===== verification/Rollcontrol.thy ===== *)
theory Rollcontrol
  imports Arm Utils_Time
begin

text \<open>
  \<open>src/src/rollcontrol.c\<close>: the controller that turns the state estimate into canard angles, and the
  logic that enables and disables the servos. \<open>exp\<close> of the C library is the argument \<open>cexp\<close>.
  \<open>get_psas_time\<close> reads the clock \<open>clk\<close>; \<open>rc_reads\<close> counts the readings of this module. A division
  by zero, whose result would not be finite, makes an operation return \<open>None\<close>.
\<close>

section \<open>Constants and state\<close>

definition Kp :: rat where "Kp = 5"
definition Ki :: rat where "Ki = lit (1 / 100)"
definition Kd :: rat where "Kd = 0"
definition pidTarget :: rat where "pidTarget = 0"
definition integrator_max :: rat where "integrator_max = fdiv 100 Ki"
definition integrator_min :: rat where "integrator_min = fdiv (- 100) Ki"

definition FINFIT_A :: rat where "FINFIT_A = lit (6 / 10000)"
definition FINFIT_B :: rat where "FINFIT_B = lit (45 / 1000)"
definition FIN_CBASE :: rat where "FIN_CBASE = lit (32 / 10)"
definition FIN_AREA :: rat where "FIN_AREA = lit (113 / 100000)"
definition FIN_ARM :: rat where "FIN_ARM = lit (85 / 1000)"
definition I_INIT :: rat where "I_INIT = lit (86 / 1000)"
definition I_BO :: rat where "I_BO = lit (77 / 1000)"
definition EXPECTED_BURN_TIME :: rat where "EXPECTED_BURN_TIME = lit (57 / 10)"
definition SUBSONIC :: rat where "SUBSONIC = 265"
definition SUPERSONIC :: rat where "SUPERSONIC = 330"
definition MAX_CANARD_ANGLE :: rat where "MAX_CANARD_ANGLE = 15"
definition MIN_CANARD_ANGLE :: rat where "MIN_CANARD_ANGLE = -15"
definition M_PI :: rat where "M_PI = lit (314159265358979323846 / 100000000000000000000)"

definition degreesToRadians :: "rat \<Rightarrow> rat" where
  "degreesToRadians angleDegrees = fdiv (fmul angleDegrees M_PI) 180"

definition radiansToDegrees :: "rat \<Rightarrow> rat" where
  "radiansToDegrees angleRadians = fdiv (fmul angleRadians 180) M_PI"

definition TIMEOUT :: u64 where "TIMEOUT = 120 * 1000000000"

record rc_state =
  lastError :: rat
  integrator :: rat
  enable_servo :: bool
  armed :: bool
  launched :: bool
  timeout :: u64
  rc_reads :: nat

definition rc_static :: rc_state where
  "rc_static = \<lparr>lastError = 0, integrator = 0, enable_servo = False, armed = False,
     launched = False, timeout = 0, rc_reads = 0\<rparr>"

section \<open>Enabling\<close>

definition set_servo_enable :: "bool \<Rightarrow> rc_state \<Rightarrow> rc_state" where
  [run_simps]: "set_servo_enable enable s = s\<lparr>enable_servo := enable\<rparr>"

definition set_armed :: "bool \<Rightarrow> rc_state \<Rightarrow> rc_state" where
  [run_simps]: "set_armed arm s = set_servo_enable arm (s\<lparr>armed := arm\<rparr>)"

definition rollcontrol_init :: "socket_env \<Rightarrow> rc_state \<Rightarrow> rc_state \<times> int \<times> syscall list" where
  "rollcontrol_init env s =
     (let s = set_armed False s; (sd, calls) = udp_socket env
      in if sd < 0 then (s, sd, calls)
         else let calls = calls @ [Connect sd RC_SERVO_ENABLE_ADDR]
              in if connect_ret env < 0 then (s, sd, calls @ [Close sd]) else (s, sd, calls))"

definition set_canard_angle :: "clock \<Rightarrow> rat \<Rightarrow> rc_state \<Rightarrow> rc_state \<times> action list" where
  "set_canard_angle clk degrees s =
     (let degrees = CLAMP degrees MIN_CANARD_ANGLE MAX_CANARD_ANGLE;
          out = \<lparr>roll_ID = ''ROLL'', roll_timestamp = get_psas_time clk (rc_reads s),
                 roll_data_length = word_of_nat (struct_size RollServoData),
                 angle = double_bits degrees, disable = (if enable_servo s then 0 else 1)\<rparr>
      in (s\<lparr>rc_reads := rc_reads s + 1\<rparr>, [Send (rc_send_servo out)]))"

section \<open>Fin model\<close>

definition checked_div :: "rat \<Rightarrow> rat \<Rightarrow> rat option" where
  "checked_div x y = (if y = 0 then None else Some (fdiv x y))"

definition subsonic_fin :: "rat \<Rightarrow> rat \<Rightarrow> rat \<Rightarrow> state_data \<Rightarrow> rat option" where
  "subsonic_fin set_aa_rad I rd state =
     (let v = vel_up state in do {
        q \<leftarrow> checked_div \<bar>fmul (fmul (fmul 2 set_aa_rad) I) FINFIT_A\<bar>
               (fmul (fmul (fmul (fmul rd v) v) FIN_AREA) FIN_ARM);
        let alpha = fsub (fsqrt (fadd q (fmul FINFIT_B FINFIT_B))) FINFIT_B;
        let alpha = fdiv alpha (fmul 2 FINFIT_A);
        Some alpha
      })"

definition supersonic_fin :: "rat \<Rightarrow> rat \<Rightarrow> rat \<Rightarrow> state_data \<Rightarrow> rat option" where
  "supersonic_fin set_aa_rad I rd state =
     (let v = vel_up state in do {
        alpha \<leftarrow> checked_div (fmul set_aa_rad I)
          (fmul (fmul (fmul (fmul (fmul (fmul 2 rd) v) v) FIN_AREA) FIN_ARM) FIN_CBASE);
        Some (radiansToDegrees alpha)
      })"

definition inertia :: "rat \<Rightarrow> rat" where
  "inertia t = (if t < EXPECTED_BURN_TIME
     then fadd I_INIT (fmul (fsub I_BO I_INIT) (fdiv t EXPECTED_BURN_TIME)) else I_BO)"

definition air_density :: "(rat \<Rightarrow> rat) \<Rightarrow> rat \<Rightarrow> rat" where
  "air_density cexp alt =
     fmul (lit (12250 / 10000))
       (cexp (fdiv (fmul (fmul (- lit (980665 / 100000)) (lit (289644 / 10000000))) alt)
                   (fmul (lit (831432 / 100000)) (lit (28815 / 100)))))"

definition estimate_alpha :: "(rat \<Rightarrow> rat) \<Rightarrow> rat \<Rightarrow> state_data \<Rightarrow> rat option" where
  "estimate_alpha cexp set_aa state =
     (let velocity = vel_up state; t = time state
      in if \<bar>set_aa\<bar> < 1 \<or> velocity < 1 then Some 0
         else do {
           let aa = \<bar>degreesToRadians set_aa\<bar>;
           let I = inertia t;
           let rd = air_density cexp (altitude state);
           output \<leftarrow>
             (if velocity \<le> SUBSONIC then subsonic_fin aa I rd state
              else if velocity < SUPERSONIC then do {
                y0 \<leftarrow> subsonic_fin aa I rd state;
                y1 \<leftarrow> supersonic_fin aa I rd state;
                Some (fadd y0 (fdiv (fmul (fsub y1 y0) (fsub velocity SUBSONIC))
                                    (fsub SUPERSONIC SUBSONIC)))
              }
              else supersonic_fin aa I rd state);
           if set_aa < 0 then Some (- output) else Some output
         })"

section \<open>Receivers\<close>

definition rc_raw_umb :: "rc_state \<Rightarrow> packet \<Rightarrow> (rc_state \<times> action list) option" where
  "rc_raw_umb s p =
     (if \<not> memcmp_zero (ID p) ''RNHU'' 4 then Some (s, [])
      else do {
        detect \<leftarrow> field8 RNHUmbdet ''detect'' (data p);
        s \<leftarrow> (if \<not> launched s \<and> detect = 0
              then do { t \<leftarrow> from_psas_time (timestamp p); Some (s\<lparr>timeout := t + TIMEOUT\<rparr>) }
              else Some s);
        Some (s\<lparr>launched := (detect = 0)\<rparr>, [])
      })"

definition check_timeout :: "clock \<Rightarrow> bytes \<Rightarrow> rc_state \<Rightarrow> (rc_state \<times> action list) option" where
  "check_timeout clk ts s =
     (if \<not> launched s \<or> \<not> enable_servo s then Some (s, [])
      else do {
        t \<leftarrow> from_psas_time ts;
        if t > timeout s then Some (set_canard_angle clk 0 (set_servo_enable False s))
        else Some (s, [])
      })"

definition pid_correction :: "rat \<Rightarrow> rc_state \<Rightarrow> rat" where
  "pid_correction error s =
     (let proportional = fmul Kp error;
          integral = fmul Ki (integrator s);
          derivative = fmul Kd (fsub error (lastError s))
      in fadd (fadd proportional integral) derivative)"

definition pid_update :: "rat \<Rightarrow> rc_state \<Rightarrow> rc_state" where
  "pid_update error s =
     (let s = s\<lparr>lastError := error\<rparr>;
          s = s\<lparr>integrator := fadd (integrator s) error\<rparr>
      in if integrator s > integrator_max then s\<lparr>integrator := integrator_max\<rparr>
         else if integrator s < integrator_min then s\<lparr>integrator := integrator_min\<rparr>
         else s)"

definition rc_receive_state ::
  "clock \<Rightarrow> (rat \<Rightarrow> rat) \<Rightarrow> rc_state \<Rightarrow> string \<Rightarrow> bytes \<Rightarrow> state_data
    \<Rightarrow> (rc_state \<times> action list) option" where
  "rc_receive_state clk cexp s i ts state = do {
     (s, out) \<leftarrow> check_timeout clk ts s;
     if \<not> enable_servo s then Some (s, out)
     else if \<not> memcmp_zero i ''VSTE'' 4 then Some (s, out)
     else do {
       let error = fsub pidTarget (roll_rate state);
       let correction = pid_correction error s;
       let s = pid_update error s;
       output \<leftarrow> estimate_alpha cexp correction state;
       let (s, out') = set_canard_angle clk output s;
       Some (s, out @ out')
     }
   }"

definition rc_receive_arm :: "clock \<Rightarrow> rc_state \<Rightarrow> string \<Rightarrow> rc_state \<times> action list" where
  "rc_receive_arm clk s signal =
     (if signal = ''ARM'' then (set_armed True s, [])
      else if signal = ''SAFE'' then set_canard_angle clk 0 (set_armed False s)
      else (s, []))"

definition send_servo_response :: "string \<Rightarrow> action list" where
  "send_servo_response msg = [Write ServoEnableSocket (chars msg)]"

definition rc_raw_testrc ::
  "clock \<Rightarrow> rc_state \<Rightarrow> bytes \<Rightarrow> u32 \<Rightarrow> (rc_state \<times> action list) option" where
  "rc_raw_testrc clk s buffer len =
     (if \<not> armed s then do {
        m \<leftarrow> COMPARE_BUFFER_TO_CMD buffer ''ENABLE'' (unat len);
        if m then Some (set_servo_enable True s, send_servo_response ''Roll control servos enabled'')
        else do {
          m \<leftarrow> COMPARE_BUFFER_TO_CMD buffer ''DISABLE'' (unat len);
          if m then
            let (s, out) = set_canard_angle clk 0 (set_servo_enable False s)
            in Some (s, out @ send_servo_response ''Roll control servos disabled'')
          else Some (s, send_servo_response ''Unknown servo command'')
        }
      }
      else Some (s, send_servo_response ''Roll control servos state not changed due to being armed''))"

text \<open>The receivers of the module, as the events it reacts to.\<close>

datatype rc_event = RcState string bytes state_data | RcArm string | RcUmb packet | RcTest bytes u32

fun rc_step :: "clock \<Rightarrow> (rat \<Rightarrow> rat) \<Rightarrow> rc_state \<Rightarrow> rc_event \<Rightarrow> (rc_state \<times> action list) option" where
  "rc_step clk cexp s (RcState i ts st) = rc_receive_state clk cexp s i ts st"
| "rc_step clk cexp s (RcArm signal) = Some (rc_receive_arm clk s signal)"
| "rc_step clk cexp s (RcUmb p) = rc_raw_umb s p"
| "rc_step clk cexp s (RcTest buffer len) = rc_raw_testrc clk s buffer len"

end
