(* ===== verification/Rollcontrol_Proofs.thy ===== *)
theory Rollcontrol_Proofs
  imports Rollcontrol Arm_Proofs
begin

text \<open>
  The controller: its invariant, the range and sign of the angles it commands, and when the servos
  are enabled.
\<close>

section \<open>Angles\<close>

text \<open>The angle that goes out for a requested one.\<close>

definition canard_angle :: "rat \<Rightarrow> rat" where
  "canard_angle degrees = CLAMP degrees MIN_CANARD_ANGLE MAX_CANARD_ANGLE"

definition roll_message :: "clock \<Rightarrow> nat \<Rightarrow> rat \<Rightarrow> bool \<Rightarrow> ROLLMessage" where
  "roll_message clk k d dis = \<lparr>roll_ID = ''ROLL'', roll_timestamp = get_psas_time clk k,
     roll_data_length = 9, angle = double_bits d, disable = (if dis then 1 else 0)\<rparr>"

lemma set_canard_angle_eq:
  "set_canard_angle clk d s = (s\<lparr>rc_reads := rc_reads s + 1\<rparr>,
     [Send (rc_send_servo (roll_message clk (rc_reads s) (canard_angle d) (\<not> enable_servo s)))])"
  by (simp add: set_canard_angle_def canard_angle_def roll_message_def Let_def)

lemma canard_angle_range: "-15 \<le> canard_angle d" "canard_angle d \<le> 15"
  unfolding canard_angle_def MIN_CANARD_ANGLE_def MAX_CANARD_ANGLE_def
  by (rule CLAMP_bounds, simp)+

lemma canard_angle_double: "is_double d \<Longrightarrow> is_double (canard_angle d)"
  by (simp add: canard_angle_def CLAMP_def MIN_CANARD_ANGLE_def MAX_CANARD_ANGLE_def)

lemma canard_angle_0 [simp]: "canard_angle 0 = 0"
  by (simp add: canard_angle_def CLAMP_def MIN_CANARD_ANGLE_def MAX_CANARD_ANGLE_def)

lemma canard_angle_sign: "0 \<le> d \<Longrightarrow> 0 \<le> canard_angle d" "d \<le> 0 \<Longrightarrow> canard_angle d \<le> 0"
  by (simp_all add: canard_angle_def CLAMP_def MIN_CANARD_ANGLE_def MAX_CANARD_ANGLE_def)

lemma double_of_canard_bits:
  assumes "is_double d"
  shows "double_of_bits (double_bits (canard_angle d)) = Some (canard_angle d)"
proof (rule double_of_double_bits)
  show "is_double (canard_angle d)" using assms by (rule canard_angle_double)
  have "\<bar>canard_angle d\<bar> \<le> 15" using canard_angle_range [of d] by (simp add: abs_le_iff)
  also have "15 < (2::rat) powi 4" by simp
  also have "\<dots> \<le> 2 powi 1024" by (simp only: powi_le_iff)
  finally show "\<bar>canard_angle d\<bar> < 2 powi 1024" .
qed

section \<open>The fin model is defined where the air is not a vacuum\<close>

definition dense :: "(rat \<Rightarrow> rat) \<Rightarrow> state_data \<Rightarrow> bool" where
  "dense cexp st \<longleftrightarrow> 2 powi (-900) \<le> air_density cexp (altitude st)"

lemma fmul_ge: "is_double x \<Longrightarrow> 0 \<le> x \<Longrightarrow> 1 \<le> v \<Longrightarrow> x \<le> fmul x v"
  unfolding fmul_def is_double_def
  by (rule round64.ge_fixed) (simp_all add: mult_le_cancel_left1)

lemma fmul_ge_powi:
  assumes "2 powi a \<le> x" and "2 powi b \<le> y" and "- 1022 \<le> a + b"
  shows "2 powi (a + b) \<le> fmul x y"
proof -
  have "(2::rat) powi (a + b) = 2 powi a * 2 powi b" by (simp add: power_int_add)
  also have "\<dots> \<le> x * y" using assms by (intro mult_mono) (auto intro: order_trans [of _ "2 powi a"])
  finally have "2 powi (a + b) \<le> x * y" .
  moreover have "round64 (2 powi (a + b)) = 2 powi (a + b)"
    using assms(3) by (intro round64_fixes [of _ 1 "a + b"]) simp_all
  ultimately show ?thesis unfolding fmul_def by (intro round64.ge_fixed)
qed

lemma fin_constants:
  "2 powi (-10) \<le> FIN_AREA" "2 powi (-4) \<le> FIN_ARM" "2 powi 0 \<le> FIN_CBASE"
proof -
  show "2 powi (-10) \<le> FIN_AREA" by code_simp
  show "2 powi (-4) \<le> FIN_ARM" by code_simp
  show "2 powi 0 \<le> FIN_CBASE" by code_simp
qed

lemma denominators_ge:
  assumes "2 powi (-900) \<le> rd" and "is_double rd" and "1 \<le> v"
  shows "2 powi (-914) \<le> fmul (fmul (fmul (fmul rd v) v) FIN_AREA) FIN_ARM"
    and "2 powi (-914) \<le> fmul (fmul (fmul (fmul (fmul (fmul 2 rd) v) v) FIN_AREA) FIN_ARM) FIN_CBASE"
proof -
  have tail: "2 powi (-914) \<le> fmul (fmul x FIN_AREA) FIN_ARM" if "2 powi (-900) \<le> x" for x
    using fmul_ge_powi [OF fmul_ge_powi [OF that fin_constants(1)] fin_constants(2)] by simp
  have vv: "2 powi (-900) \<le> fmul (fmul x v) v" if "2 powi (-900) \<le> x" "is_double x" for x
  proof -
    have "(0::rat) < 2 powi (-900)" by simp
    with that have "0 \<le> x" by linarith
    then have "x \<le> fmul x v" using that assms(3) by (intro fmul_ge)
    also have "fmul x v \<le> fmul (fmul x v) v"
      using assms(3) \<open>0 \<le> x\<close> by (intro fmul_ge) (simp_all add: float_nonneg)
    finally show ?thesis using that(1) by simp
  qed
  show "2 powi (-914) \<le> fmul (fmul (fmul (fmul rd v) v) FIN_AREA) FIN_ARM"
    by (rule tail [OF vv [OF assms(1,2)]])
  have "2 powi (1 + - 900) \<le> fmul 2 rd"
    using assms(1) by (intro fmul_ge_powi) simp_all
  moreover have "2 powi (-900) \<le> (2::rat) powi (1 + - 900)" by (simp only: powi_le_iff)
  ultimately have "2 powi (-900) \<le> fmul 2 rd" by linarith
  from fmul_ge_powi [OF tail [OF vv [OF this]] fin_constants(3)]
  show "2 powi (-914) \<le> fmul (fmul (fmul (fmul (fmul (fmul 2 rd) v) v) FIN_AREA) FIN_ARM) FIN_CBASE"
    by simp
qed

lemma denominators:
  assumes "2 powi (-900) \<le> rd" and "is_double rd" and "1 \<le> v"
  shows "0 < fmul (fmul (fmul (fmul rd v) v) FIN_AREA) FIN_ARM"
    and "0 < fmul (fmul (fmul (fmul (fmul (fmul 2 rd) v) v) FIN_AREA) FIN_ARM) FIN_CBASE"
proof -
  have pos: "0 < y" if "2 powi (-914) \<le> y" for y :: rat
    using that by (rule less_le_trans [rotated]) simp
  show "0 < fmul (fmul (fmul (fmul rd v) v) FIN_AREA) FIN_ARM"
    "0 < fmul (fmul (fmul (fmul (fmul (fmul 2 rd) v) v) FIN_AREA) FIN_ARM) FIN_CBASE"
    by (rule pos, rule denominators_ge [OF assms])+
qed

lemma air_density_double: "is_double (air_density cexp h)"
  by (simp add: air_density_def)

lemma fins_defined:
  assumes "dense cexp st" and "1 \<le> vel_up st"
  defines "rd \<equiv> air_density cexp (altitude st)"
  shows "\<exists>y. subsonic_fin aa I rd st = Some y \<and> is_double y"
    and "\<exists>y. supersonic_fin aa I rd st = Some y \<and> is_double y"
  using denominators [of rd "vel_up st"] assms air_density_double
  by (auto simp: subsonic_fin_def supersonic_fin_def checked_div_def dense_def Let_def
      radiansToDegrees_def)

lemma estimate_alpha_defined:
  assumes "dense cexp st"
  shows "\<exists>y. estimate_alpha cexp aa st = Some y \<and> is_double y"
proof (cases "\<bar>aa\<bar> < 1 \<or> vel_up st < 1")
  case True
  then show ?thesis by (simp add: estimate_alpha_def)
next
  case False
  then have v: "1 \<le> vel_up st" by simp
  let ?r = "\<bar>degreesToRadians aa\<bar>" and ?I = "inertia (time st)"
    and ?rd = "air_density cexp (altitude st)"
  obtain y0 y1 where "subsonic_fin ?r ?I ?rd st = Some y0" "is_double y0"
    "supersonic_fin ?r ?I ?rd st = Some y1" "is_double y1"
    using fins_defined [OF assms v] by blast
  with False show ?thesis by (auto simp: estimate_alpha_def Let_def)
qed

section \<open>Invariant and contract\<close>

lemma integrator_limits: "integrator_max = 10000" "integrator_min = -10000"
proof -
  show 1: "integrator_max = 10000" by code_simp
  show "integrator_min = -10000"
    using 1 by (simp add: integrator_max_def integrator_min_def float_minus)
qed

definition rc_inv :: "rc_state \<Rightarrow> bool" where
  "rc_inv s \<longleftrightarrow> \<bar>integrator s\<bar> \<le> 10000"

fun rc_admissible :: "(rat \<Rightarrow> rat) \<Rightarrow> rc_event \<Rightarrow> bool" where
  "rc_admissible cexp (RcState i ts st) \<longleftrightarrow> 6 \<le> length ts \<and> dense cexp st"
| "rc_admissible cexp (RcArm signal) \<longleftrightarrow> True"
| "rc_admissible cexp (RcUmb p) \<longleftrightarrow> 6 \<le> length (timestamp p) \<and> data p \<noteq> []"
| "rc_admissible cexp (RcTest buffer len) \<longleftrightarrow> unat len \<le> length buffer"

definition servo_message_ok :: "ROLLMessage \<Rightarrow> bool" where
  "servo_message_ok m \<longleftrightarrow> roll_ID m = ''ROLL'' \<and> length (roll_timestamp m) = 6 \<and>
     roll_data_length m = 9 \<and> (disable m = 0 \<or> disable m = 1) \<and>
     (\<exists>d. double_of_bits (angle m) = Some d \<and> is_double d \<and> -15 \<le> d \<and> d \<le> 15)"

fun rc_allowed :: "action \<Rightarrow> bool" where
  "rc_allowed (Send (rc_send_servo m)) \<longleftrightarrow> servo_message_ok m"
| "rc_allowed (Send _) \<longleftrightarrow> False"
| "rc_allowed (Write c bs) \<longleftrightarrow> c = ServoEnableSocket"

lemma servo_message_ok_roll:
  "is_double d \<Longrightarrow> servo_message_ok (roll_message clk k (canard_angle d) dis)"
  using canard_angle_double [of d] canard_angle_range [of d] double_of_canard_bits [of d]
  by (auto simp: servo_message_ok_def roll_message_def)

lemma servo_message_ok_0 [simp]: "servo_message_ok (roll_message clk k 0 dis)"
  using servo_message_ok_roll [of 0] by simp

lemma pid_update_inv: "rc_inv (pid_update e s)"
  by (simp add: pid_update_def rc_inv_def Let_def integrator_limits abs_le_iff)

lemma pid_update_fields [simp]:
  "enable_servo (pid_update e s) = enable_servo s" "armed (pid_update e s) = armed s"
  "launched (pid_update e s) = launched s" "timeout (pid_update e s) = timeout s"
  "rc_reads (pid_update e s) = rc_reads s"
  by (simp_all add: pid_update_def Let_def)

text \<open>The two checks of the timer: whether it is running, and whether it has run out.\<close>

definition timed_out :: "bytes \<Rightarrow> rc_state \<Rightarrow> bool" where
  "timed_out ts s \<longleftrightarrow> launched s \<and> enable_servo s \<and> timeout s < word_of_nat (of_be (take 6 ts))"

lemma check_timeout_eq:
  assumes "6 \<le> length ts"
  shows "check_timeout clk ts s = Some (if timed_out ts s
    then (s\<lparr>enable_servo := False, rc_reads := rc_reads s + 1\<rparr>,
          [Send (rc_send_servo (roll_message clk (rc_reads s) 0 True))])
    else (s, []))"
  using assms by (simp add: check_timeout_def timed_out_def from_psas_time_of_be set_servo_enable_def
      set_canard_angle_eq)

lemma rc_receive_state_idle:
  assumes "6 \<le> length ts" and "\<not> enable_servo s"
  shows "rc_receive_state clk cexp s i ts st = Some (s, [])"
  using assms by (simp add: rc_receive_state_def check_timeout_eq timed_out_def)

lemma rc_receive_state_timeout:
  assumes "6 \<le> length ts" and "timed_out ts s"
  shows "rc_receive_state clk cexp s i ts st =
    Some (s\<lparr>enable_servo := False, rc_reads := rc_reads s + 1\<rparr>,
          [Send (rc_send_servo (roll_message clk (rc_reads s) 0 True))])"
  using assms by (simp add: rc_receive_state_def check_timeout_eq)

lemma rc_receive_state_active:
  assumes "6 \<le> length ts" and "\<not> timed_out ts s" and "enable_servo s" and "take 4 i = ''VSTE''"
    and "estimate_alpha cexp (pid_correction (fsub pidTarget (roll_rate st)) s) st = Some y"
  shows "rc_receive_state clk cexp s i ts st =
    Some ((pid_update (fsub pidTarget (roll_rate st)) s)\<lparr>rc_reads := rc_reads s + 1\<rparr>,
          [Send (rc_send_servo (roll_message clk (rc_reads s) (canard_angle y) False))])"
  using assms
  by (simp add: rc_receive_state_def check_timeout_eq memcmp_zero_def set_canard_angle_eq)

lemma rc_receive_state_other:
  assumes "6 \<le> length ts" and "\<not> timed_out ts s" and "take 4 i \<noteq> ''VSTE''"
  shows "rc_receive_state clk cexp s i ts st = Some (s, [])"
  using assms by (simp add: rc_receive_state_def check_timeout_eq memcmp_zero_def)

lemma rc_raw_umb_eq:
  assumes "6 \<le> length (timestamp p)" and "data p \<noteq> []"
  shows "rc_raw_umb s p = Some (if take 4 (ID p) \<noteq> ''RNHU'' then s else
    s\<lparr>launched := (data p ! 0 = 0),
      timeout := (if \<not> launched s \<and> data p ! 0 = 0
                  then word_of_nat (of_be (take 6 (timestamp p))) + TIMEOUT else timeout s)\<rparr>, [])"
  using assms
  by (simp add: rc_raw_umb_def memcmp_zero_def load8_def from_psas_time_of_be)

lemma rc_receive_arm_eq:
  "rc_receive_arm clk s signal =
    (if signal = ''ARM'' then (s\<lparr>armed := True, enable_servo := True\<rparr>, [])
     else if signal = ''SAFE'' then
       (s\<lparr>armed := False, enable_servo := False, rc_reads := rc_reads s + 1\<rparr>,
        [Send (rc_send_servo (roll_message clk (rc_reads s) 0 True))])
     else (s, []))"
  by (simp add: rc_receive_arm_def set_armed_def set_servo_enable_def set_canard_angle_eq)

lemma rc_raw_testrc_eq:
  assumes "unat len \<le> length buffer"
  shows "rc_raw_testrc clk s buffer len = Some (
    if armed s
    then (s, [Write ServoEnableSocket
              (chars ''Roll control servos state not changed due to being armed'')])
    else if matches buffer (unat len) ''ENABLE''
    then (s\<lparr>enable_servo := True\<rparr>, [Write ServoEnableSocket (chars ''Roll control servos enabled'')])
    else if matches buffer (unat len) ''DISABLE''
    then (s\<lparr>enable_servo := False, rc_reads := rc_reads s + 1\<rparr>,
          [Send (rc_send_servo (roll_message clk (rc_reads s) 0 True)),
           Write ServoEnableSocket (chars ''Roll control servos disabled'')])
    else (s, [Write ServoEnableSocket (chars ''Unknown servo command'')]))"
proof -
  have "COMPARE_BUFFER_TO_CMD buffer ''ENABLE'' (unat len) = Some (matches buffer (unat len) ''ENABLE'')"
    "COMPARE_BUFFER_TO_CMD buffer ''DISABLE'' (unat len) = Some (matches buffer (unat len) ''DISABLE'')"
    using assms by (intro compare_matches; simp add: chars_def of_char_def)+
  then show ?thesis
    by (simp add: rc_raw_testrc_def set_servo_enable_def set_canard_angle_eq send_servo_response_def)
qed

interpretation rc: component "rc_step clk cexp" rc_inv "rc_admissible cexp" rc_allowed for clk cexp
proof unfold_locales
  fix s e assume s: "rc_inv s" and e: "rc_admissible cexp e"
  show "\<exists>s' os. rc_step clk cexp s e = Some (s', os) \<and> rc_inv s' \<and> (\<forall>x\<in>set os. rc_allowed x)"
  proof (cases e)
    case (RcState i ts st)
    with e have ts: "6 \<le> length ts" and "dense cexp st" by simp_all
    then obtain y where y: "is_double y"
      "estimate_alpha cexp (pid_correction (fsub pidTarget (roll_rate st)) s) st = Some y"
      using estimate_alpha_defined by blast
    consider "timed_out ts s" | "\<not> enable_servo s" | "\<not> timed_out ts s" "take 4 i \<noteq> ''VSTE''"
      | "\<not> timed_out ts s" "enable_servo s" "take 4 i = ''VSTE''" by blast
    then show ?thesis
    proof cases
      case 4
      with RcState rc_receive_state_active [OF ts _ _ _ y(2)]
        pid_update_inv [of "fsub pidTarget (roll_rate st)" s] y(1) servo_message_ok_roll
      show ?thesis by (simp add: rc_inv_def)
    qed (use RcState s ts in \<open>simp_all add: rc_receive_state_timeout rc_receive_state_idle
        rc_receive_state_other rc_inv_def\<close>)
  qed (use s e in \<open>simp_all add: rc_receive_arm_eq rc_raw_umb_eq rc_raw_testrc_eq rc_inv_def\<close>)
qed

end
