(* ===== verification/Rollcontrol_Fins.thy ===== *)
theory Rollcontrol_Fins
  imports Rollcontrol_Proofs
begin

text \<open>
  The sign of the fin model. In every speed range, and through every rounding, the estimated
  angle has the sign of the requested angular acceleration, so the controller never steers the
  wrong way.
\<close>

section \<open>Rounding errors\<close>

lemma rne_le_half: "of_int (rne x) \<le> (x :: rat) + 1 / 2"
proof -
  have f: "of_int \<lfloor>x\<rfloor> \<le> x" by simp
  show ?thesis
  proof (cases "x - of_int \<lfloor>x\<rfloor> < 1 / 2")
    case True
    then have "rne x = \<lfloor>x\<rfloor>" by (simp only: rne_def Let_def if_True)
    with f show ?thesis by linarith
  next
    case False
    have "of_int (rne x) \<le> (of_int (\<lfloor>x\<rfloor> + 1) :: rat)"
      using rne_floor(2) [of x] by (simp only: of_int_le_iff)
    then show ?thesis using False by simp
  qed
qed

lemma round64_le_rel:
  assumes "2 powi (-1022) \<le> x"
  shows "round64 x \<le> x * (1 + 2 powi (-53))"
proof -
  have "(0::rat) < 2 powi (-1022)" by simp
  then have x: "0 < x" using assms by linarith
  have "(2::rat) powi (-1022) < 2 powi (ilog2 x + 1)" using ilog2(2) [OF x] assms by linarith
  then have "-1022 < ilog2 x + 1" by (simp only: powi_less_iff)
  then have e: "expo x = ilog2 x" using x by (simp add: expo_def)
  let ?u = "2 powi (ilog2 x - 52) :: rat"
  have "round64 x = of_int (rne (x / ?u)) * ?u" using x by (simp add: round64_def round_at_def e)
  also have "\<dots> \<le> (x / ?u + 1 / 2) * ?u" by (intro mult_right_mono rne_le_half) simp
  also have "\<dots> = x + ?u / 2" by (simp add: distrib_right)
  also have "?u / 2 = 2 powi ilog2 x * 2 powi (-53)"
    by (simp add: power_int_diff power_int_minus field_simps)
  also have "\<dots> \<le> x * 2 powi (-53)" using ilog2(1) [OF x] by (intro mult_right_mono) simp_all
  finally show ?thesis by (simp add: distrib_left)
qed

section \<open>Subsonic and supersonic\<close>

lemma FINFIT_B: "FINFIT_B = of_int 6485183463413514 * 2 powi (-57)"
  by code_simp

lemma sqrt_B: "fsqrt (fmul FINFIT_B FINFIT_B) = FINFIT_B"
  by code_simp

lemma BB_lower: "2 powi (-9) \<le> fmul FINFIT_B FINFIT_B"
  by code_simp

lemma A_bounds: "0 < fmul 2 FINFIT_A" "fmul 2 FINFIT_A \<le> 1"
proof -
  show "0 < fmul 2 FINFIT_A" by code_simp
  show "fmul 2 FINFIT_A \<le> 1" by code_simp
qed

lemma fsqrt_grid:
  assumes "2 powi (-9) \<le> x"
  shows "\<exists>n. fsqrt x = of_int n * 2 powi (-57)"
proof -
  have "(0::rat) < 2 powi (-9)" by simp
  then have x: "0 < x" using assms by linarith
  have "(2::rat) powi (-9) < 2 powi (ilog2 x + 1)" using ilog2(2) [OF x] assms by linarith
  then have "-9 < ilog2 x + 1" by (simp only: powi_less_iff)
  then have e: "0 \<le> ilog2 x div 2 - 52 + 57" by linarith
  define k where "k = nat (ilog2 x div 2 - 52 + 57)"
  then have E: "ilog2 x div 2 - 52 = int k + - 57" using e by simp
  have "(2::rat) powi (ilog2 x div 2 - 52) = of_int (2 ^ k) * 2 powi (-57)"
    unfolding E by (subst power_int_add) simp_all
  then have "fsqrt x = of_int (rne_sqrt (x / (2 powi (ilog2 x div 2 - 52))\<^sup>2) * 2 ^ k) * 2 powi (-57)"
    using x by (simp add: fsqrt_def Let_def)
  then show ?thesis by blast
qed

lemma subsonic_shape:
  assumes "0 \<le> q" and "is_double q"
  defines "y \<equiv> fdiv (fsub (fsqrt (fadd q (fmul FINFIT_B FINFIT_B))) FINFIT_B) (fmul 2 FINFIT_A)"
  shows "y = 0 \<or> 2 powi (-57) \<le> y"
proof -
  define x where "x = fadd q (fmul FINFIT_B FINFIT_B)"
  have x: "fmul FINFIT_B FINFIT_B \<le> x" using assms(1) by (simp add: x_def float_add_ge)
  then have "FINFIT_B \<le> fsqrt x" using fsqrt_mono [OF x] by (simp add: sqrt_B)
  moreover obtain n where n: "fsqrt x = of_int n * 2 powi (-57)"
    using fsqrt_grid BB_lower x by (meson order_trans)
  ultimately have "(of_int 6485183463413514 :: rat) \<le> of_int n"
    unfolding FINFIT_B n by (subst (asm) mult_le_cancel_right_pos) simp_all
  then have nn: "6485183463413514 \<le> n" by (simp only: of_int_le_iff)
  have d: "fsqrt x - FINFIT_B = of_int (n - 6485183463413514) * 2 powi (-57)"
    unfolding n FINFIT_B by (simp add: left_diff_distrib)
  show ?thesis
  proof (cases "n = 6485183463413514")
    case True
    then have "fsqrt x - FINFIT_B = 0" by (simp add: d)
    then show ?thesis unfolding y_def x_def [symmetric] by (simp add: fsub_def)
  next
    case False
    then have "1 \<le> n - 6485183463413514" using nn by simp
    then have "(of_int 1 :: rat) \<le> of_int (n - 6485183463413514)" by (simp only: of_int_le_iff)
    then have "1 * 2 powi (-57) \<le> fsqrt x - FINFIT_B"
      unfolding d by (intro mult_right_mono) simp_all
    moreover have r: "round64 (2 powi (-57)) = 2 powi (-57)"
      by (rule round64_fixes [of _ 1 "-57"]) simp_all
    ultimately have s: "2 powi (-57) \<le> fsub (fsqrt x) FINFIT_B"
      unfolding fsub_def by (intro round64.ge_fixed) simp_all
    have "2 powi (-57) * 1 \<le> fsub (fsqrt x) FINFIT_B * (1 / fmul 2 FINFIT_A)"
      using s A_bounds by (intro mult_mono) (auto intro: order_trans [of _ "2 powi (-57)"])
    then have "2 powi (-57) \<le> y"
      unfolding y_def x_def [symmetric] fdiv_def by (intro round64.ge_fixed r) simp
    then show ?thesis ..
  qed
qed

lemma subsonic_fin_nonneg:
  assumes "subsonic_fin aa I rd st = Some y" and "2 powi (-900) \<le> rd" and "is_double rd"
    and "1 \<le> vel_up st"
  shows "y = 0 \<or> 2 powi (-57) \<le> y"
proof -
  obtain q where q: "q = fdiv \<bar>fmul (fmul (fmul 2 aa) I) FINFIT_A\<bar>
      (fmul (fmul (fmul (fmul rd (vel_up st)) (vel_up st)) FIN_AREA) FIN_ARM)"
    and y: "y = fdiv (fsub (fsqrt (fadd q (fmul FINFIT_B FINFIT_B))) FINFIT_B) (fmul 2 FINFIT_A)"
    using assms(1) by (auto simp: subsonic_fin_def checked_div_def Let_def split: if_splits)
  have "0 \<le> q" unfolding q using denominators(1) [OF assms(2-4)] by (intro float_nonneg(3)) simp_all
  then show ?thesis unfolding y by (rule subsonic_shape) (simp add: q)
qed

lemma inertia_bounds:
  "fdiv EXPECTED_BURN_TIME EXPECTED_BURN_TIME = 1" "0 < EXPECTED_BURN_TIME"
  "fsub I_BO I_INIT \<le> 0" "0 \<le> I_INIT + fsub I_BO I_INIT" "0 \<le> I_BO" "0 \<le> M_PI"
proof -
  show "fdiv EXPECTED_BURN_TIME EXPECTED_BURN_TIME = 1" by code_simp
  show "0 < EXPECTED_BURN_TIME" by code_simp
  show "fsub I_BO I_INIT \<le> 0" by code_simp
  show "0 \<le> I_INIT + fsub I_BO I_INIT" by code_simp
  show "0 \<le> I_BO" by code_simp
  show "0 \<le> M_PI" by code_simp
qed

lemma inertia_nonneg: "0 \<le> inertia t"
proof (cases "t < EXPECTED_BURN_TIME")
  case True
  have "t / EXPECTED_BURN_TIME \<le> EXPECTED_BURN_TIME / EXPECTED_BURN_TIME"
    using True inertia_bounds(2) by (intro divide_right_mono) auto
  then have "fdiv t EXPECTED_BURN_TIME \<le> 1"
    unfolding inertia_bounds(1) [symmetric] fdiv_def by (rule round64_mono)
  then have "fsub I_BO I_INIT * 1 \<le> fsub I_BO I_INIT * fdiv t EXPECTED_BURN_TIME"
    using inertia_bounds(3) by (intro mult_left_mono_neg)
  then have "fsub I_BO I_INIT \<le> fmul (fsub I_BO I_INIT) (fdiv t EXPECTED_BURN_TIME)"
    unfolding fmul_def by (intro round64.ge_fixed) (simp_all add: fsub_def)
  then have "0 \<le> I_INIT + fmul (fsub I_BO I_INIT) (fdiv t EXPECTED_BURN_TIME)"
    using inertia_bounds(4) by linarith
  then show ?thesis using True by (simp add: inertia_def fadd_def round64.nonneg)
next
  case False
  then show ?thesis by (simp add: inertia_def inertia_bounds)
qed

lemma supersonic_fin_nonneg:
  assumes "supersonic_fin aa I rd st = Some y" and "0 \<le> aa" and "0 \<le> I"
    and "2 powi (-900) \<le> rd" and "is_double rd" and "1 \<le> vel_up st"
  shows "0 \<le> y"
  using assms(1-3) denominators(2) [OF assms(4-6)] inertia_bounds(6)
  by (auto simp: supersonic_fin_def checked_div_def radiansToDegrees_def Let_def float_nonneg
      split: if_splits)

section \<open>The transonic interpolation\<close>

lemma transonic_grid:
  assumes "is_double v" and "265 < v" and "v < 330"
  shows "v \<le> 330 - 2 powi (-44)"
proof -
  have a: "\<bar>v\<bar> = v" using assms(2) by simp
  have "ilog2 v = 8" using assms(2,3) by (intro ilog2_unique) simp_all
  then have e: "expo v = 8" using a by (simp add: expo_def)
  have "v \<noteq> 0" using assms(2) by simp
  with assms(1) obtain m where "\<bar>v\<bar> = of_int m * 2 powi (expo v - 52)" by (rule double_parts)
  then have m: "v = of_int m * 2 powi (-44)" by (simp add: a e)
  have "of_int m * 2 powi (-44) < of_int (330 * 2 ^ 44) * (2::rat) powi (-44)"
    using assms(3) unfolding m by (simp add: power_int_minus)
  moreover have "(0::rat) < 2 powi (-44)" by simp
  ultimately have "(of_int m :: rat) < of_int (330 * 2 ^ 44)"
    using mult_less_cancel_right_pos by blast
  then have "m < 330 * 2 ^ 44" by (simp only: of_int_less_iff)
  then have "(of_int m :: rat) \<le> of_int (330 * 2 ^ 44 - 1)" by (simp only: of_int_le_iff)
  then have "of_int m * 2 powi (-44) \<le> of_int (330 * 2 ^ 44 - 1) * (2::rat) powi (-44)"
    by (intro mult_right_mono) simp_all
  then show ?thesis unfolding m by (simp add: power_int_minus)
qed

lemma interpolation_nonneg:
  assumes "is_double y0" and "y0 = 0 \<or> 2 powi (-57) \<le> y0" and "0 \<le> y1"
    and "0 \<le> w" and "w \<le> 65 - 2 powi (-44)"
  shows "0 \<le> fadd y0 (fdiv (fmul (fsub y1 y0) w) 65)"
proof -
  have y0: "0 \<le> y0" using assms(2) by (auto intro: order_trans [of _ "2 powi (-57)"])
  have "- y0 \<le> fsub y1 y0"
    unfolding fsub_def using assms(1,3) by (intro round64.ge_fixed) (simp_all add: is_double_def round64_minus)
  then have "(- y0) * w \<le> fsub y1 y0 * w" using assms(4) by (rule mult_right_mono)
  then have "fmul (- y0) w \<le> fmul (fsub y1 y0) w" unfolding fmul_def by (rule round64_mono)
  then have "fdiv (- fmul y0 w) 65 \<le> fdiv (fmul (fsub y1 y0) w) 65"
    unfolding fdiv_def float_minus by (intro round64_mono divide_right_mono) simp_all
  moreover have "fmul y0 w \<le> 65 * y0"
  proof (cases "2 powi (-1022) \<le> y0 * w")
    case True
    have "fmul y0 w \<le> y0 * w * (1 + 2 powi (-53))"
      unfolding fmul_def using True by (rule round64_le_rel)
    also have "\<dots> = y0 * (w * (1 + 2 powi (-53)))" by simp
    also have "\<dots> \<le> y0 * ((65 - 2 powi (-44)) * (1 + 2 powi (-53)))"
      using assms(5) y0 by (intro mult_left_mono mult_right_mono) simp_all
    also have "\<dots> \<le> y0 * 65"
      using y0 by (intro mult_left_mono) (simp_all add: power_int_minus)
    finally show ?thesis by simp
  next
    case False
    show ?thesis
    proof (cases "y0 = 0")
      case True
      then show ?thesis by simp
    next
      case nz: False
      have "fmul y0 w \<le> 2 powi (-1022)"
        unfolding fmul_def using False
        by (intro round64.le_fixed round64_fixes [of _ 1 "-1022"]) simp_all
      also have "\<dots> \<le> (2::rat) powi (-57)" by (simp only: powi_le_iff)
      also have "\<dots> \<le> y0" using assms(2) nz by simp
      finally show ?thesis using y0 by simp
    qed
  qed
  then have "fdiv (fmul y0 w) 65 \<le> y0"
    unfolding fdiv_def using assms(1) by (intro round64.le_fixed) (simp_all add: is_double_def)
  ultimately have "- y0 \<le> fdiv (fmul (fsub y1 y0) w) 65" by (simp add: float_minus)
  then show ?thesis by (simp add: fadd_def round64.nonneg)
qed

section \<open>The estimate\<close>

lemma estimate_alpha_nonneg:
  assumes "dense cexp st" and "is_double (vel_up st)" and "0 \<le> aa"
    and "estimate_alpha cexp aa st = Some y"
  shows "0 \<le> y"
proof (cases "\<bar>aa\<bar> < 1 \<or> vel_up st < 1")
  case True
  with assms(4) show ?thesis by (simp add: estimate_alpha_def)
next
  case False
  then have v: "1 \<le> vel_up st" by simp
  let ?r = "\<bar>degreesToRadians aa\<bar>" and ?I = "inertia (time st)"
    and ?rd = "air_density cexp (altitude st)"
  have rd: "2 powi (-900) \<le> ?rd" "is_double ?rd"
    using assms(1) by (simp_all add: dense_def air_density_double)
  obtain y0 y1 where y0: "subsonic_fin ?r ?I ?rd st = Some y0" "is_double y0"
    and y1: "supersonic_fin ?r ?I ?rd st = Some y1"
    using fins_defined [OF assms(1) v] by blast
  have n0: "y0 = 0 \<or> 2 powi (-57) \<le> y0" by (rule subsonic_fin_nonneg [OF y0(1) rd v])
  then have p0: "0 \<le> y0" by (auto intro: order_trans [of _ "2 powi (-57)"])
  have p1: "0 \<le> y1" by (rule supersonic_fin_nonneg [OF y1 _ inertia_nonneg rd v]) simp
  have w: "0 \<le> fsub (vel_up st) 265 \<and> fsub (vel_up st) 265 \<le> 65 - 2 powi (-44)"
    if "265 < vel_up st" "vel_up st < 330"
  proof
    show "0 \<le> fsub (vel_up st) 265" using that by (simp add: float_nonneg)
    have "65 - 2 powi (-44) = of_int (65 * 2 ^ 44 - 1) * (2::rat) powi (-44)"
      by (simp add: power_int_minus)
    then have "round64 (65 - 2 powi (-44)) = 65 - 2 powi (-44)"
      by (rule round64_fixes) simp_all
    then show "fsub (vel_up st) 265 \<le> 65 - 2 powi (-44)"
      unfolding fsub_def using transonic_grid [OF assms(2) that]
      by (intro round64.le_fixed) simp_all
  qed
  have "fsub (330 :: rat) 265 = 65" by (simp add: fsub_def)
  then show ?thesis
    using assms(3,4) False y0(1) y1 p0 p1 interpolation_nonneg [OF y0(2) n0 p1] w
    by (auto simp: estimate_alpha_def Let_def SUBSONIC_def SUPERSONIC_def split: if_splits)
qed

lemma estimate_alpha_minus:
  "estimate_alpha cexp (- aa) st = map_option uminus (estimate_alpha cexp aa st)"
proof -
  have "\<bar>degreesToRadians (- aa)\<bar> = \<bar>degreesToRadians aa\<bar>"
    by (simp add: degreesToRadians_def float_minus)
  then show ?thesis
    by (cases "\<bar>aa\<bar> < 1"; cases "vel_up st < 1"; cases "aa < 0")
      (auto simp: estimate_alpha_def Let_def split: Option.bind_splits)
qed

end
