(* ===== verification/Rollcontrol_Properties.thy ===== *)
theory Rollcontrol_Properties
  imports Rollcontrol_Fins
begin

text \<open>
  The properties of roll control: range and sign of the commanded angles, and the logic of
  arming, disarming, testing and the flight timer.
\<close>

section \<open>Disabled servos stay disabled\<close>

text \<open>The events that can enable the servos.\<close>

fun enabling :: "rc_event \<Rightarrow> bool" where
  "enabling (RcArm signal) \<longleftrightarrow> signal = ''ARM''"
| "enabling (RcTest buffer len) \<longleftrightarrow> matches buffer (unat len) ''ENABLE''"
| "enabling _ \<longleftrightarrow> False"

fun servos_off :: "action \<Rightarrow> bool" where
  "servos_off (Send (rc_send_servo m)) \<longleftrightarrow> disable m = 1"
| "servos_off _ \<longleftrightarrow> True"

lemma disable_roll [simp]: "disable (roll_message clk k d dis) = (if dis then 1 else 0)"
  by (simp add: roll_message_def)

lemma servos_off_roll [simp]: "servos_off (Send (rc_send_servo (roll_message clk k d True)))"
  by (simp add: roll_message_def)

lemma step_disabled:
  assumes "rc_admissible cexp e" and "\<not> enabling e" and "\<not> enable_servo s"
    and "rc_step clk cexp s e = Some (s', os)"
  shows "\<not> enable_servo s' \<and> (\<forall>x\<in>set os. servos_off x)"
  using assms
  by (cases e) (auto simp: rc_receive_state_idle rc_receive_arm_eq rc_raw_umb_eq rc_raw_testrc_eq
      split: if_splits)

lemma run_disabled:
  assumes "\<forall>e\<in>set es. rc_admissible cexp e \<and> \<not> enabling e" and "\<not> enable_servo s"
    and "run (rc_step clk cexp) s es = Some (s', os)"
  shows "\<not> enable_servo s' \<and> (\<forall>x\<in>set os. servos_off x)"
  using assms
proof (induction es arbitrary: s os)
  case (Cons e es)
  then obtain s1 os1 os2 where 1: "rc_step clk cexp s e = Some (s1, os1)"
    "run (rc_step clk cexp) s1 es = Some (s', os2)" "os = os1 @ os2"
    by (auto split: Option.bind_splits)
  with step_disabled [OF _ _ _ 1(1)] Cons.IH [OF _ _ 1(2)] Cons.prems show ?case by auto
qed simp

lemma first_then_disabled:
  assumes "rc_step clk cexp s e = Some (s1, [Send (rc_send_servo (roll_message clk k 0 True))])"
    and "\<not> enable_servo s1" and "rc_inv s1"
    and "\<forall>e\<in>set es. rc_admissible cexp e \<and> \<not> enabling e"
  shows "\<exists>s' os. run (rc_step clk cexp) s (e # es) =
      Some (s', Send (rc_send_servo (roll_message clk k 0 True)) # os) \<and>
    \<not> enable_servo s' \<and> (\<forall>x\<in>set os. servos_off x)"
proof -
  obtain s' os where r: "run (rc_step clk cexp) s1 es = Some (s', os)"
    using rc.run_ok [OF assms(3)] assms(4) by blast
  with run_disabled [OF assms(4,2) r] assms(1) show ?thesis by auto
qed

lemma rc_inv_init: "rc_inv (fst (rollcontrol_init env rc_static))"
  by (auto simp: rollcontrol_init_def rc_inv_def rc_static_def set_armed_def set_servo_enable_def
      udp_socket_def Let_def)

text \<open>Constants for the witnesses: an atmosphere, a clock and a state of flight.\<close>

definition clock0 :: clock where
  "clock0 = \<lparr>starttime = \<lparr>tv_sec = 0, tv_nsec = 0\<rparr>, readings = (\<lambda>k. \<lparr>tv_sec = 0, tv_nsec = 0\<rparr>)\<rparr>"

definition flight :: "rat \<Rightarrow> rat \<Rightarrow> state_data" where
  "flight v r = \<lparr>time = 3, acc_up = 50, vel_up = v, altitude = 2000, roll_rate = r, roll_angle = 0\<rparr>"

lemma dense_const [simp]: "dense (\<lambda>_. 1) st"
proof -
  have "2 powi (-1) \<le> lit (12250 / 10000)" by code_simp
  then have "2 powi (-1 + 0) \<le> fmul (lit (12250 / 10000)) 1"
    by (intro fmul_ge_powi) simp_all
  moreover have "(2::rat) powi (-900) \<le> 2 powi (-1 + 0)" by (simp only: powi_le_iff)
  ultimately show ?thesis unfolding dense_def air_density_def by (rule order_trans [rotated])
qed

definition env0 :: socket_env where
  "env0 = \<lparr>socket_ret = 3, bind_ret = 0, setsockopt_ret = 0, connect_ret = 0\<rparr>"

section \<open>Properties\<close>

text \<open>
  C16: the commands to the servo board are always within limits. Starting from initialisation,
  along every sequence of state estimates, arm signals, umbilical reports and test commands, the
  controller produces a result, keeps its integrator within 10000 of zero, and every command it
  sends is a \<open>ROLL\<close> message with a 6-byte time, the size of the struct, a disable flag of 0 or 1 and
  a finite angle between -15 and 15 degrees. \<open>cexp\<close> is \<open>exp\<close> of the C library, of which only this
  is used: the air density computed from it for the altitudes that occur is not below \<open>2 ^ -900\<close>.
\<close>

theorem canard_commands_in_range:
  assumes "\<forall>e\<in>set es. rc_admissible cexp e"
  shows "\<exists>s os. run (rc_step clk cexp) (fst (rollcontrol_init env rc_static)) es = Some (s, os) \<and>
    \<bar>integrator s\<bar> \<le> 10000 \<and>
    (\<forall>m. Send (rc_send_servo m) \<in> set os \<longrightarrow>
       roll_ID m = ''ROLL'' \<and> length (roll_timestamp m) = 6 \<and> roll_data_length m = 9 \<and>
       (disable m = 0 \<or> disable m = 1) \<and>
       (\<exists>d. double_of_bits (angle m) = Some d \<and> -15 \<le> d \<and> d \<le> 15))"
proof -
  obtain s os where r: "run (rc_step clk cexp) (fst (rollcontrol_init env rc_static)) es = Some (s, os)"
    "rc_inv s" "\<forall>x\<in>set os. rc_allowed x"
    using rc.run_ok [OF rc_inv_init assms] by blast
  then have "servo_message_ok m" if "Send (rc_send_servo m) \<in> set os" for m
    using that by force
  with r show ?thesis by (auto simp: servo_message_ok_def rc_inv_def)
qed

lemma canard_commands_in_range_witness:
  "\<exists>s os. run (rc_step clock0 (\<lambda>_. 1)) (fst (rollcontrol_init env0 rc_static))
      [RcArm ''ARM'', RcState ''VSTE'' (replicate 6 0) (flight 200 50)] = Some (s, os) \<and>
    \<bar>integrator s\<bar> \<le> 10000"
  using canard_commands_in_range [of "[RcArm ''ARM'', RcState ''VSTE'' (replicate 6 0) (flight 200 50)]"
      "\<lambda>_. 1" clock0 env0]
  by auto

text \<open>
  C19: disarming. The signal \<open>SAFE\<close> is answered at once with a command of angle 0 that disables the
  servos; disabling has precedence, so this need not centre the canards. From then on, until the
  signal \<open>ARM\<close> or the test command \<open>ENABLE\<close> arrives, no command with the servos enabled is sent,
  whatever else happens.
\<close>

theorem safe_disables:
  assumes "rc_inv s" and "\<forall>e\<in>set es. rc_admissible cexp e \<and> \<not> enabling e"
  shows "\<exists>s' os. run (rc_step clk cexp) s (RcArm ''SAFE'' # es) =
      Some (s', Send (rc_send_servo (roll_message clk (rc_reads s) 0 True)) # os) \<and>
    \<not> enable_servo s' \<and> (\<forall>m. Send (rc_send_servo m) \<in> set os \<longrightarrow> disable m = 1)"
proof -
  have "rc_step clk cexp s (RcArm ''SAFE'') =
      Some (s\<lparr>armed := False, enable_servo := False, rc_reads := rc_reads s + 1\<rparr>,
        [Send (rc_send_servo (roll_message clk (rc_reads s) 0 True))])"
    by (simp add: rc_receive_arm_eq)
  from first_then_disabled [OF this _ _ assms(2)] assms(1) show ?thesis
    by (force simp: rc_inv_def)
qed

lemma safe_disables_witness:
  "\<exists>s' os. run (rc_step clock0 (\<lambda>_. 1)) rc_static
      [RcArm ''SAFE'', RcState ''VSTE'' (replicate 6 0) (flight 200 50)] =
    Some (s', Send (rc_send_servo (roll_message clock0 0 0 True)) # os) \<and> \<not> enable_servo s'"
  using safe_disables [of rc_static "[RcState ''VSTE'' (replicate 6 0) (flight 200 50)]"
      "\<lambda>_. 1" clock0]
  by (auto simp: rc_inv_def rc_static_def)

text \<open>
  C20: the flight timer. With the servos enabled after the umbilical was disconnected, the first
  state estimate stamped later than the timeout makes the controller send one command that
  disables the servos, and no command with the servos enabled follows until \<open>ARM\<close> or \<open>ENABLE\<close>
  arrives, also if the umbilical is connected again.
\<close>

theorem flight_timer_disables:
  assumes "rc_inv s" and "launched s" and "enable_servo s"
    and "6 \<le> length ts" and "timeout s < word_of_nat (of_be (take 6 ts))" and "dense cexp st"
    and "\<forall>e\<in>set es. rc_admissible cexp e \<and> \<not> enabling e"
  shows "\<exists>s' os. run (rc_step clk cexp) s (RcState i ts st # es) =
      Some (s', Send (rc_send_servo (roll_message clk (rc_reads s) 0 True)) # os) \<and>
    \<not> enable_servo s' \<and> (\<forall>m. Send (rc_send_servo m) \<in> set os \<longrightarrow> disable m = 1)"
proof -
  have "timed_out ts s" using assms(2,3,5) by (simp add: timed_out_def)
  from rc_receive_state_timeout [OF assms(4) this]
  have "rc_step clk cexp s (RcState i ts st) =
      Some (s\<lparr>enable_servo := False, rc_reads := rc_reads s + 1\<rparr>,
        [Send (rc_send_servo (roll_message clk (rc_reads s) 0 True))])" by simp
  from first_then_disabled [OF this _ _ assms(7)] assms(1) show ?thesis
    by (force simp: rc_inv_def)
qed

lemma flight_timer_disables_witness:
  "\<exists>s' os. run (rc_step clock0 (\<lambda>_. 1))
      \<lparr>lastError = 0, integrator = 0, enable_servo = True, armed = True, launched = True,
       timeout = 10, rc_reads = 0\<rparr>
      [RcState ''VSTE'' [0, 0, 0, 0, 0, 11] (flight 200 50),
       RcState ''VSTE'' [0, 0, 0, 0, 0, 12] (flight 200 50)] =
    Some (s', Send (rc_send_servo (roll_message clock0 0 0 True)) # os) \<and> \<not> enable_servo s'"
  using flight_timer_disables [of "\<lparr>lastError = 0, integrator = 0, enable_servo = True,
        armed = True, launched = True, timeout = 10, rc_reads = 0\<rparr>" "[0, 0, 0, 0, 0, 11]"
      "\<lambda>_. 1" "flight 200 50" "[RcState ''VSTE'' [0, 0, 0, 0, 0, 12] (flight 200 50)]" clock0 "''VSTE''"]
  by (auto simp: rc_inv_def of_be_def)

text \<open>
  The timer counts from the first disconnect. However often the umbilical is reported
  disconnected, the timeout stays two minutes after the first of the reports.
\<close>

lemma timer_starts_once:
  assumes "\<not> launched s" and "ps \<noteq> []"
    and "\<forall>p\<in>set ps. ID p = ''RNHU'' \<and> 6 \<le> length (timestamp p) \<and> data p \<noteq> [] \<and> data p ! 0 = 0"
  shows "run rc_raw_umb s ps = Some (s\<lparr>launched := True,
      timeout := word_of_nat (of_be (take 6 (timestamp (hd ps)))) + 120000000000\<rparr>, [])"
proof -
  have again: "run rc_raw_umb t qs = Some (t, [])"
    if "launched t" "\<forall>p\<in>set qs. ID p = ''RNHU'' \<and> 6 \<le> length (timestamp p) \<and> data p \<noteq> [] \<and>
      data p ! 0 = 0" for t qs
  proof -
    have eq: "t\<lparr>launched := True\<rparr> = t" using that(1) by (cases t) simp
    show ?thesis using that by (induction qs) (simp_all add: rc_raw_umb_eq eq)
  qed
  obtain p qs where ps: "ps = p # qs" using assms(2) by (cases ps) auto
  with assms(1,3) show ?thesis
    by (simp add: rc_raw_umb_eq TIMEOUT_def again)
qed

definition umb_packet :: "nat \<Rightarrow> u8 \<Rightarrow> packet" where
  "umb_packet t d = \<lparr>ID = ''RNHU'', timestamp = be_of 6 t, data_length = 1, data = [d]\<rparr>"

text \<open>
  C36: the packet time has 48 bits but the timeout 64. If the umbilical is disconnected within the
  last two minutes before the packet time wraps, about 78 hours after its zero, the timeout is
  later than every packet time: no state estimate, whatever its time, makes the timer disable the
  servos.
\<close>

theorem timer_never_fires_near_wrap:
  assumes "\<not> launched s" and "ID p = ''RNHU''" and "6 \<le> length (timestamp p)"
    and "data p = 0 # rest" and "2 ^ 48 - 120000000000 \<le> of_be (take 6 (timestamp p))"
    and "rc_raw_umb s p = Some (s', os)" and "6 \<le> length ts"
  shows "check_timeout clk ts s' = Some (s', [])"
proof -
  define t where "t = of_be (take 6 (timestamp p))"
  have "t < 256 ^ 6" using of_be_less [of "take 6 (timestamp p)"] assms(3) by (simp add: t_def)
  then have "t < 281474976710656" by simp
  then have u: "unat (word_of_nat t + TIMEOUT :: u64) = t + 120000000000"
    by (simp add: TIMEOUT_def unat_word_ariths unat_of_nat)
  have "of_be (take 6 ts) < 256 ^ 6" using of_be_less [of "take 6 ts"] assms(7) by simp
  then have b: "of_be (take 6 ts) < 281474976710656" by simp
  have "timeout s' = word_of_nat t + TIMEOUT"
    using assms(1-4,6) by (auto simp: rc_raw_umb_eq t_def)
  then have "\<not> timed_out ts s'"
    using u b assms(5) by (simp add: timed_out_def word_less_nat_alt unat_of_nat t_def)
  then show ?thesis using assms(7) by (simp add: check_timeout_eq)
qed

lemma timer_never_fires_near_wrap_witness:
  "check_timeout clock0 [255, 255, 255, 255, 255, 255]
     (rc_static\<lparr>launched := True, timeout := 281474976710655 + 120000000000\<rparr>) =
   Some (rc_static\<lparr>launched := True, timeout := 281474976710655 + 120000000000\<rparr>, [])"
proof -
  have "rc_raw_umb rc_static (umb_packet 281474976710655 0) =
    Some (rc_static\<lparr>launched := True, timeout := 281474976710655 + 120000000000\<rparr>, [])"
    by (simp add: rc_raw_umb_eq umb_packet_def rc_static_def of_be_be_of TIMEOUT_def)
  from timer_never_fires_near_wrap [OF _ _ _ _ _ this, of "[]" "[255, 255, 255, 255, 255, 255]" clock0]
  show ?thesis by (simp add: umb_packet_def rc_static_def of_be_be_of)
qed

text \<open>
  Test commands cannot interfere with a flight. While the rocket is armed, any sequence of
  messages to the test port leaves the state of the controller as it is and is answered only with
  text; no command is sent to the servo board.
\<close>

lemma armed_ignores_tests:
  assumes "armed s" and "\<forall>(buffer, len)\<in>set cmds. unat len \<le> length buffer"
  shows "run (rc_step clk cexp) s (map (\<lambda>(buffer, len). RcTest buffer len) cmds) =
    Some (s, map (\<lambda>_. Write ServoEnableSocket
      (chars ''Roll control servos state not changed due to being armed'')) cmds)"
  using assms by (induction cmds) (auto simp: rc_raw_testrc_eq)

text \<open>
  C31: the fin model is odd and keeps the sign. For every state of flight, subsonic, transonic or
  supersonic, and with every operation rounded, the canard angle estimated for the opposite angular
  acceleration is exactly the opposite angle, and the angle for a positive acceleration is not
  negative. Requests below one degree per second squared and speeds below 1 m/s give zero.
\<close>

theorem fin_model_odd_and_signed:
  assumes "dense cexp st" and "is_double (vel_up st)"
  shows "\<exists>y. estimate_alpha cexp aa st = Some y \<and> estimate_alpha cexp (- aa) st = Some (- y) \<and>
    (0 \<le> aa \<longrightarrow> 0 \<le> y) \<and> (aa \<le> 0 \<longrightarrow> y \<le> 0) \<and>
    (\<bar>aa\<bar> < 1 \<or> vel_up st < 1 \<longrightarrow> y = 0)"
proof -
  obtain y where y: "estimate_alpha cexp aa st = Some y"
    using estimate_alpha_defined [OF assms(1)] by blast
  then have m: "estimate_alpha cexp (- aa) st = Some (- y)"
    by (simp add: estimate_alpha_minus)
  have "0 \<le> y" if "0 \<le> aa" using estimate_alpha_nonneg [OF assms that y] .
  moreover have "0 \<le> - y" if "aa \<le> 0" using estimate_alpha_nonneg [OF assms _ m] that by simp
  moreover have "y = 0" if "\<bar>aa\<bar> < 1 \<or> vel_up st < 1"
    using that y by (simp add: estimate_alpha_def)
  ultimately show ?thesis using y m by auto
qed

lemma fin_model_odd_and_signed_witness:
  "\<exists>y. estimate_alpha (\<lambda>_. 1) 40 (flight 300 8) = Some y \<and> 0 \<le> y"
  using fin_model_odd_and_signed [of "\<lambda>_. 1" "flight 300 8" 40] by (auto simp: flight_def)

text \<open>
  C29: the control loop damps. With the servos enabled and the timer not run out, a state estimate
  with a roll rate that is not negative, while the integrator is not positive, is answered with one
  command that enables the servos at an angle that is not positive; and the other way round.
\<close>

theorem control_opposes_roll:
  assumes "6 \<le> length ts" and "\<not> timed_out ts s" and "enable_servo s"
    and "dense cexp st" and "is_double (vel_up st)"
  shows "\<exists>s' m d. rc_receive_state clk cexp s ''VSTE'' ts st = Some (s', [Send (rc_send_servo m)]) \<and>
    disable m = 0 \<and> double_of_bits (angle m) = Some d \<and>
    (0 \<le> roll_rate st \<and> integrator s \<le> 0 \<longrightarrow> d \<le> 0) \<and>
    (roll_rate st \<le> 0 \<and> 0 \<le> integrator s \<longrightarrow> 0 \<le> d)"
proof -
  define c where "c = pid_correction (fsub pidTarget (roll_rate st)) s"
  obtain y where y: "estimate_alpha cexp c st = Some y" "is_double y"
    using estimate_alpha_defined [OF assms(4)] by blast
  have K: "0 \<le> Kp" "0 \<le> Ki" by (simp_all add: Kp_def Ki_def lit_def round64.nonneg)
  have e: "fsub pidTarget (roll_rate st) = - round64 (roll_rate st)"
    by (simp add: fsub_def pidTarget_def round64_minus)
  have c: "c = fadd (fadd (fmul Kp (- round64 (roll_rate st))) (fmul Ki (integrator s))) 0"
    by (simp add: c_def pid_correction_def Let_def e Kd_def)
  have neg: "d \<le> 0" if "0 \<le> roll_rate st" "integrator s \<le> 0" "d = canard_angle y" for d
  proof -
    have "fmul Kp (- round64 (roll_rate st)) \<le> 0" "fmul Ki (integrator s) \<le> 0"
      using K that round64.nonneg [OF that(1)]
      by (simp_all add: fmul_def round64.nonpos mult_nonneg_nonpos)
    then have "c \<le> 0" by (simp add: c fadd_def round64.nonpos)
    then have "0 \<le> - y"
      using estimate_alpha_nonneg [OF assms(4,5), of "- c" "- y"] y(1)
      by (simp add: estimate_alpha_minus)
    then show ?thesis using that canard_angle_sign by simp
  qed
  have pos: "0 \<le> d" if "roll_rate st \<le> 0" "0 \<le> integrator s" "d = canard_angle y" for d
  proof -
    have "0 \<le> fmul Kp (- round64 (roll_rate st))" "0 \<le> fmul Ki (integrator s)"
      using K that round64.nonpos [OF that(1)]
      by (simp_all add: fmul_def round64.nonneg mult_nonneg_nonpos)
    then have "0 \<le> c" by (simp add: c float_nonneg)
    then show ?thesis using estimate_alpha_nonneg [OF assms(4,5) _ y(1)] that canard_angle_sign by simp
  qed
  have "rc_receive_state clk cexp s ''VSTE'' ts st = Some
      ((pid_update (fsub pidTarget (roll_rate st)) s)\<lparr>rc_reads := rc_reads s + 1\<rparr>,
       [Send (rc_send_servo (roll_message clk (rc_reads s) (canard_angle y) False))])"
    using assms(1-3) y(1) by (intro rc_receive_state_active) (simp_all add: c_def)
  moreover have "double_of_bits (angle (roll_message clk (rc_reads s) (canard_angle y) False))
      = Some (canard_angle y)"
    using double_of_canard_bits [OF y(2)] by (simp add: roll_message_def)
  moreover have "disable (roll_message clk (rc_reads s) (canard_angle y) False) = 0"
    by (simp add: roll_message_def)
  ultimately show ?thesis using neg pos by blast
qed

lemma control_opposes_roll_witness:
  "\<exists>s' m d. rc_receive_state clock0 (\<lambda>_. 1) (rc_static\<lparr>enable_servo := True\<rparr>) ''VSTE'' (replicate 6 0)
      (flight 200 50) = Some (s', [Send (rc_send_servo m)]) \<and> double_of_bits (angle m) = Some d \<and> d \<le> 0"
  using control_opposes_roll [of "replicate 6 0" "rc_static\<lparr>enable_servo := True\<rparr>" "\<lambda>_. 1"
      "flight 200 50" clock0]
  by (auto simp: flight_def rc_static_def timed_out_def)

end
