(* ===== verification/State.thy ===== *)
theory State
  imports Doubles Utils_Time
begin

text \<open>
  \<open>src/src/state.c\<close>: the IMU samples are integrated to a state estimate, which is sent on after
  each sample. The integration starts when the acceleration first exceeds 40 m/s^2.
\<close>

section \<open>The code\<close>

record est_state =
  current_state :: state_data
  last_time :: u64
  has_launched :: bool
  launch_time :: u64

definition EARTHG :: rat where "EARTHG = lit (980665 / 100000)"
definition ADIS_GLSB :: rat where "ADIS_GLSB = fmul (lit (333 / 100000)) EARTHG"
definition ADIS_RLSB :: rat where "ADIS_RLSB = lit (5 / 100)"
definition LAUNCH_ALTITUDE :: rat where "LAUNCH_ALTITUDE = 1390"

definition est_static :: est_state where
  "est_static = \<lparr>current_state = \<lparr>time = 0, acc_up = 0, vel_up = 0, altitude = 0, roll_rate = 0,
     roll_angle = 0\<rparr>, last_time = 0, has_launched = False, launch_time = 0\<rparr>"

definition state_init :: "est_state \<Rightarrow> est_state" where
  "state_init s = s\<lparr>has_launched := False, current_state := (current_state s)\<lparr>time := 0, acc_up := 0,
     vel_up := 0, altitude := LAUNCH_ALTITUDE, roll_rate := 0, roll_angle := 0\<rparr>\<rparr>"

definition scaled :: "rat \<Rightarrow> u16 \<Rightarrow> rat" where
  "scaled c raw = fmul c (double_of_int (sint (bswap16 raw)))"

text \<open>\<open>(a - b) / 1.0e9\<close> for \<open>uint64_t\<close> values: the difference wraps before it becomes a double.\<close>

definition seconds_between :: "u64 \<Rightarrow> u64 \<Rightarrow> rat" where
  "seconds_between a b = fdiv (double_of_int (uint (a - b))) 1000000000"

definition integrate :: "u64 \<Rightarrow> rat \<Rightarrow> rat \<Rightarrow> est_state \<Rightarrow> est_state" where
  "integrate now accel roll s =
     (let dt = seconds_between now (last_time s);
          c = current_state s;
          c = c\<lparr>time := seconds_between now (launch_time s)\<rparr>;
          c = c\<lparr>acc_up := fsub accel (lit (981 / 100))\<rparr>;
          c = c\<lparr>vel_up := fadd (vel_up c) (fmul (acc_up c) dt)\<rparr>;
          c = c\<lparr>altitude := fadd (altitude c) (fmul (vel_up c) dt)\<rparr>;
          c = c\<lparr>roll_rate := - roll\<rparr>;
          c = c\<lparr>roll_angle := fadd (roll_angle c) (fmul roll dt)\<rparr>
      in s\<lparr>current_state := c\<rparr>)"

definition state_receive_imu :: "est_state \<Rightarrow> packet \<Rightarrow> (est_state \<times> action list) option" where
  "state_receive_imu s p = do {
     now \<leftarrow> from_psas_time (timestamp p);
     ax \<leftarrow> field16 ADIS16405Data ''acc_x'' (data p);
     gx \<leftarrow> field16 ADIS16405Data ''gyro_x'' (data p);
     let accel = scaled ADIS_GLSB ax;
     let roll = scaled ADIS_RLSB gx;
     let s = (if \<not> has_launched s \<and> \<bar>accel\<bar> > 40
              then s\<lparr>has_launched := True, launch_time := now\<rparr> else s);
     let s = (if last_time s = 0 then s\<lparr>last_time := now\<rparr> else s);
     let s = (if has_launched s then integrate now accel roll s else s);
     let out = [Send (state_send_message ''VSTE'' (timestamp p)
                  (word_of_nat (struct_size StateData)) (current_state s))];
     Some (s\<lparr>last_time := now\<rparr>, out)
   }"

definition state_raw_ld_in :: "est_state \<Rightarrow> bytes \<Rightarrow> est_state" where
  "state_raw_ld_in s signal = s"

section \<open>One sample\<close>

text \<open>What a sample says: its time and the readings in network byte order.\<close>

definition sample_time :: "packet \<Rightarrow> u64" where
  "sample_time p = word_of_nat (of_be (take 6 (timestamp p)))"

definition acc_counts :: "packet \<Rightarrow> int" where
  "acc_counts p = sint (get_be16 (drop 8 (data p)))"

definition gyro_counts :: "packet \<Rightarrow> int" where
  "gyro_counts p = sint (get_be16 (drop 2 (data p)))"

definition imu_ok :: "packet \<Rightarrow> bool" where
  "imu_ok p \<longleftrightarrow> 6 \<le> length (timestamp p) \<and> 10 \<le> length (data p)"

definition accel_of :: "packet \<Rightarrow> rat" where
  "accel_of p = fmul ADIS_GLSB (double_of_int (acc_counts p))"

definition roll_of :: "packet \<Rightarrow> rat" where
  "roll_of p = fmul ADIS_RLSB (double_of_int (gyro_counts p))"

text \<open>The launch threshold in raw counts.\<close>

lemma ADIS_GLSB_nonneg: "0 \<le> ADIS_GLSB"
  by (simp add: ADIS_GLSB_def EARTHG_def lit_def float_nonneg round64_nonneg)

lemma GLSB_bounds:
  "fmul ADIS_GLSB (double_of_int 1224) \<le> 40" "40 < fmul ADIS_GLSB (double_of_int 1225)"
proof -
  show "fmul ADIS_GLSB (double_of_int 1224) \<le> 40" by code_simp
  show "40 < fmul ADIS_GLSB (double_of_int 1225)" by code_simp
qed

lemma fmul_GLSB_mono:
  "m \<le> n \<Longrightarrow> fmul ADIS_GLSB (double_of_int m) \<le> fmul ADIS_GLSB (double_of_int n)"
  by (simp add: fmul_def double_of_int_def round64_mono mult_left_mono ADIS_GLSB_nonneg)

lemma launch_counts: "\<bar>accel_of p\<bar> > 40 \<longleftrightarrow> 1225 \<le> \<bar>acc_counts p\<bar>"
proof -
  have "\<bar>double_of_int n\<bar> = double_of_int \<bar>n\<bar>" for n
    by (simp add: double_of_int_def flip: round64.abs)
  then have *: "\<bar>accel_of p\<bar> = fmul ADIS_GLSB (double_of_int \<bar>acc_counts p\<bar>)"
    using ADIS_GLSB_nonneg by (simp add: accel_of_def float_abs)
  show ?thesis
  proof (cases "1225 \<le> \<bar>acc_counts p\<bar>")
    case True
    with fmul_GLSB_mono [OF True] GLSB_bounds(2) show ?thesis unfolding * by simp
  next
    case False
    then have "\<bar>acc_counts p\<bar> \<le> 1224" by simp
    with fmul_GLSB_mono [OF this] GLSB_bounds(1) False show ?thesis unfolding * by simp
  qed
qed

text \<open>The steps of the receiver in the terms of the sample.\<close>

definition launch_sample :: "packet \<Rightarrow> bool" where
  "launch_sample p \<longleftrightarrow> 1225 \<le> \<bar>acc_counts p\<bar>"

definition latch :: "packet \<Rightarrow> est_state \<Rightarrow> est_state" where
  "latch p s = (if \<not> has_launched s \<and> launch_sample p
     then s\<lparr>has_launched := True, launch_time := sample_time p\<rparr> else s)"

definition stamp :: "packet \<Rightarrow> est_state \<Rightarrow> est_state" where
  "stamp p s = (if last_time s = 0 then s\<lparr>last_time := sample_time p\<rparr> else s)"

definition estimate :: "packet \<Rightarrow> est_state \<Rightarrow> est_state" where
  "estimate p s = (if has_launched s
     then integrate (sample_time p) (accel_of p) (roll_of p) s else s)"

lemma state_receive_imu_eq:
  assumes "imu_ok p"
  shows "state_receive_imu s p =
    (let s = estimate p (stamp p (latch p s))
     in Some (s\<lparr>last_time := sample_time p\<rparr>,
              [Send (state_send_message ''VSTE'' (timestamp p) 48 (current_state s))]))"
proof -
  have "from_psas_time (timestamp p) = Some (sample_time p)"
    and "field16 ADIS16405Data ''acc_x'' (data p) = Some (get_host16 (drop 8 (data p)))"
    and "field16 ADIS16405Data ''gyro_x'' (data p) = Some (get_host16 (drop 2 (data p)))"
    using assms by (simp_all add: imu_ok_def from_psas_time_of_be load16_def sample_time_def)
  moreover have "2 \<le> length (drop 8 (data p))" "2 \<le> length (drop 2 (data p))"
    using assms by (auto simp: imu_ok_def)
  note bswap_get_host(1) [OF this(1)] bswap_get_host(1) [OF this(2)]
  then have "scaled ADIS_GLSB (get_host16 (drop 8 (data p))) = accel_of p"
    and "scaled ADIS_RLSB (get_host16 (drop 2 (data p))) = roll_of p"
    by (simp_all only: scaled_def accel_of_def roll_of_def acc_counts_def gyro_counts_def)
  moreover have "word_of_nat (struct_size StateData) = (48 :: u16)" by simp
  ultimately show ?thesis
    by (simp only: state_receive_imu_def Let_def Option.bind.bind_lunit launch_counts
        launch_sample_def latch_def stamp_def estimate_def)
qed

lemma integrate_fields [simp]:
  "last_time (integrate now a r s) = last_time s"
  "has_launched (integrate now a r s) = has_launched s"
  "launch_time (integrate now a r s) = launch_time s"
  by (simp_all add: integrate_def Let_def)

lemma estimate_fields [simp]:
  "last_time (estimate p s) = last_time s" "has_launched (estimate p s) = has_launched s"
  "launch_time (estimate p s) = launch_time s"
  by (simp_all add: estimate_def)

lemma stamp_fields [simp]:
  "last_time (stamp p s) = (if last_time s = 0 then sample_time p else last_time s)"
  "has_launched (stamp p s) = has_launched s"
  "launch_time (stamp p s) = launch_time s" "current_state (stamp p s) = current_state s"
  by (simp_all add: stamp_def)

lemma latch_fields [simp]:
  "last_time (latch p s) = last_time s"
  "has_launched (latch p s) \<longleftrightarrow> has_launched s \<or> launch_sample p"
  "launch_time (latch p s) =
     (if \<not> has_launched s \<and> launch_sample p then sample_time p else launch_time s)"
  "current_state (latch p s) = current_state s"
  by (simp_all add: latch_def)

end
