(* ===== verification/State_Proofs.thy ===== *)
theory State_Proofs
  imports State
begin

text \<open>
  The state estimate along a flight: when the integration starts, what is sent before that, and
  what a step backwards of the packet clock does.
\<close>

section \<open>Invariant and contract\<close>

definition est_inv :: "est_state \<Rightarrow> bool" where
  "est_inv s \<longleftrightarrow> uint (last_time s) < 2 ^ 48 \<and> uint (launch_time s) < 2 ^ 48"

fun est_promise :: "message \<Rightarrow> bool" where
  "est_promise (state_send_message i ts n st) \<longleftrightarrow> i = ''VSTE'' \<and> 6 \<le> length ts \<and> n = 48"
| "est_promise _ \<longleftrightarrow> False"

lemma sample_time_less:
  assumes "imu_ok p"
  shows "uint (sample_time p) < 2 ^ 48"
proof -
  have "from_psas_time (timestamp p) = Some (sample_time p)"
    using assms by (simp add: imu_ok_def from_psas_time_of_be sample_time_def)
  then have "unat (sample_time p) < 2 ^ 48" by (rule from_psas_time_less)
  then have "int (unat (sample_time p)) < int (2 ^ 48)" by (simp only: of_nat_less_iff)
  then show ?thesis by simp
qed

lemma est_inv_init: "est_inv (state_init est_static)"
  by (simp add: est_inv_def state_init_def est_static_def)

interpretation est: component state_receive_imu est_inv imu_ok "promised est_promise"
proof unfold_locales
  fix s p assume s: "est_inv s" and p: "imu_ok p"
  let ?s = "estimate p (stamp p (latch p s))"
  have "est_inv (?s\<lparr>last_time := sample_time p\<rparr>)"
    using s sample_time_less [OF p] by (simp add: est_inv_def)
  moreover have "promised est_promise
      (Send (state_send_message ''VSTE'' (timestamp p) 48 (current_state ?s)))"
    using p by (simp add: imu_ok_def)
  ultimately show "\<exists>s' os. state_receive_imu s p = Some (s', os) \<and> est_inv s' \<and>
      (\<forall>x\<in>set os. promised est_promise x)"
    unfolding state_receive_imu_eq [OF p] Let_def by auto
qed

section \<open>Launch detection\<close>

lemma state_receive_imu_quiet:
  assumes "imu_ok p" and "\<not> has_launched s" and "\<not> launch_sample p"
  shows "state_receive_imu s p = Some (s\<lparr>last_time := sample_time p\<rparr>,
    [Send (state_send_message ''VSTE'' (timestamp p) 48 (current_state s))])"
  using assms
  by (simp add: state_receive_imu_eq estimate_def Let_def latch_def stamp_def)

lemma state_receive_imu_latch:
  assumes "imu_ok p" and "state_receive_imu s p = Some (s', os)"
  shows "has_launched s' \<longleftrightarrow> has_launched s \<or> launch_sample p"
    and "launch_time s' = (if \<not> has_launched s \<and> launch_sample p then sample_time p
                           else launch_time s)"
  using assms by (auto simp: state_receive_imu_eq Let_def)

lemma run_latch:
  assumes "\<forall>p\<in>set ps. imu_ok p" and "run state_receive_imu s ps = Some (s', os)"
  shows "(has_launched s' \<longleftrightarrow> has_launched s \<or> (\<exists>p\<in>set ps. launch_sample p)) \<and>
    launch_time s' = (if has_launched s then launch_time s else
      case filter launch_sample ps of [] \<Rightarrow> launch_time s | p # _ \<Rightarrow> sample_time p)"
  using assms
proof (induction ps arbitrary: s os)
  case (Cons p ps)
  then obtain s1 os1 os2 where 1: "state_receive_imu s p = Some (s1, os1)"
    "run state_receive_imu s1 ps = Some (s', os2)"
    by (auto split: Option.bind_splits)
  with Cons have "(has_launched s' \<longleftrightarrow> has_launched s1 \<or> (\<exists>p\<in>set ps. launch_sample p)) \<and>
    launch_time s' = (if has_launched s1 then launch_time s1 else
      case filter launch_sample ps of [] \<Rightarrow> launch_time s1 | p # _ \<Rightarrow> sample_time p)" by auto
  then show ?case
    using state_receive_imu_latch [OF _ 1(1)] Cons.prems(1)
    by (cases "filter launch_sample ps") auto
qed simp

lemma run_quiet:
  assumes "\<forall>p\<in>set ps. imu_ok p \<and> \<not> launch_sample p" and "\<not> has_launched s"
  shows "\<exists>s'. run state_receive_imu s ps = Some (s',
      map (\<lambda>p. Send (state_send_message ''VSTE'' (timestamp p) 48 (current_state s))) ps) \<and>
    current_state s' = current_state s"
  using assms
proof (induction ps arbitrary: s)
  case (Cons p ps)
  from Cons.IH [of "s\<lparr>last_time := sample_time p\<rparr>"] Cons.prems show ?case
    by (auto simp: state_receive_imu_quiet)
qed simp

section \<open>Properties\<close>

text \<open>
  C22: until a sample shows more than 40 m/s^2, that is 1225 counts or more in magnitude, every
  message sent carries the estimate of \<open>state_init\<close>, at rest at the launch altitude: vibrations on
  the pad are not integrated.
\<close>

theorem state_frozen_on_pad:
  assumes "\<forall>p\<in>set ps. imu_ok p \<and> \<bar>acc_counts p\<bar> < 1225"
  shows "\<exists>s'. run state_receive_imu (state_init s) ps = Some (s', map (\<lambda>p. Send
      (state_send_message ''VSTE'' (timestamp p) 48 \<lparr>time = 0, acc_up = 0, vel_up = 0,
         altitude = 1390, roll_rate = 0, roll_angle = 0\<rparr>)) ps) \<and>
    \<not> has_launched s'"
proof -
  let ?s = "state_init s"
  have q: "\<forall>p\<in>set ps. imu_ok p \<and> \<not> launch_sample p" using assms by (auto simp: launch_sample_def)
  have n: "\<not> has_launched ?s" by (simp add: state_init_def)
  have c: "current_state ?s = \<lparr>time = 0, acc_up = 0, vel_up = 0, altitude = 1390, roll_rate = 0,
      roll_angle = 0\<rparr>"
    by (simp add: state_init_def LAUNCH_ALTITUDE_def)
  obtain s' where s': "run state_receive_imu ?s ps = Some (s',
      map (\<lambda>p. Send (state_send_message ''VSTE'' (timestamp p) 48 (current_state ?s))) ps)"
    using run_quiet [OF q n] by blast
  with run_latch [OF _ s'] q n show ?thesis by (auto simp: c)
qed

definition imu_sample :: "int \<Rightarrow> nat \<Rightarrow> packet" where
  "imu_sample acc t = \<lparr>ID = ''ADIS'', timestamp = be_of 6 t, data_length = 24,
     data = replicate 8 0 @ be16 (word_of_int acc) @ replicate 14 0\<rparr>"

lemma imu_sample_ok [simp]: "imu_ok (imu_sample acc t)"
  by (simp add: imu_ok_def imu_sample_def)

lemma imu_sample_timestamp [simp]: "timestamp (imu_sample acc t) = be_of 6 t"
  by (simp add: imu_sample_def)

lemma imu_sample_acc [simp]: "acc_counts (imu_sample acc t) = sint (word_of_int acc :: u16)"
  by (simp add: acc_counts_def imu_sample_def)

lemma imu_sample_time [simp]: "t < 2 ^ 48 \<Longrightarrow> sample_time (imu_sample acc t) = word_of_nat t"
  by (simp add: sample_time_def imu_sample_def of_be_be_of)

lemma state_frozen_on_pad_witness:
  "\<exists>s'. run state_receive_imu (state_init est_static) [imu_sample 300 5] = Some (s',
      [Send (state_send_message ''VSTE'' (be_of 6 5) 48 \<lparr>time = 0, acc_up = 0, vel_up = 0,
         altitude = 1390, roll_rate = 0, roll_angle = 0\<rparr>)]) \<and> \<not> has_launched s'"
  using state_frozen_on_pad [of "[imu_sample 300 5]" est_static]
  by (simp del: run.simps)

text \<open>
  C25: launch detection is a latch. Along any run of complete samples after initialisation the
  estimator has launched exactly when some sample reached the threshold, and the launch time is
  the time of the first such sample; later samples never change either.
\<close>

theorem launch_latch:
  assumes "\<forall>p\<in>set ps. imu_ok p"
    and "run state_receive_imu (state_init s) ps = Some (s', os)"
  shows "(has_launched s' \<longleftrightarrow> (\<exists>p\<in>set ps. 1225 \<le> \<bar>acc_counts p\<bar>)) \<and>
    (has_launched s' \<longrightarrow>
       launch_time s' = sample_time (hd (filter (\<lambda>p. 1225 \<le> \<bar>acc_counts p\<bar>) ps)))"
proof -
  have l: "launch_sample = (\<lambda>p. 1225 \<le> \<bar>acc_counts p\<bar>)" by (auto simp: launch_sample_def)
  have n: "\<not> has_launched (state_init s)" by (simp add: state_init_def)
  have "filter launch_sample ps \<noteq> []" if "\<exists>p\<in>set ps. launch_sample p"
    using that by (simp add: filter_empty_conv)
  then show ?thesis
    using run_latch [OF assms] n unfolding l by (auto split: list.splits)
qed

lemma launch_latch_witness:
  "\<exists>s' os. run state_receive_imu (state_init est_static) [imu_sample 300 5, imu_sample 2000 9]
     = Some (s', os) \<and> has_launched s' \<and> launch_time s' = 9"
proof -
  obtain s' os where r: "run state_receive_imu (state_init est_static)
      [imu_sample 300 5, imu_sample 2000 9] = Some (s', os)"
    using est.run_ok [OF est_inv_init, of "[imu_sample 300 5, imu_sample 2000 9]"] by auto
  have "has_launched s' \<and> launch_time s' = 9"
    using launch_latch [OF _ r] by simp
  with r show ?thesis by blast
qed

text \<open>
  C37: the elapsed time is an unsigned difference. A sample that is stamped before its predecessor
  is integrated over more than 18 billion seconds: the acceleration of that one sample is
  multiplied by that interval and added to the velocity, and the velocity to the altitude.
\<close>

theorem backward_clock_step:
  assumes "est_inv s" and "has_launched s" and "imu_ok p"
    and "last_time s \<noteq> 0" and "sample_time p < last_time s"
  shows "\<exists>s' os dt. state_receive_imu s p = Some (s', os) \<and> 18000000000 \<le> dt \<and>
    vel_up (current_state s') =
      fadd (vel_up (current_state s)) (fmul (acc_up (current_state s')) dt) \<and>
    altitude (current_state s') =
      fadd (altitude (current_state s)) (fmul (vel_up (current_state s')) dt)"
proof -
  let ?dt = "seconds_between (sample_time p) (last_time s)"
  have lt: "uint (sample_time p) < uint (last_time s)" "uint (last_time s) < 2 ^ 48"
    using assms(1,5) by (simp_all add: word_less_alt est_inv_def)
  have "uint (sample_time p - last_time s) = uint (sample_time p) - uint (last_time s) + 2 ^ 64"
    using lt by (simp add: uint_sub_if_size word_size)
  moreover have "18400000000 * 1000000000 \<le> a - b + 2 ^ 64" if "0 \<le> a" "b < 2 ^ 48"
    for a b :: int using that by simp
  ultimately have "18400000000 * 1000000000 \<le> uint (sample_time p - last_time s)"
    using lt uint_ge_0 by metis
  then have "of_int (18400000000 * 1000000000) \<le> (of_int (uint (sample_time p - last_time s)) :: rat)"
    by (simp only: of_int_le_iff)
  then have "round64 (18400000000 * 1000000000) \<le> double_of_int (uint (sample_time p - last_time s))"
    by (simp add: double_of_int_def round64_mono)
  moreover have "round64 (18400000000 * 1000000000) = 18400000000 * 1000000000"
    using round64_fixes [of _ "184 * 5 ^ 17" 17] by (simp add: power_int_def)
  ultimately have "18000000000 \<le> double_of_int (uint (sample_time p - last_time s)) / 1000000000"
    by simp
  then have "round64 18000000000 \<le> ?dt"
    unfolding seconds_between_def fdiv_def by (rule round64_mono)
  then have "18000000000 \<le> ?dt" by simp
  then show ?thesis
    using assms by (simp add: state_receive_imu_eq estimate_def Let_def)
      (simp add: integrate_def Let_def, blast)
qed

lemma backward_clock_step_witness:
  "\<exists>s' os dt. state_receive_imu \<lparr>current_state = \<lparr>time = 1, acc_up = 0, vel_up = 0, altitude = 1400,
        roll_rate = 0, roll_angle = 0\<rparr>, last_time = 1000, has_launched = True, launch_time = 7\<rparr>
      (imu_sample 2000 999) = Some (s', os) \<and> 18000000000 \<le> dt \<and>
    vel_up (current_state s') = fadd 0 (fmul (acc_up (current_state s')) dt)"
  using backward_clock_step [of "\<lparr>current_state = \<lparr>time = 1, acc_up = 0, vel_up = 0,
        altitude = 1400, roll_rate = 0, roll_angle = 0\<rparr>, last_time = 1000, has_launched = True,
        launch_time = 7\<rparr>" "imu_sample 2000 999"]
  by (simp add: est_inv_def) blast

end
