(* ===== verification/State_Range.thy ===== *)
theory State_Range
  imports State_Proofs
begin

text \<open>
  The estimate stays far below the largest double, whatever the samples say: the numbers of the model,
  which have no infinity, are then the doubles of the code.
\<close>

section \<open>Rounding within bounds\<close>

lemma round64_within:
  assumes "\<bar>x\<bar> \<le> of_nat n * 2 ^ k" and "n < 2 ^ 53"
  shows "\<bar>round64 x\<bar> \<le> of_nat n * 2 ^ k"
proof -
  have "round64 (of_nat n * 2 ^ k) = of_nat n * 2 ^ k"
    using assms(2) by (intro round64_fixes [of _ "int n" "int k"]) (auto simp: power_int_def)
  with assms(1) show ?thesis by (simp flip: round64.abs) (rule round64.le_fixed)
qed

lemmas round64_within_power = round64_within [where n = 1, simplified]

lemma abs_mult_power:
  fixes x y a :: rat
  assumes "\<bar>x\<bar> \<le> a * 2 ^ m" and "\<bar>y\<bar> \<le> 2 ^ n"
  shows "\<bar>x * y\<bar> \<le> a * 2 ^ (m + n)"
proof -
  have "0 \<le> a * 2 ^ m" using assms(1) by (rule order_trans [OF abs_ge_zero])
  with mult_mono [OF assms] show ?thesis by (simp add: abs_mult power_add mult.assoc)
qed

section \<open>The results of all operations on a sample\<close>

text \<open>What the floating-point operations of \<open>state_receive_imu\<close> compute, in the order of the code and before
  they are rounded: the conversion of the readings, and after the launch the integration.\<close>

definition sample_results :: "packet \<Rightarrow> rat list" where
  "sample_results p = [ADIS_GLSB * double_of_int (acc_counts p), ADIS_RLSB * double_of_int (gyro_counts p)]"

definition integration_results :: "u64 \<Rightarrow> rat \<Rightarrow> rat \<Rightarrow> est_state \<Rightarrow> rat list" where
  "integration_results now accel roll s =
     (let dt = seconds_between now (last_time s); c = current_state s;
          acc = fsub accel (lit (981 / 100));
          vel = fadd (vel_up c) (fmul acc dt);
          alt = fadd (altitude c) (fmul vel dt)
      in [of_int (uint (now - last_time s)), double_of_int (uint (now - last_time s)) / 1000000000,
          of_int (uint (now - launch_time s)), double_of_int (uint (now - launch_time s)) / 1000000000,
          accel - lit (981 / 100), acc * dt, vel_up c + fmul acc dt, vel * dt, altitude c + fmul vel dt,
          roll * dt, roll_angle c + fmul roll dt])"

definition imu_results :: "est_state \<Rightarrow> packet \<Rightarrow> rat list" where
  "imu_results s p = sample_results p @
     (let s = stamp p (latch p s)
      in if has_launched s then integration_results (sample_time p) (accel_of p) (roll_of p) s else [])"

section \<open>The range of the estimate\<close>

definition est_range :: "nat \<Rightarrow> est_state \<Rightarrow> bool" where
  "est_range k s \<longleftrightarrow> \<bar>vel_up (current_state s)\<bar> \<le> of_nat k * 2 ^ 80 \<and>
     \<bar>altitude (current_state s)\<bar> \<le> of_nat (k + 1) * 2 ^ 200 \<and>
     \<bar>roll_angle (current_state s)\<bar> \<le> of_nat k * 2 ^ 80 \<and>
     \<bar>roll_rate (current_state s)\<bar> \<le> 2 ^ 15 \<and> \<bar>time (current_state s)\<bar> \<le> 2 ^ 64"

lemma est_range_init: "est_range 0 (state_init s)"
  by (simp add: est_range_def state_init_def LAUNCH_ALTITUDE_def)

lemma lsb_bounds: "0 \<le> ADIS_GLSB" "ADIS_GLSB \<le> 1" "0 \<le> ADIS_RLSB" "ADIS_RLSB \<le> 1"
  "0 \<le> lit (981 / 100)" "lit (981 / 100) \<le> 2 ^ 15"
proof -
  have "round64 (1 / 256) = (1 / 256 :: rat)" by (rule round64_fixes [of _ 1 "- 8"]) (simp_all add: power_int_def power_divide)
  then have l: "lit (333 / 100000) \<le> 1 / 256" unfolding lit_def by (rule round64.le_fixed) simp
  have e: "EARTHG \<le> 10" unfolding EARTHG_def lit_def by (rule round64.le_fixed) simp_all
  have n: "0 \<le> lit (333 / 100000)" "0 \<le> EARTHG" by (simp_all add: lit_def EARTHG_def round64_nonneg)
  have "lit (333 / 100000) * EARTHG \<le> 1 / 256 * 10" using l e n by (intro mult_mono) simp_all
  then have "lit (333 / 100000) * EARTHG \<le> 1" by simp
  then show "ADIS_GLSB \<le> 1" unfolding ADIS_GLSB_def fmul_def by (rule round64.le_fixed [OF round64_1])
  show "0 \<le> ADIS_GLSB" by (rule ADIS_GLSB_nonneg)
  show "0 \<le> ADIS_RLSB" by (simp add: ADIS_RLSB_def lit_def round64_nonneg)
  show "ADIS_RLSB \<le> 1" unfolding ADIS_RLSB_def lit_def by (rule round64.le_fixed [OF round64_1]) simp
  show "0 \<le> lit (981 / 100)" by (simp add: lit_def round64_nonneg)
  have "lit (981 / 100) \<le> 10" unfolding lit_def by (rule round64.le_fixed) simp_all
  then show "lit (981 / 100) \<le> 2 ^ 15" by simp
qed

lemma counts_bounds: "\<bar>double_of_int (sint (w :: u16))\<bar> \<le> 2 ^ 15"
proof -
  have "- (2 ^ 15) \<le> sint w" "sint w < 2 ^ 15"
    using sint_greater_eq [of w] sint_less [of w] by simp_all
  then have "\<bar>sint w\<bar> \<le> 2 ^ 15" by simp
  then have "(of_int \<bar>sint w\<bar> :: rat) \<le> of_int (2 ^ 15)" by (simp only: of_int_le_iff)
  then have "\<bar>of_int (sint w) :: rat\<bar> \<le> 2 ^ 15" by simp
  then show ?thesis unfolding double_of_int_def by (rule round64_within_power)
qed

lemma sample_bounds:
  "\<forall>x\<in>set (sample_results p). \<bar>x\<bar> \<le> 2 ^ 15" "\<bar>accel_of p\<bar> \<le> 2 ^ 15" "\<bar>roll_of p\<bar> \<le> 2 ^ 15"
proof -
  have a: "\<bar>ADIS_GLSB * double_of_int (acc_counts p)\<bar> \<le> 2 ^ 15"
    "\<bar>ADIS_RLSB * double_of_int (gyro_counts p)\<bar> \<le> 2 ^ 15"
    using counts_bounds mult_mono [of "\<bar>ADIS_GLSB\<bar>" 1 _ "2 ^ 15"] mult_mono [of "\<bar>ADIS_RLSB\<bar>" 1 _ "2 ^ 15"]
      lsb_bounds by (simp_all add: abs_mult acc_counts_def gyro_counts_def)
  then show "\<forall>x\<in>set (sample_results p). \<bar>x\<bar> \<le> 2 ^ 15" by (simp add: sample_results_def)
  from a show "\<bar>accel_of p\<bar> \<le> 2 ^ 15" "\<bar>roll_of p\<bar> \<le> 2 ^ 15"
    unfolding accel_of_def roll_of_def fmul_def by (simp_all only: round64_within_power)
qed

lemma seconds_bounds:
  "\<bar>of_int (uint (d :: u64)) :: rat\<bar> \<le> 2 ^ 64" "\<bar>double_of_int (uint d) / 1000000000\<bar> \<le> 2 ^ 64"
  "\<bar>seconds_between a b\<bar> \<le> 2 ^ 64"
proof -
  have u: "\<bar>of_int (uint d) :: rat\<bar> \<le> 2 ^ 64" for d :: u64
  proof -
    have "uint d \<le> 2 ^ 64" using uint_lt2p [of d] by simp
    then have "(of_int (uint d) :: rat) \<le> of_int (2 ^ 64)" by (simp only: of_int_le_iff)
    moreover have "\<bar>of_int (uint d) :: rat\<bar> = of_int (uint d)" by (rule abs_of_nonneg) (simp only: of_int_0_le_iff uint_ge_0)
    ultimately show ?thesis by simp
  qed
  then show "\<bar>of_int (uint d) :: rat\<bar> \<le> 2 ^ 64" .
  have q: "\<bar>double_of_int (uint d) / 1000000000\<bar> \<le> 2 ^ 64" for d :: u64
    using round64_within_power [OF u [of d]] by (simp add: double_of_int_def abs_divide)
  then show "\<bar>double_of_int (uint d) / 1000000000\<bar> \<le> 2 ^ 64" .
  from q show "\<bar>seconds_between a b\<bar> \<le> 2 ^ 64"
    unfolding seconds_between_def fdiv_def by (rule round64_within_power)
qed

lemma count_power: "n < 2 ^ 53 \<Longrightarrow> of_nat n * 2 ^ m \<le> (2 :: rat) ^ (53 + m)"
proof -
  assume "n < 2 ^ 53"
  then have "(of_nat n :: rat) \<le> of_nat (2 ^ 53)" by (simp only: of_nat_le_iff)
  then have "of_nat n * 2 ^ m \<le> of_nat (2 ^ 53) * (2 :: rat) ^ m" by (intro mult_right_mono) simp_all
  then show ?thesis by (simp add: power_add)
qed

lemma le_254: "\<bar>x\<bar> \<le> 2 ^ n \<Longrightarrow> n \<le> 254 \<Longrightarrow> \<bar>x\<bar> \<le> (2 :: rat) ^ 254"
  by (rule order_trans [OF _ power_increasing]) simp_all

lemma abs_add_count:
  "\<bar>x\<bar> \<le> of_nat n * 2 ^ m \<Longrightarrow> \<bar>y\<bar> \<le> 2 ^ m \<Longrightarrow> \<bar>x + y\<bar> \<le> of_nat (n + 1) * (2 :: rat) ^ m"
  by (rule order_trans [OF abs_triangle_ineq]) (simp add: distrib_right)

text \<open>One step of the integration: every result is bounded, and the bounds of the state move on.\<close>

lemma integration_bounds:
  assumes s: "est_range k s" and k: "k + 2 < 2 ^ 53" and a: "\<bar>a\<bar> \<le> 2 ^ 15" and r: "\<bar>r\<bar> \<le> 2 ^ 15"
  shows "\<forall>x\<in>set (integration_results now a r s). \<bar>x\<bar> \<le> 2 ^ 254" and "est_range (k + 1) (integrate now a r s)"
proof -
  define dt where "dt = seconds_between now (last_time s)"
  define acc where "acc = fsub a (lit (981 / 100))"
  define vel where "vel = fadd (vel_up (current_state s)) (fmul acc dt)"
  define alt where "alt = fadd (altitude (current_state s)) (fmul vel dt)"
  let ?k1 = "of_nat (k + 1) :: rat"
  have dt: "\<bar>dt\<bar> \<le> 2 ^ 64" unfolding dt_def by (rule seconds_bounds)
  have acc0: "\<bar>a - lit (981 / 100)\<bar> \<le> 2 ^ 16" using a lsb_bounds(5,6) by simp
  then have acc: "\<bar>acc\<bar> \<le> 1 * 2 ^ 16" using round64_within_power [OF acc0] by (simp add: acc_def fsub_def)
  have dv0: "\<bar>acc * dt\<bar> \<le> 2 ^ 80" using abs_mult_power [OF acc dt] by simp
  then have dv: "\<bar>fmul acc dt\<bar> \<le> 2 ^ 80" unfolding fmul_def by (rule round64_within_power)
  have vel0: "\<bar>vel_up (current_state s) + fmul acc dt\<bar> \<le> ?k1 * 2 ^ 80"
    using s by (intro abs_add_count [OF _ dv]) (simp add: est_range_def)
  then have vel: "\<bar>vel\<bar> \<le> ?k1 * 2 ^ 80" unfolding vel_def fadd_def
    using k by (intro round64_within) simp_all
  note k1 = count_power [of "k + 1"] and k2 = count_power [of "k + 2"]
  have dalt0: "\<bar>vel * dt\<bar> \<le> 2 ^ 200"
    using abs_mult_power [OF vel dt] k1 [of 144] k power_increasing [of 197 200 "2 :: rat"] by simp
  then have dalt: "\<bar>fmul vel dt\<bar> \<le> 2 ^ 200" unfolding fmul_def by (rule round64_within_power)
  have alt0: "\<bar>altitude (current_state s) + fmul vel dt\<bar> \<le> of_nat (k + 2) * 2 ^ 200"
    using abs_add_count [OF _ dalt, of "altitude (current_state s)" "k + 1"] s
    by (simp only: est_range_def add.assoc one_add_one)
  then have alt: "\<bar>alt\<bar> \<le> of_nat (k + 2) * 2 ^ 200" unfolding alt_def fadd_def
    using k by (intro round64_within) simp_all
  have da0: "\<bar>r * dt\<bar> \<le> 2 ^ 80"
    using abs_mult_power [of r 1 15 dt 64] r dt power_increasing [of 79 80 "2 :: rat"] by simp
  then have da: "\<bar>fmul r dt\<bar> \<le> 2 ^ 80" unfolding fmul_def by (rule round64_within_power)
  have ang0: "\<bar>roll_angle (current_state s) + fmul r dt\<bar> \<le> ?k1 * 2 ^ 80"
    using s by (intro abs_add_count [OF _ da]) (simp add: est_range_def)
  then have ang: "\<bar>fadd (roll_angle (current_state s)) (fmul r dt)\<bar> \<le> ?k1 * 2 ^ 80" unfolding fadd_def
    using k by (intro round64_within) simp_all
  show "est_range (k + 1) (integrate now a r s)"
    using vel alt ang r seconds_bounds(3) [of now "launch_time s"]
    by (simp add: est_range_def integrate_def Let_def dt_def acc_def vel_def alt_def)
  have small: "\<bar>x\<bar> \<le> (2 :: rat) ^ 254" if "\<bar>x\<bar> \<le> of_nat n * 2 ^ m" "n < 2 ^ 53" "m \<le> 200" for x n m
    by (rule le_254 [OF order_trans [OF that(1) count_power [OF that(2)]]]) (use that(3) in simp)
  have "integration_results now a r s = [of_int (uint (now - last_time s)),
      double_of_int (uint (now - last_time s)) / 1000000000, of_int (uint (now - launch_time s)),
      double_of_int (uint (now - launch_time s)) / 1000000000, a - lit (981 / 100), acc * dt,
      vel_up (current_state s) + fmul acc dt, vel * dt, altitude (current_state s) + fmul vel dt,
      r * dt, roll_angle (current_state s) + fmul r dt]"
    by (simp add: integration_results_def dt_def acc_def vel_def alt_def Let_def)
  moreover have "\<bar>of_int (uint (now - u)) :: rat\<bar> \<le> 2 ^ 254"
    "\<bar>double_of_int (uint (now - u)) / 1000000000\<bar> \<le> 2 ^ 254" for u
    by (rule le_254 [OF seconds_bounds(1)], simp) (rule le_254 [OF seconds_bounds(2)], simp)
  moreover have "\<bar>a - lit (981 / 100)\<bar> \<le> 2 ^ 254" "\<bar>acc * dt\<bar> \<le> 2 ^ 254" "\<bar>vel * dt\<bar> \<le> 2 ^ 254"
    "\<bar>r * dt\<bar> \<le> 2 ^ 254"
    by (rule le_254 [OF acc0], simp) (rule le_254 [OF dv0], simp, rule le_254 [OF dalt0], simp,
      rule le_254 [OF da0], simp)
  moreover have "\<bar>vel_up (current_state s) + fmul acc dt\<bar> \<le> 2 ^ 254"
    "\<bar>altitude (current_state s) + fmul vel dt\<bar> \<le> 2 ^ 254"
    "\<bar>roll_angle (current_state s) + fmul r dt\<bar> \<le> 2 ^ 254"
    using k by (intro small [OF vel0] small [OF alt0] small [OF ang0]; simp)+
  ultimately show "\<forall>x\<in>set (integration_results now a r s). \<bar>x\<bar> \<le> 2 ^ 254"
    by (simp only: list.set ball_simps simp_thms)
qed

text \<open>Along a run the bounds grow with the number of samples.\<close>

lemma imu_range:
  assumes "imu_ok p" and "est_range k s" and "k + 2 < 2 ^ 53"
  shows "\<forall>x\<in>set (imu_results s p). \<bar>x\<bar> \<le> 2 ^ 254"
    and "state_receive_imu s p = Some (s', out) \<Longrightarrow> est_range (k + 1) s'"
proof -
  let ?s = "stamp p (latch p s)"
  have r: "est_range k ?s" using assms(2) by (simp add: est_range_def)
  note b = integration_bounds [OF r assms(3) sample_bounds(2) [of p] sample_bounds(3) [of p], of "sample_time p"]
  show "\<forall>x\<in>set (imu_results s p). \<bar>x\<bar> \<le> 2 ^ 254"
    using b(1) sample_bounds(1) [of p] le_254 [of _ 15] by (auto simp: imu_results_def Let_def)
  have "est_range (k + 1) ?s" using r
    by (auto simp: est_range_def algebra_simps intro: order_trans)
  with b(2) have "est_range (k + 1) (estimate p ?s)" by (simp add: estimate_def)
  then show "state_receive_imu s p = Some (s', out) \<Longrightarrow> est_range (k + 1) s'"
    by (auto simp: state_receive_imu_eq [OF assms(1)] Let_def est_range_def)
qed

lemma imu_run_range:
  assumes "\<forall>p\<in>set ps. imu_ok p" and "run state_receive_imu s ps = Some (s', out)"
    and "est_range k s" and "k + length ps + 2 \<le> 2 ^ 53"
  shows "est_range (k + length ps) s'"
  using assms
proof (induction ps arbitrary: s k out)
  case (Cons p ps)
  then obtain t o1 o2 where 1: "state_receive_imu s p = Some (t, o1)"
    and 2: "run state_receive_imu t ps = Some (s', o2)" by (auto simp: Option.bind_eq_Some_conv)
  have "est_range (k + 1) t" using imu_range(2) [OF _ Cons.prems(3) _ 1] Cons.prems(1,4) by simp
  from Cons.IH [OF _ 2 this] Cons.prems(1,4) show ?case by simp
qed simp

section \<open>Property\<close>

text \<open>
  C23: the estimate never overflows. From the start, after any fewer than 2^53 - 3 samples of any content,
  every floating-point operation on the next sample has a result of at most 2^254, far below the
  largest double, also when the packet clock runs backwards, so that no infinity and no
  not-a-number ever enters the estimate. (At the 819 samples per second of the sensor, 2^53 samples take
  longer than three hundred thousand years.)
\<close>

theorem estimate_never_overflows:
  assumes "\<forall>p\<in>set ps. imu_ok p" and "imu_ok p" and "length ps + 3 < 2 ^ 53"
  shows "\<exists>s' os. run state_receive_imu (state_init est_static) ps = Some (s', os) \<and>
    (\<forall>x\<in>set (imu_results s' p). \<bar>x\<bar> \<le> 2 ^ 254)"
proof -
  from est.run_ok [OF est_inv_init assms(1)] obtain s' os
    where r: "run state_receive_imu (state_init est_static) ps = Some (s', os)" by blast
  have "est_range (0 + length ps) s'"
    by (rule imu_run_range [OF assms(1) r est_range_init]) (use assms(3) in simp)
  then show ?thesis using r imu_range(1) [OF assms(2), of "length ps" s'] assms(3) by auto
qed

lemma estimate_never_overflows_witness:
  "\<exists>s' os. run state_receive_imu (state_init est_static) [imu_sample 2000 9] = Some (s', os) \<and>
    (\<forall>x\<in>set (imu_results s' (imu_sample 1900 5)). \<bar>x\<bar> \<le> 2 ^ 254)"
  by (rule estimate_never_overflows) simp_all

end
