(* ===== verification/Rollcontrol_Range.thy ===== *)
theory Rollcontrol_Range
  imports Rollcontrol_Properties State_Range
begin

text \<open>
  The controller stays within the range of the doubles: for every estimate that the state estimation can
  send, in air that is neither a vacuum nor denser than \<open>2 ^ 700\<close>, no operation on the way from the
  roll rate to the canard angle overflows.
\<close>

section \<open>The results of all operations on an estimate\<close>

text \<open>What the floating-point operations of the C functions compute, in the order of the code and before they
  are rounded.\<close>

definition subsonic_results :: "rat \<Rightarrow> rat \<Rightarrow> rat \<Rightarrow> state_data \<Rightarrow> rat list" where
  "subsonic_results set_aa_rad I rd st =
     (let v = vel_up st;
          n1 = fmul 2 set_aa_rad; n2 = fmul n1 I; n3 = fmul n2 FINFIT_A;
          d1 = fmul rd v; d2 = fmul d1 v; d3 = fmul d2 FIN_AREA; d4 = fmul d3 FIN_ARM;
          b = fmul FINFIT_B FINFIT_B; r = fsqrt (fadd (fdiv \<bar>n3\<bar> d4) b)
      in [2 * set_aa_rad, n1 * I, n2 * FINFIT_A, rd * v, d1 * v, d2 * FIN_AREA, d3 * FIN_ARM, \<bar>n3\<bar> / d4,
          FINFIT_B * FINFIT_B, fdiv \<bar>n3\<bar> d4 + b, r, r - FINFIT_B, 2 * FINFIT_A,
          fsub r FINFIT_B / fmul 2 FINFIT_A])"

definition supersonic_results :: "rat \<Rightarrow> rat \<Rightarrow> rat \<Rightarrow> state_data \<Rightarrow> rat list" where
  "supersonic_results set_aa_rad I rd st =
     (let v = vel_up st; n = fmul set_aa_rad I;
          d0 = fmul 2 rd; d1 = fmul d0 v; d2 = fmul d1 v; d3 = fmul d2 FIN_AREA; d4 = fmul d3 FIN_ARM;
          d5 = fmul d4 FIN_CBASE; a = fdiv n d5
      in [set_aa_rad * I, 2 * rd, d0 * v, d1 * v, d2 * FIN_AREA, d3 * FIN_ARM, d4 * FIN_CBASE, n / d5,
          a * 180, fmul a 180 / M_PI])"

definition transonic_results :: "rat \<Rightarrow> rat \<Rightarrow> rat \<Rightarrow> rat list" where
  "transonic_results v y0 y1 =
     (let w = fsub v SUBSONIC; u = fmul (fsub y1 y0) w
      in [y1 - y0, v - SUBSONIC, fsub y1 y0 * w, SUPERSONIC - SUBSONIC, u / fsub SUPERSONIC SUBSONIC,
          y0 + fdiv u (fsub SUPERSONIC SUBSONIC)])"

definition inertia_results :: "rat \<Rightarrow> rat list" where
  "inertia_results t =
     (if t < EXPECTED_BURN_TIME
      then let q = fdiv t EXPECTED_BURN_TIME; d = fsub I_BO I_INIT
           in [I_BO - I_INIT, t / EXPECTED_BURN_TIME, d * q, I_INIT + fmul d q]
      else [])"

definition density_results :: "(rat \<Rightarrow> rat) \<Rightarrow> rat \<Rightarrow> rat list" where
  "density_results cexp alt =
     (let g = - lit (980665 / 100000); m = lit (289644 / 10000000); c = fmul g m;
          R = lit (831432 / 100000); T = lit (28815 / 100);
          x = fdiv (fmul c alt) (fmul R T)
      in [g * m, c * alt, R * T, fmul c alt / fmul R T, cexp x, lit (12250 / 10000) * cexp x])"

definition alpha_results :: "(rat \<Rightarrow> rat) \<Rightarrow> rat \<Rightarrow> state_data \<Rightarrow> rat list" where
  "alpha_results cexp set_aa st =
     (let v = vel_up st; aa = \<bar>degreesToRadians set_aa\<bar>; I = inertia (time st);
          rd = air_density cexp (altitude st)
      in if \<bar>set_aa\<bar> < 1 \<or> v < 1 then []
         else [set_aa * M_PI, fmul set_aa M_PI / 180] @ inertia_results (time st) @
           density_results cexp (altitude st) @
           (if v \<le> SUBSONIC then subsonic_results aa I rd st
            else if v < SUPERSONIC then
              subsonic_results aa I rd st @ supersonic_results aa I rd st @
              (case (subsonic_fin aa I rd st, supersonic_fin aa I rd st) of
                 (Some y0, Some y1) \<Rightarrow> transonic_results v y0 y1 | _ \<Rightarrow> [])
            else supersonic_results aa I rd st))"

definition control_results :: "(rat \<Rightarrow> rat) \<Rightarrow> rc_state \<Rightarrow> state_data \<Rightarrow> rat list" where
  "control_results cexp s st =
     (let error = fsub pidTarget (roll_rate st); p = fmul Kp error; i = fmul Ki (integrator s);
          e = fsub error (lastError s); d = fmul Kd e
      in [pidTarget - roll_rate st, Kp * error, Ki * integrator s, error - lastError s, Kd * e,
          p + i, fadd p i + d, integrator s + error] @
         alpha_results cexp (pid_correction error s) st)"

text \<open>The lists end with the result: rounded, the last entry is the angle that is commanded.\<close>

lemma fin_results_last:
  "subsonic_fin aa I rd st = Some y \<Longrightarrow> y = round64 (last (subsonic_results aa I rd st))"
  "supersonic_fin aa I rd st = Some y \<Longrightarrow> y = round64 (last (supersonic_results aa I rd st))"
  by (auto simp: subsonic_fin_def subsonic_results_def supersonic_fin_def supersonic_results_def
      radiansToDegrees_def checked_div_def fdiv_def Let_def split: if_splits)

lemma results_nonempty: "subsonic_results aa I rd st \<noteq> []" "supersonic_results aa I rd st \<noteq> []"
  by (simp_all add: subsonic_results_def supersonic_results_def Let_def)

lemma alpha_results_last:
  assumes "estimate_alpha cexp c st = Some y" and "1 \<le> \<bar>c\<bar>" and "1 \<le> vel_up st"
  shows "\<bar>y\<bar> = \<bar>round64 (last (alpha_results cexp c st))\<bar>"
  using assms fin_results_last results_nonempty
  by (auto simp: estimate_alpha_def alpha_results_def transonic_results_def fadd_def fdiv_def Let_def
      Option.bind_eq_Some_conv split: if_splits)

section \<open>Magnitudes\<close>

abbreviation fits :: "nat \<Rightarrow> rat \<Rightarrow> bool" where
  "fits n x \<equiv> \<bar>x\<bar> \<le> 2 ^ n"

lemma fits_mono: "fits n x \<Longrightarrow> n \<le> m \<Longrightarrow> fits m x"
  by (rule order_trans [OF _ power_increasing]) simp_all

lemma fits_all: "\<forall>x\<in>set xs. fits n x \<Longrightarrow> n \<le> m \<Longrightarrow> \<forall>x\<in>set xs. fits m x"
  using fits_mono by blast

lemma fits_round: "fits n x \<Longrightarrow> fits n (round64 x)"
  by (rule round64_within_power)

lemma fits_mult: "fits m x \<Longrightarrow> fits n y \<Longrightarrow> fits (m + n) (x * y)"
  using abs_mult_power [of x 1 m y n] by simp

lemma fits_add: "fits n x \<Longrightarrow> fits n y \<Longrightarrow> fits (n + 1) (x + y)"
  using abs_triangle_ineq [of x y] by simp

lemma fits_diff: "fits n x \<Longrightarrow> fits n y \<Longrightarrow> fits (n + 1) (x - y)"
  using abs_triangle_ineq4 [of x y] by simp

lemma fits_div:
  assumes "fits m x" and "2 powi (- int n) \<le> y"
  shows "fits (m + n) (x / y)"
proof -
  have y: "0 < y" using assms(2) by (rule less_le_trans [rotated]) simp
  have "\<bar>x\<bar> \<le> 2 ^ (m + n) * 2 powi (- int n)"
    using assms(1) by (simp add: power_add power_int_minus field_simps)
  also have "\<dots> \<le> 2 ^ (m + n) * y" using assms(2) by (intro mult_left_mono) simp_all
  finally show ?thesis using y by (simp add: abs_divide divide_le_eq)
qed

lemmas fits_float = fits_round [OF fits_mult, folded fmul_def] fits_round [OF fits_add, folded fadd_def]
  fits_round [OF fits_diff, folded fsub_def] fits_round [OF fits_div, folded fdiv_def]

lemma fits_sqrt:
  assumes "x \<le> 2 ^ n" and "n \<le> 2 * m"
  shows "fits (m + 1) (fsqrt x)"
proof (cases "0 < x")
  case False
  then show ?thesis by (simp add: fsqrt_def)
next
  case True
  have "2 powi ilog2 x \<le> x" using ilog2 [OF True] by simp
  also have "\<dots> \<le> 2 powi int (2 * m)"
    unfolding power_int_of_nat using assms by (intro order_trans [OF assms(1) power_increasing]) simp_all
  finally have "ilog2 x \<le> int (2 * m)" by (simp only: powi_le_iff)
  then have "(2::rat) powi (ilog2 x div 2 + 1) \<le> 2 powi int (m + 1)"
    by (subst powi_le_iff) simp
  then have "fsqrt x \<le> 2 powi int (m + 1)" using fsqrt_between(2) [OF True] by (rule order_trans [rotated])
  then have "fsqrt x \<le> 2 ^ (m + 1)" unfolding power_int_of_nat .
  moreover have "(0::rat) < 2 powi (ilog2 x div 2)" by simp
  then have "0 \<le> fsqrt x" using fsqrt_between(1) [OF True] by linarith
  ultimately show ?thesis by simp
qed

section \<open>The bounds\<close>

lemma constant_bounds:
  "fits 3 Kp" "fits 0 Ki" "Kd = 0" "pidTarget = 0" "fits 2 M_PI" "2 powi 1 \<le> M_PI"
  "fits 0 FINFIT_A" "fits 0 FINFIT_B" "fits 0 FIN_AREA" "fits 0 FIN_ARM" "fits 2 FIN_CBASE"
  "2 powi (-10) \<le> fmul 2 FINFIT_A" "fits 0 I_INIT" "fits 0 I_BO" "2 powi 0 \<le> EXPECTED_BURN_TIME"
  "fits 9 SUBSONIC" "fits 9 SUPERSONIC" "fsub SUPERSONIC SUBSONIC = 65"
proof -
  show "fits 3 Kp" "Kd = 0" "pidTarget = 0" "fits 9 SUBSONIC" "fits 9 SUPERSONIC" "fsub SUPERSONIC SUBSONIC = 65"
    by (simp_all add: Kp_def Kd_def pidTarget_def SUBSONIC_def SUPERSONIC_def fsub_def)
  show "fits 0 Ki" by code_simp
  show "fits 2 M_PI" by code_simp
  show "2 powi 1 \<le> M_PI" by code_simp
  show "fits 0 FINFIT_A" by code_simp
  show "fits 0 FINFIT_B" by code_simp
  show "fits 0 FIN_AREA" by code_simp
  show "fits 0 FIN_ARM" by code_simp
  show "fits 2 FIN_CBASE" by code_simp
  show "2 powi (-10) \<le> fmul 2 FINFIT_A" by code_simp
  show "fits 0 I_INIT" by code_simp
  show "fits 0 I_BO" by code_simp
  show "2 powi 0 \<le> EXPECTED_BURN_TIME" by code_simp
qed

text \<open>Air of the densities that are allowed.\<close>

definition light :: "(rat \<Rightarrow> rat) \<Rightarrow> state_data \<Rightarrow> bool" where
  "light cexp st \<longleftrightarrow> dense cexp st \<and> air_density cexp (altitude st) \<le> 2 ^ 700"

definition state_fits :: "state_data \<Rightarrow> bool" where
  "state_fits st \<longleftrightarrow> fits 64 (time st) \<and> fits 133 (vel_up st) \<and> fits 254 (altitude st) \<and> fits 15 (roll_rate st)"

lemma inertia_fits:
  assumes "fits 64 t"
  shows "\<forall>x\<in>set (inertia_results t). fits 66 x" and "fits 66 (inertia t)"
proof -
  note c = constant_bounds
  have d0: "fits 1 (I_BO - I_INIT)" using fits_diff [OF c(14,13)] by simp
  have d: "fits 1 (fsub I_BO I_INIT)" using fits_float(3) [OF c(14,13)] by simp
  have q0: "fits 64 (t / EXPECTED_BURN_TIME)" using fits_div [OF assms, of 0] c(15) by simp
  have q: "fits 64 (fdiv t EXPECTED_BURN_TIME)" unfolding fdiv_def by (rule fits_round [OF q0])
  have p0: "fits 65 (fsub I_BO I_INIT * fdiv t EXPECTED_BURN_TIME)" using fits_mult [OF d q] by simp
  have p: "fits 65 (fmul (fsub I_BO I_INIT) (fdiv t EXPECTED_BURN_TIME))" unfolding fmul_def by (rule fits_round [OF p0])
  have i0: "fits 66 (I_INIT + fmul (fsub I_BO I_INIT) (fdiv t EXPECTED_BURN_TIME))"
    using fits_add [OF fits_mono [OF c(13), of 65] p] by simp
  have "\<forall>x\<in>set [I_BO - I_INIT, t / EXPECTED_BURN_TIME, fsub I_BO I_INIT * fdiv t EXPECTED_BURN_TIME,
      I_INIT + fmul (fsub I_BO I_INIT) (fdiv t EXPECTED_BURN_TIME)]. fits 66 x"
    using fits_mono [OF d0, of 66] fits_mono [OF q0, of 66] fits_mono [OF p0, of 66] i0
    by (simp only: list.set ball_simps simp_thms)
  then show "\<forall>x\<in>set (inertia_results t). fits 66 x" by (simp only: inertia_results_def Let_def list.set split: if_split) blast
  show "fits 66 (inertia t)"
    using fits_round [OF i0] fits_mono [OF c(14), of 66] by (simp only: inertia_def fadd_def split: if_split) simp
qed

lemma density_fits:
  assumes l: "light cexp st" and a: "fits 254 (altitude st)"
  shows "\<forall>x\<in>set (density_results cexp (altitude st)). fits 701 x"
    and "fits 700 (air_density cexp (altitude st))"
proof -
  let ?g = "- lit (980665 / 100000)" and ?m = "lit (289644 / 10000000)"
  let ?R = "lit (831432 / 100000)" and ?T = "lit (28815 / 100)" and ?r = "lit (12250 / 10000)"
  let ?x = "fdiv (fmul (fmul ?g ?m) (altitude st)) (fmul ?R ?T)"
  have k: "fits 4 ?g" "fits 0 ?m" "fits 4 ?R" "fits 9 ?T" "2 powi 0 \<le> fmul ?R ?T" "2 powi 0 \<le> ?r"
    by (code_simp, code_simp, code_simp, code_simp, code_simp, code_simp)
  have rd: "air_density cexp (altitude st) = round64 (?r * cexp ?x)" by (simp only: air_density_def fmul_def)
  have up: "round64 (?r * cexp ?x) \<le> 2 ^ 700" and low: "2 powi (-900) \<le> round64 (?r * cexp ?x)"
    using l by (simp_all only: light_def dense_def rd)
  have e: "?r * cexp ?x \<le> 2 ^ 701"
  proof (rule ccontr)
    assume "\<not> ?thesis"
    then have "round64 (2 ^ 701) \<le> round64 (?r * cexp ?x)" by (intro round64_mono) simp
    moreover have "round64 (2 ^ 701) = 2 ^ 701" by (intro round64_fixes [of _ 1 701]) (simp_all add: power_int_def)
    ultimately have "(2::rat) ^ 701 \<le> 2 ^ 700" using up by linarith
    then show False by simp
  qed
  have pos: "0 < ?r * cexp ?x"
  proof (rule ccontr)
    assume "\<not> ?thesis"
    then have "round64 (?r * cexp ?x) \<le> 0" by (intro round64.nonpos) simp
    moreover have "(0::rat) < 2 powi (-900)" by simp
    ultimately show False using low by linarith
  qed
  have r1: "1 \<le> ?r" using k(6) by simp
  then have c0: "0 < cexp ?x" using pos by (simp add: zero_less_mult_iff)
  then have "cexp ?x \<le> ?r * cexp ?x" using r1 by simp
  with e c0 have c: "fits 701 (cexp ?x)" "fits 701 (?r * cexp ?x)" using pos by (simp_all only: abs_of_pos)
  have gm: "fits 4 (?g * ?m)" using fits_mult [OF k(1,2)] by simp
  have n: "fits 258 (fmul ?g ?m * altitude st)" using fits_mult [OF fits_round [OF gm] a] by (simp add: fmul_def)
  have rt: "fits 13 (?R * ?T)" using fits_mult [OF k(3,4)] by simp
  have q: "fits 258 (fmul (fmul ?g ?m) (altitude st) / fmul ?R ?T)"
    using fits_div [OF fits_round [OF n, folded fmul_def], of 0] k(5) by simp
  show "\<forall>x\<in>set (density_results cexp (altitude st)). fits 701 x"
    unfolding density_results_def Let_def
    using fits_mono [OF gm, of 701] fits_mono [OF n, of 701] fits_mono [OF rt, of 701] fits_mono [OF q, of 701] c
    by (simp only: list.set ball_simps simp_thms)
  have "(0::rat) < 2 powi (-900)" by simp
  with low have "0 < air_density cexp (altitude st)" unfolding rd by linarith
  with up show "fits 700 (air_density cexp (altitude st))" unfolding rd by simp
qed

text \<open>The fin model. The requested acceleration, in radians, fits 21 bits.\<close>

lemma subsonic_fits:
  assumes aa: "fits 21 aa" and I: "fits 66 I" and rd: "fits 700 rd" and v: "fits 133 (vel_up st)"
    and low: "2 powi (-914) \<le> fmul (fmul (fmul (fmul rd (vel_up st)) (vel_up st)) FIN_AREA) FIN_ARM"
  shows "\<forall>x\<in>set (subsonic_results aa I rd st). fits 1004 x"
    and "subsonic_fin aa I rd st = Some y \<Longrightarrow> fits 514 y"
proof -
  define n1 where "n1 = fmul 2 aa"
  define n2 where "n2 = fmul n1 I"
  define n3 where "n3 = fmul n2 FINFIT_A"
  define d1 where "d1 = fmul rd (vel_up st)"
  define d2 where "d2 = fmul d1 (vel_up st)"
  define d3 where "d3 = fmul d2 FIN_AREA"
  define d4 where "d4 = fmul d3 FIN_ARM"
  define b where "b = fmul FINFIT_B FINFIT_B"
  define q where "q = fdiv \<bar>n3\<bar> d4"
  define r where "r = fsqrt (fadd q b)"
  note c = constant_bounds
  have two: "fits 1 (2 :: rat)" by simp
  have n1: "fits 22 (2 * aa)" "fits 22 n1" using fits_mult [OF two aa] fits_float(1) [OF two aa] by (simp_all add: n1_def)
  have n2: "fits 88 (n1 * I)" "fits 88 n2" using fits_mult [OF n1(2) I] fits_float(1) [OF n1(2) I] by (simp_all add: n2_def)
  have n3: "fits 88 (n2 * FINFIT_A)" "fits 88 n3"
    using fits_mult [OF n2(2) c(7)] fits_float(1) [OF n2(2) c(7)] by (simp_all add: n3_def)
  have d1: "fits 833 (rd * vel_up st)" "fits 833 d1" using fits_mult [OF rd v] fits_float(1) [OF rd v] by (simp_all add: d1_def)
  have d2: "fits 966 (d1 * vel_up st)" "fits 966 d2" using fits_mult [OF d1(2) v] fits_float(1) [OF d1(2) v] by (simp_all add: d2_def)
  have d3: "fits 966 (d2 * FIN_AREA)" "fits 966 d3"
    using fits_mult [OF d2(2) c(9)] fits_float(1) [OF d2(2) c(9)] by (simp_all add: d3_def)
  have d4: "fits 966 (d3 * FIN_ARM)" using fits_mult [OF d3(2) c(10)] by simp
  have low': "2 powi (- int 914) \<le> d4" using low by (simp add: d4_def d3_def d2_def d1_def)
  have a3: "fits 88 \<bar>n3\<bar>" using n3(2) by simp
  have q: "fits 1002 (\<bar>n3\<bar> / d4)" "fits 1002 q"
    using fits_div [OF a3 low'] fits_float(4) [OF a3 low'] by (simp_all add: q_def)
  have b: "fits 0 (FINFIT_B * FINFIT_B)" "fits 0 b"
    using fits_mult [OF c(8,8)] fits_float(1) [OF c(8,8)] by (simp_all add: b_def)
  note b' = fits_mono [OF b(2), of 1002]
  have s: "fits 1003 (q + b)" "fits 1003 (fadd q b)"
    using fits_add [OF q(2) b'] fits_float(2) [OF q(2) b'] by simp_all
  have r: "fits 503 r" using fits_sqrt [of "fadd q b" 1003 502] s(2) by (simp add: r_def)
  note B = fits_mono [OF c(8), of 503]
  have t: "fits 504 (r - FINFIT_B)" "fits 504 (fsub r FINFIT_B)"
    using fits_diff [OF r B] fits_float(3) [OF r B] by simp_all
  have A: "fits 1 (2 * FINFIT_A)" using fits_mult [OF two c(7)] by simp
  have u: "fits 514 (fsub r FINFIT_B / fmul 2 FINFIT_A)" "fits 514 (fdiv (fsub r FINFIT_B) (fmul 2 FINFIT_A))"
    using fits_div [OF t(2), of 10] fits_float(4) [OF t(2), of 10] c(12) by simp_all
  have "subsonic_results aa I rd st = [2 * aa, n1 * I, n2 * FINFIT_A, rd * vel_up st, d1 * vel_up st,
      d2 * FIN_AREA, d3 * FIN_ARM, \<bar>n3\<bar> / d4, FINFIT_B * FINFIT_B, q + b, r, r - FINFIT_B, 2 * FINFIT_A,
      fsub r FINFIT_B / fmul 2 FINFIT_A]"
    by (simp only: subsonic_results_def Let_def n1_def n2_def n3_def d1_def d2_def d3_def d4_def b_def q_def r_def)
  moreover note fits_mono [OF n1(1), of 1004] fits_mono [OF n2(1), of 1004] fits_mono [OF n3(1), of 1004]
    fits_mono [OF d1(1), of 1004] fits_mono [OF d2(1), of 1004] fits_mono [OF d3(1), of 1004] fits_mono [OF d4, of 1004]
    fits_mono [OF q(1), of 1004] fits_mono [OF b(1), of 1004] fits_mono [OF s(1), of 1004] fits_mono [OF r, of 1004]
    fits_mono [OF t(1), of 1004] fits_mono [OF A, of 1004] fits_mono [OF u(1), of 1004]
  ultimately show "\<forall>x\<in>set (subsonic_results aa I rd st). fits 1004 x"
    by (simp only: list.set ball_simps simp_thms)
  show "subsonic_fin aa I rd st = Some y \<Longrightarrow> fits 514 y"
    using u(2) by (auto simp: subsonic_fin_def checked_div_def Let_def r_def q_def b_def n3_def n2_def n1_def
        d4_def d3_def d2_def d1_def split: if_splits)
qed

lemma supersonic_fits:
  assumes aa: "fits 21 aa" and I: "fits 66 I" and rd: "fits 700 rd" and v: "fits 133 (vel_up st)"
    and low: "2 powi (-914) \<le>
      fmul (fmul (fmul (fmul (fmul (fmul 2 rd) (vel_up st)) (vel_up st)) FIN_AREA) FIN_ARM) FIN_CBASE"
  shows "\<forall>x\<in>set (supersonic_results aa I rd st). fits 1009 x"
    and "supersonic_fin aa I rd st = Some y \<Longrightarrow> fits 1009 y"
proof -
  define n where "n = fmul aa I"
  define d0 where "d0 = fmul 2 rd"
  define d1 where "d1 = fmul d0 (vel_up st)"
  define d2 where "d2 = fmul d1 (vel_up st)"
  define d3 where "d3 = fmul d2 FIN_AREA"
  define d4 where "d4 = fmul d3 FIN_ARM"
  define d5 where "d5 = fmul d4 FIN_CBASE"
  define a where "a = fdiv n d5"
  note c = constant_bounds
  have two: "fits 1 (2 :: rat)" by simp
  have n: "fits 87 (aa * I)" "fits 87 n" using fits_mult [OF aa I] fits_float(1) [OF aa I] by (simp_all add: n_def)
  have d0: "fits 701 (2 * rd)" "fits 701 d0" using fits_mult [OF two rd] fits_float(1) [OF two rd] by (simp_all add: d0_def)
  have d1: "fits 834 (d0 * vel_up st)" "fits 834 d1"
    using fits_mult [OF d0(2) v] fits_float(1) [OF d0(2) v] by (simp_all add: d1_def)
  have d2: "fits 967 (d1 * vel_up st)" "fits 967 d2"
    using fits_mult [OF d1(2) v] fits_float(1) [OF d1(2) v] by (simp_all add: d2_def)
  have d3: "fits 967 (d2 * FIN_AREA)" "fits 967 d3"
    using fits_mult [OF d2(2) c(9)] fits_float(1) [OF d2(2) c(9)] by (simp_all add: d3_def)
  have d4: "fits 967 (d3 * FIN_ARM)" "fits 967 d4"
    using fits_mult [OF d3(2) c(10)] fits_float(1) [OF d3(2) c(10)] by (simp_all add: d4_def)
  have d5: "fits 969 (d4 * FIN_CBASE)" using fits_mult [OF d4(2) c(11)] by simp
  have low': "2 powi (- int 914) \<le> d5" using low by (simp add: d5_def d4_def d3_def d2_def d1_def d0_def)
  have a: "fits 1001 (n / d5)" "fits 1001 a"
    using fits_div [OF n(2) low'] fits_float(4) [OF n(2) low'] by (simp_all add: a_def)
  have deg: "fits 8 (180 :: rat)" by simp
  have r: "fits 1009 (a * 180)" "fits 1009 (fmul a 180)" using fits_mult [OF a(2) deg] fits_float(1) [OF a(2) deg] by simp_all
  have pi: "2 powi (- int 0) \<le> M_PI" using c(6) by simp
  have u: "fits 1009 (fmul a 180 / M_PI)" "fits 1009 (fdiv (fmul a 180) M_PI)"
    using fits_div [OF r(2) pi] fits_float(4) [OF r(2) pi] by simp_all
  have "supersonic_results aa I rd st = [aa * I, 2 * rd, d0 * vel_up st, d1 * vel_up st, d2 * FIN_AREA,
      d3 * FIN_ARM, d4 * FIN_CBASE, n / d5, a * 180, fmul a 180 / M_PI]"
    by (simp only: supersonic_results_def Let_def n_def d0_def d1_def d2_def d3_def d4_def d5_def a_def)
  moreover note fits_mono [OF n(1), of 1009] fits_mono [OF d0(1), of 1009] fits_mono [OF d1(1), of 1009]
    fits_mono [OF d2(1), of 1009] fits_mono [OF d3(1), of 1009] fits_mono [OF d4(1), of 1009] fits_mono [OF d5, of 1009]
    fits_mono [OF a(1), of 1009] r(1) u(1)
  ultimately show "\<forall>x\<in>set (supersonic_results aa I rd st). fits 1009 x"
    by (simp only: list.set ball_simps simp_thms)
  show "supersonic_fin aa I rd st = Some y \<Longrightarrow> fits 1009 y"
    using u(2) by (auto simp: supersonic_fin_def checked_div_def radiansToDegrees_def Let_def a_def n_def
        d5_def d4_def d3_def d2_def d1_def d0_def split: if_splits)
qed

lemma transonic_fits:
  assumes y0: "fits 514 y0" and y1: "fits 1009 y1" and v: "265 < v" "v < 330"
  shows "\<forall>x\<in>set (transonic_results v y0 y1). fits 1018 x"
proof -
  define w where "w = fsub v SUBSONIC"
  define u where "u = fmul (fsub y1 y0) w"
  note c = constant_bounds
  have w0: "fits 7 (v - SUBSONIC)" using v by (simp add: SUBSONIC_def)
  then have w: "fits 7 w" unfolding w_def fsub_def by (rule fits_round)
  note y0' = fits_mono [OF y0, of 1009]
  have d: "fits 1010 (y1 - y0)" "fits 1010 (fsub y1 y0)" using fits_diff [OF y1 y0'] fits_float(3) [OF y1 y0'] by simp_all
  have u: "fits 1017 (fsub y1 y0 * w)" "fits 1017 u" using fits_mult [OF d(2) w] fits_float(1) [OF d(2) w] by (simp_all add: u_def)
  have k: "2 powi (- int 0) \<le> fsub SUPERSONIC SUBSONIC" using c(18) by simp
  have q: "fits 1017 (u / fsub SUPERSONIC SUBSONIC)" "fits 1017 (fdiv u (fsub SUPERSONIC SUBSONIC))"
    using fits_div [OF u(2) k] fits_float(4) [OF u(2) k] by simp_all
  have r: "fits 1018 (y0 + fdiv u (fsub SUPERSONIC SUBSONIC))"
    using fits_add [OF fits_mono [OF y0, of 1017] q(2)] by simp
  have s: "fits 10 (SUPERSONIC - SUBSONIC)" using fits_diff [OF c(17,16)] by simp
  have "transonic_results v y0 y1 = [y1 - y0, v - SUBSONIC, fsub y1 y0 * w, SUPERSONIC - SUBSONIC,
      u / fsub SUPERSONIC SUBSONIC, y0 + fdiv u (fsub SUPERSONIC SUBSONIC)]"
    by (simp only: transonic_results_def Let_def w_def u_def)
  moreover note fits_mono [OF d(1), of 1018] fits_mono [OF w0, of 1018] fits_mono [OF u(1), of 1018]
    fits_mono [OF s, of 1018] fits_mono [OF q(1), of 1018] r
  ultimately show ?thesis by (simp only: list.set ball_simps simp_thms)
qed

lemma alpha_fits:
  assumes l: "light cexp st" and st: "state_fits st" and c: "fits 19 c"
  shows "\<forall>x\<in>set (alpha_results cexp c st). fits 1018 x"
proof (cases "\<bar>c\<bar> < 1 \<or> vel_up st < 1")
  case True
  then show ?thesis by (simp add: alpha_results_def Let_def)
next
  case False
  then have v1: "1 \<le> vel_up st" by simp
  define aa where "aa = \<bar>degreesToRadians c\<bar>"
  define I where "I = inertia (time st)"
  define rd where "rd = air_density cexp (altitude st)"
  note k = constant_bounds
  have st': "fits 64 (time st)" "fits 133 (vel_up st)" "fits 254 (altitude st)" using st by (simp_all add: state_fits_def)
  have m: "fits 21 (c * M_PI)" "fits 21 (fmul c M_PI)" using fits_mult [OF c k(5)] fits_float(1) [OF c k(5)] by simp_all
  have deg: "2 powi (- int 0) \<le> (180 :: rat)" by simp
  have d: "fits 21 (fmul c M_PI / 180)" using fits_div [OF m(2) deg] by simp
  have aa: "fits 21 aa" using fits_round [OF d] by (simp add: aa_def degreesToRadians_def fdiv_def)
  have I: "fits 66 I" unfolding I_def by (rule inertia_fits(2) [OF st'(1)])
  have rd: "fits 700 rd" unfolding rd_def by (rule density_fits(2) [OF l st'(3)])
  have "2 powi (-900) \<le> rd" "is_double rd"
    using l by (simp_all add: rd_def light_def dense_def air_density_double)
  note low = denominators_ge [OF this v1]
  note sub = subsonic_fits [OF aa I rd st'(2) low(1)] and super = supersonic_fits [OF aa I rd st'(2) low(2)]
  have trans: "\<forall>x\<in>set (case (subsonic_fin aa I rd st, supersonic_fin aa I rd st) of
      (Some y0, Some y1) \<Rightarrow> transonic_results (vel_up st) y0 y1 | _ \<Rightarrow> []). fits 1018 x"
    if "\<not> vel_up st \<le> SUBSONIC" "vel_up st < SUPERSONIC"
  proof (cases "subsonic_fin aa I rd st"; cases "supersonic_fin aa I rd st")
    fix y0 y1 assume y: "subsonic_fin aa I rd st = Some y0" "supersonic_fin aa I rd st = Some y1"
    show ?thesis unfolding y option.case prod.case
      using that by (intro transonic_fits sub(2) [OF y(1)] super(2) [OF y(2)]) (simp_all add: SUBSONIC_def SUPERSONIC_def)
  qed simp_all
  note all = fits_all [OF inertia_fits(1) [OF st'(1)], of 1018] fits_all [OF density_fits(1) [OF l st'(3)], of 1018]
    fits_all [OF sub(1), of 1018] fits_all [OF super(1), of 1018] fits_mono [OF m(1), of 1018] fits_mono [OF d, of 1018]
  show ?thesis
    using all trans
    unfolding alpha_results_def Let_def aa_def [symmetric] I_def [symmetric] rd_def [symmetric] if_not_P [OF False]
    by (simp only: set_append list.set ball_Un ball_simps simp_thms split: if_split) simp
qed

lemma control_fits:
  assumes l: "light cexp st" and st: "state_fits st" and s: "\<bar>integrator s\<bar> \<le> 10000" "fits 15 (lastError s)"
  shows "\<forall>x\<in>set (control_results cexp s st). fits 1018 x"
proof -
  define e where "e = fsub pidTarget (roll_rate st)"
  define p where "p = fmul Kp e"
  define i where "i = fmul Ki (integrator s)"
  define d where "d = fmul Kd (fsub e (lastError s))"
  note k = constant_bounds
  have e0: "fits 15 (pidTarget - roll_rate st)" using st k(4) by (simp add: state_fits_def)
  then have e: "fits 15 e" unfolding e_def fsub_def by (rule fits_round)
  have i0: "fits 14 (integrator s)" using s(1) by simp
  have p: "fits 18 (Kp * e)" "fits 18 p" using fits_mult [OF k(1) e] fits_float(1) [OF k(1) e] by (simp_all add: p_def)
  have i: "fits 14 (Ki * integrator s)" "fits 14 i" using fits_mult [OF k(2) i0] fits_float(1) [OF k(2) i0] by (simp_all add: i_def)
  have d: "fits 0 (Kd * fsub e (lastError s))" "fits 0 d" by (simp_all add: k(3) d_def)
  have ee: "fits 16 (e - lastError s)" using fits_diff [OF e s(2)] by simp
  have "\<bar>round64 (5 * e)\<bar> \<le> of_nat 5 * 2 ^ 15" by (rule round64_within) (use e in \<open>simp_all add: abs_mult\<close>)
  then have "\<bar>p\<bar> \<le> 5 * 2 ^ 15" by (simp add: p_def fmul_def Kp_def)
  then have pi0: "fits 18 (p + i)" using i(2) by (simp add: abs_le_iff)
  then have pi: "fits 18 (fadd p i)" unfolding fadd_def by (rule fits_round)
  have c0: "fits 19 (fadd p i + d)" using fits_add [OF pi fits_mono [OF d(2), of 18]] by simp
  have c: "fits 19 (pid_correction e s)"
    using fits_round [OF c0] by (simp add: pid_correction_def Let_def fadd_def p_def i_def d_def)
  have n: "fits 16 (integrator s + e)" using fits_add [OF fits_mono [OF i0, of 15] e] by simp
  have "control_results cexp s st = [pidTarget - roll_rate st, Kp * e, Ki * integrator s, e - lastError s,
      Kd * fsub e (lastError s), p + i, fadd p i + d, integrator s + e] @ alpha_results cexp (pid_correction e s) st"
    by (simp only: control_results_def Let_def e_def p_def i_def d_def)
  moreover note alpha_fits [OF l st c] fits_mono [OF e0, of 1018] fits_mono [OF p(1), of 1018]
    fits_mono [OF i(1), of 1018] fits_mono [OF ee, of 1018] fits_mono [OF d(1), of 1018]
    fits_mono [OF pi0, of 1018] fits_mono [OF c0, of 1018] fits_mono [OF n, of 1018]
  ultimately show ?thesis
    by (simp only: set_append list.set ball_Un ball_simps simp_thms)
qed

section \<open>What the state estimation sends\<close>

lemma est_range_fits:
  assumes "est_range k s" and "k + 1 < 2 ^ 53"
  shows "state_fits (current_state s)"
proof -
  have "of_nat k * 2 ^ 80 \<le> (2::rat) ^ 133" "of_nat (k + 1) * 2 ^ 200 \<le> (2::rat) ^ 253"
    using count_power [of k 80] count_power [of "k + 1" 200] assms(2) by simp_all
  moreover have "(2::rat) ^ 253 \<le> 2 ^ 254" by (rule power_increasing) simp_all
  ultimately show ?thesis using assms(1) unfolding est_range_def state_fits_def by linarith
qed

lemma sent_estimate_fits:
  assumes "imu_ok p" and "est_range k s" and "k + 2 < 2 ^ 53" and "state_receive_imu s p = Some (s', out)"
    and "Send (state_send_message i ts n st) \<in> set out"
  shows "state_fits st"
proof -
  have "est_range (k + 1) s'" by (rule imu_range(2) [OF assms(1-4)])
  moreover have "st = current_state s'"
    using assms(4,5) by (auto simp: state_receive_imu_eq [OF assms(1)] Let_def)
  ultimately show ?thesis using est_range_fits [of "k + 1" s'] assms(3) by simp
qed

lemma sent_estimates_fit:
  assumes "\<forall>p\<in>set ps. imu_ok p" and "run state_receive_imu s ps = Some (s', out)"
    and "est_range k s" and "k + length ps + 2 \<le> 2 ^ 53" and "Send (state_send_message i ts n st) \<in> set out"
  shows "state_fits st"
  using assms
proof (induction ps arbitrary: s k out)
  case (Cons p ps)
  then obtain t o1 o2 where 1: "state_receive_imu s p = Some (t, o1)"
    and 2: "run state_receive_imu t ps = Some (s', o2)" and out: "out = o1 @ o2"
    by (auto simp: Option.bind_eq_Some_conv)
  have p: "imu_ok p" and k: "k + 2 < 2 ^ 53" using Cons.prems(1,4) by simp_all
  have "est_range (k + 1) t" by (rule imu_range(2) [OF p Cons.prems(3) k 1])
  with Cons.IH [OF _ 2 this] Cons.prems(1,4,5) sent_estimate_fits [OF p Cons.prems(3) k 1] out show ?case by auto
qed simp

text \<open>The controller remembers an error that is bounded like the roll rates it has seen.\<close>

fun event_fits :: "rc_event \<Rightarrow> bool" where
  "event_fits (RcState i ts st) \<longleftrightarrow> state_fits st"
| "event_fits _ \<longleftrightarrow> True"

lemma lastError_fits:
  assumes "rc_admissible cexp e" and "event_fits e" and "fits 15 (lastError s)"
    and "rc_step clk cexp s e = Some (s', out)"
  shows "fits 15 (lastError s')"
proof (cases e)
  case (RcState i ts st)
  have pid: "lastError (pid_update x s) = x" for x by (simp add: pid_update_def Let_def)
  have "fits 15 (fsub pidTarget (roll_rate st))"
    using fits_round [of "pidTarget - roll_rate st" 15] assms(2) RcState constant_bounds(4)
    by (simp add: state_fits_def fsub_def)
  moreover have ts: "6 \<le> length ts" and "dense cexp st" using assms(1) RcState by simp_all
  then obtain y where "estimate_alpha cexp (pid_correction (fsub pidTarget (roll_rate st)) s) st = Some y"
    using estimate_alpha_defined by blast
  ultimately show ?thesis
    using assms(3,4) RcState pid rc_receive_state_active [OF ts] rc_receive_state_timeout [OF ts]
      rc_receive_state_idle [OF ts] rc_receive_state_other [OF ts]
    by (cases "timed_out ts s"; cases "enable_servo s"; cases "take 4 i = ''VSTE''") fastforce+
qed (use assms in \<open>auto simp: rc_receive_arm_eq rc_raw_umb_eq rc_raw_testrc_eq split: if_splits\<close>)

lemma run_lastError_fits:
  assumes "\<forall>e\<in>set es. rc_admissible cexp e \<and> event_fits e" and "fits 15 (lastError s)"
    and "run (rc_step clk cexp) s es = Some (s', out)"
  shows "fits 15 (lastError s')"
  using assms
proof (induction es arbitrary: s out)
  case (Cons e es)
  then obtain t o1 o2 where 1: "rc_step clk cexp s e = Some (t, o1)"
    and 2: "run (rc_step clk cexp) t es = Some (s', o2)" by (auto simp: Option.bind_eq_Some_conv)
  have "fits 15 (lastError t)" using lastError_fits [OF _ _ _ 1] Cons.prems by simp
  with Cons.IH [OF _ _ 2] Cons.prems(1) show ?case by simp
qed simp

section \<open>Property\<close>

text \<open>An event that hands the controller an estimate that was sent.\<close>

fun fed_by :: "action list \<Rightarrow> rc_event \<Rightarrow> bool" where
  "fed_by sent (RcState i ts st) \<longleftrightarrow> (\<exists>n. Send (state_send_message i ts n st) \<in> set sent)"
| "fed_by sent e \<longleftrightarrow> True"

text \<open>
  C24: the controller never overflows on what the estimator sends. Let the state estimation process any
  fewer than 2^53 samples of any content, and let the controller react to any of its estimates and any
  signals, umbilical reports and test commands. When it is then given another estimate, for which the
  air is denser than \<open>2 ^ -900\<close> and not denser than \<open>2 ^ 700\<close> kilograms per cubic metre, every
  floating-point operation from the roll rate to the canard angle has a result of at most 2^1018 in
  magnitude, below the largest double. \<open>cexp\<close> is \<open>exp\<close> of the C library.
\<close>

theorem control_never_overflows:
  assumes samples: "\<forall>p\<in>set ps. imu_ok p" "length ps + 2 \<le> 2 ^ 53"
    and sent: "run state_receive_imu (state_init est_static) ps = Some (s', sent)"
    and es: "\<forall>e\<in>set es. rc_admissible cexp e \<and> fed_by sent e"
    and st: "Send (state_send_message i ts n st) \<in> set sent" "dense cexp st"
      "air_density cexp (altitude st) \<le> 2 ^ 700"
  shows "\<exists>s out. run (rc_step clk cexp) (fst (rollcontrol_init env rc_static)) es = Some (s, out) \<and>
    (\<forall>x\<in>set (control_results cexp s st). \<bar>x\<bar> \<le> 2 ^ 1018)"
proof -
  have fit: "state_fits x" if "Send (state_send_message j us m x) \<in> set sent" for j us m x
    using sent_estimates_fit [OF samples(1) sent est_range_init _ that] samples(2) by simp
  then have "event_fits e" if "fed_by sent e" for e using that by (cases e) auto
  with es have es': "\<forall>e\<in>set es. rc_admissible cexp e \<and> event_fits e" by blast
  then obtain s out where r: "run (rc_step clk cexp) (fst (rollcontrol_init env rc_static)) es = Some (s, out)"
    "rc_inv s" using rc.run_ok [OF rc_inv_init] by blast
  have "lastError (fst (rollcontrol_init env rc_static)) = 0"
    by (auto simp: rollcontrol_init_def rc_static_def set_armed_def set_servo_enable_def udp_socket_def Let_def)
  then have "fits 15 (lastError s)" by (intro run_lastError_fits [OF es' _ r(1)]) simp
  moreover have "light cexp st" using st by (simp add: light_def)
  ultimately show ?thesis using control_fits fit [OF st(1)] r by (auto simp: rc_inv_def)
qed

lemma control_never_overflows_witness:
  "\<exists>s' st ts. run state_receive_imu (state_init est_static) [imu_sample 2000 9] =
      Some (s', [Send (state_send_message ''VSTE'' ts 48 st)]) \<and>
    (\<exists>s out. run (rc_step clock0 (\<lambda>_. 1)) (fst (rollcontrol_init env0 rc_static))
        [RcArm ''ARM'', RcState ''VSTE'' ts st] = Some (s, out) \<and>
      (\<forall>x\<in>set (control_results (\<lambda>_. 1) s st). \<bar>x\<bar> \<le> 2 ^ 1018))"
proof -
  obtain s' st ts where r: "run state_receive_imu (state_init est_static) [imu_sample 2000 9] =
      Some (s', [Send (state_send_message ''VSTE'' ts 48 st)])" and ts: "ts = be_of 6 9"
    by (simp add: state_receive_imu_eq Let_def)
  have "lit (12250 / 10000) \<le> 2" by code_simp
  then have "fits 1 (lit (12250 / 10000))" by (simp add: lit_def round64_nonneg)
  then have "fits 1 (air_density (\<lambda>_. 1) (altitude st))"
    unfolding air_density_def fmul_def by (intro fits_round) simp
  then have "fits 700 (air_density (\<lambda>_. 1) (altitude st))" by (rule fits_mono) simp
  then have "air_density (\<lambda>_. 1) (altitude st) \<le> 2 ^ 700" by (rule order_trans [OF abs_ge_self])
  then have "\<exists>s out. run (rc_step clock0 (\<lambda>_. 1)) (fst (rollcontrol_init env0 rc_static))
        [RcArm ''ARM'', RcState ''VSTE'' ts st] = Some (s, out) \<and>
      (\<forall>x\<in>set (control_results (\<lambda>_. 1) s st). \<bar>x\<bar> \<le> 2 ^ 1018)"
    by (intro control_never_overflows [OF _ _ r]) (use ts in auto)
  with r show ?thesis by blast
qed

end
