(* ===== verification/Rollservo.thy ===== *)
theory Rollservo
  imports Rollcontrol_Proofs
begin

text \<open>
  \<open>src/src/devices/rollservo.c\<close>: a canard angle becomes a pulse width for the servo board. The
  state is the static sequence number of \<open>rs_receive_adj\<close>. A message whose angle is not finite, or
  for which the conversion of the ticks to \<open>uint16_t\<close> would be out of range, gives \<open>None\<close>.
\<close>

section \<open>The code\<close>

definition rollservo_init :: "bool \<Rightarrow> socket_env \<Rightarrow> int \<times> syscall list" where
  "rollservo_init live env =
     (let (sd, calls) = udp_socket env
      in if sd < 0 then (sd, calls)
         else let calls = calls @ [Connect sd (ROLL_ADDR live)]
              in if connect_ret env < 0 then (sd, calls @ [Close sd]) else (sd, calls))"

definition rollservo_final :: "int \<Rightarrow> syscall list" where
  "rollservo_final sd = [Close sd]"

definition PWM_TICKS_MAX :: int where "PWM_TICKS_MAX = 56000"
definition PWM_US_MAX :: int where "PWM_US_MAX = 3333"
definition MAX_SERVO_POSITION_US :: int where "MAX_SERVO_POSITION_US = 1900"
definition MIN_SERVO_POSITION_US :: int where "MIN_SERVO_POSITION_US = 1100"

definition MAX_SERVO_POSITION_TICKS :: int where
  "MAX_SERVO_POSITION_TICKS = MAX_SERVO_POSITION_US * PWM_TICKS_MAX div PWM_US_MAX"

definition MIN_SERVO_POSITION_TICKS :: int where
  "MIN_SERVO_POSITION_TICKS = MIN_SERVO_POSITION_US * PWM_TICKS_MAX div PWM_US_MAX"

definition PWM_TICKS_PER_DEGREE :: rat where
  "PWM_TICKS_PER_DEGREE =
     fdiv (double_of_int (MAX_SERVO_POSITION_TICKS - MIN_SERVO_POSITION_TICKS))
          (fsub MAX_CANARD_ANGLE MIN_CANARD_ANGLE)"

definition PWM_TICKS_CENTER :: rat where
  "PWM_TICKS_CENTER =
     fsub (double_of_int MIN_SERVO_POSITION_TICKS) (fmul PWM_TICKS_PER_DEGREE MIN_CANARD_ANGLE)"

text \<open>The conversion of a double to \<open>uint16_t\<close> truncates, and is undefined out of range.\<close>

definition double_to_u16 :: "rat \<Rightarrow> u16 option" where
  "double_to_u16 x =
     (if -1 < x \<and> x < 65536 then Some (word_of_int (if 0 \<le> x then \<lfloor>x\<rfloor> else \<lceil>x\<rceil>)) else None)"

definition rs_receive_adj :: "u32 \<Rightarrow> ROLLMessage \<Rightarrow> (u32 \<times> action list) option" where
  "rs_receive_adj seq adj = do {
     a \<leftarrow> double_of_bits (angle adj);
     ticks \<leftarrow> double_to_u16 (fadd (fmul PWM_TICKS_PER_DEGREE a) PWM_TICKS_CENTER);
     let ticks = (word_of_int
       (CLAMP (uint ticks) MIN_SERVO_POSITION_TICKS MAX_SERVO_POSITION_TICKS) :: u16);
     let data = [ucast (drop_bit 24 seq), ucast (drop_bit 16 seq), ucast (drop_bit 8 seq), ucast seq,
                 ucast (drop_bit 8 ticks), ucast ticks, disable adj];
     Some (seq + 1, [Write RollServoSocket data])
   }"

section \<open>Ticks\<close>

lemma servo_ticks [simp]:
  "MIN_SERVO_POSITION_TICKS = 18481" "MAX_SERVO_POSITION_TICKS = 31923"
  by (simp_all add: MIN_SERVO_POSITION_TICKS_def MAX_SERVO_POSITION_TICKS_def
      MIN_SERVO_POSITION_US_def MAX_SERVO_POSITION_US_def PWM_TICKS_MAX_def PWM_US_MAX_def)

text \<open>The ticks for an angle, as a number.\<close>

definition raw_ticks :: "rat \<Rightarrow> rat" where
  "raw_ticks a = fadd (fmul PWM_TICKS_PER_DEGREE a) PWM_TICKS_CENTER"

definition ticks_of :: "rat \<Rightarrow> int" where
  "ticks_of a = CLAMP \<lfloor>raw_ticks a\<rfloor> 18481 31923"

lemma PWM_slope: "0 \<le> PWM_TICKS_PER_DEGREE"
  by code_simp

lemma raw_ticks_mono: "a \<le> b \<Longrightarrow> raw_ticks a \<le> raw_ticks b"
  unfolding raw_ticks_def fadd_def fmul_def
  by (intro round64_mono add_right_mono mult_left_mono PWM_slope)

lemma raw_ticks_at: "raw_ticks (-15) = 18481" "raw_ticks 0 = 25202" "raw_ticks 15 = 31923"
proof -
  show "raw_ticks (-15) = 18481" by code_simp
  show "raw_ticks 0 = 25202" by code_simp
  show "raw_ticks 15 = 31923" by code_simp
qed

lemma raw_ticks_range:
  assumes "-15 \<le> a" and "a \<le> 15"
  shows "18481 \<le> raw_ticks a" and "raw_ticks a \<le> 31923"
  using raw_ticks_mono [OF assms(1)] raw_ticks_mono [OF assms(2)] by (simp_all add: raw_ticks_at)

lemma ticks_of_mono: "a \<le> b \<Longrightarrow> ticks_of a \<le> ticks_of b"
  unfolding ticks_of_def by (intro CLAMP_mono floor_mono raw_ticks_mono) simp_all

lemma ticks_of_range: "18481 \<le> ticks_of a" "ticks_of a \<le> 31923"
  unfolding ticks_of_def by (intro CLAMP_bounds; simp)+

text \<open>The packet for the servo board.\<close>

definition servo_packet :: "u32 \<Rightarrow> int \<Rightarrow> u8 \<Rightarrow> bytes" where
  "servo_packet seq ticks dis = be32 seq @ be16 (word_of_int ticks) @ [dis]"

lemma word_bytes:
  "[ucast (drop_bit 24 w4), ucast (drop_bit 16 w4), ucast (drop_bit 8 w4), ucast w4] = be32 (w4 :: u32)"
  "[ucast (drop_bit 8 w2), ucast w2] = be16 (w2 :: u16)"
  using ucast_drop_bit [of 0 w4, where 'b = 8] ucast_drop_bit [of 0 w2, where 'b = 8]
  by (simp_all add: be32_def be16_def be_of_numeral ucast_drop_bit)

lemma rs_receive_adj_eq:
  assumes "double_of_bits (angle adj) = Some a" and "-1 < raw_ticks a" and "raw_ticks a < 65536"
  shows "rs_receive_adj seq adj =
    Some (seq + 1, [Write RollServoSocket (servo_packet seq (ticks_of a) (disable adj))])"
proof -
  define t where "t = (if 0 \<le> raw_ticks a then \<lfloor>raw_ticks a\<rfloor> else \<lceil>raw_ticks a\<rceil>)"
  have t0: "0 \<le> t"
    using assms(2) unfolding t_def by (auto simp: le_ceiling_iff)
  have t1: "t < 65536"
    using assms(3) unfolding t_def by (auto simp: floor_less_iff ceiling_less_iff)
  have u: "uint (word_of_int t :: u16) = t"
    using t0 t1 by (intro word_of_int_inverse [OF refl]) simp_all
  have c: "CLAMP t 18481 31923 = ticks_of a"
  proof (cases "0 \<le> raw_ticks a")
    case False
    then have "\<lceil>raw_ticks a\<rceil> \<le> 0" "\<lfloor>raw_ticks a\<rfloor> < 0" by (simp_all add: ceiling_le_iff floor_less_iff)
    with False show ?thesis by (simp add: t_def ticks_of_def CLAMP_def)
  qed (simp add: t_def ticks_of_def)
  have "double_to_u16 (raw_ticks a) = Some (word_of_int t)"
    using assms(2,3) by (simp add: double_to_u16_def t_def)
  then have "rs_receive_adj seq adj = Some (seq + 1, [Write RollServoSocket
      ([ucast (drop_bit 24 seq), ucast (drop_bit 16 seq), ucast (drop_bit 8 seq), ucast seq] @
       [ucast (drop_bit 8 (word_of_int (ticks_of a) :: u16)), ucast (word_of_int (ticks_of a) :: u16)]
       @ [disable adj])])"
    unfolding rs_receive_adj_def raw_ticks_def [symmetric] assms(1) by (simp add: u c Let_def)
  then show ?thesis by (simp only: word_bytes servo_packet_def)
qed

section \<open>Properties\<close>

text \<open>
  Every command of the controller drives the servos within their travel. A sequence of
  commands as roll control promises them becomes one packet each: the number of the packet,
  counting from the current one and wrapping, big-endian in four bytes, the pulse width in two
  bytes, between 18481 and 31923 ticks (1100 and 1900 microseconds), and the disable flag.
\<close>

lemma servo_packets_in_range:
  assumes "\<forall>m\<in>set ms. servo_message_ok m"
  shows "\<exists>ticks. run rs_receive_adj n ms = Some (n + word_of_nat (length ms),
      map (\<lambda>(k, m, t). Write RollServoSocket
             (be32 (n + word_of_nat k) @ be16 (word_of_int t) @ [disable m]))
          (zip [0..<length ms] (zip ms ticks))) \<and>
    length ticks = length ms \<and> (\<forall>t\<in>set ticks. 18481 \<le> t \<and> t \<le> 31923)"
  using assms
proof (induction ms arbitrary: n)
  case Nil
  show ?case by (intro exI [of _ "[]"]) simp
next
  case (Cons m ms)
  obtain a where a: "double_of_bits (angle m) = Some a" "-15 \<le> a" "a \<le> 15"
    using Cons.prems by (auto simp: servo_message_ok_def)
  from raw_ticks_range [OF a(2,3)] have r: "-1 < raw_ticks a" "raw_ticks a < 65536" by simp_all
  obtain ticks where t: "run rs_receive_adj (n + 1) ms = Some (n + 1 + word_of_nat (length ms),
      map (\<lambda>(k, m, t). Write RollServoSocket
             (be32 (n + 1 + word_of_nat k) @ be16 (word_of_int t) @ [disable m]))
          (zip [0..<length ms] (zip ms ticks)))"
    "length ticks = length ms" "\<forall>t\<in>set ticks. 18481 \<le> t \<and> t \<le> 31923"
    using Cons.IH [of "n + 1"] Cons.prems by auto
  have z: "zip [0..<length (m # ms)] (zip (m # ms) (ticks_of a # ticks)) =
      (0, m, ticks_of a) # map (\<lambda>(k, x). (Suc k, x)) (zip [0..<length ms] (zip ms ticks))"
    by (simp add: upt_conv_Cons map_Suc_upt [symmetric] zip_map1 del: upt_Suc)
  have "run rs_receive_adj n (m # ms) = Some (n + word_of_nat (length (m # ms)),
      map (\<lambda>(k, m, t). Write RollServoSocket
             (be32 (n + word_of_nat k) @ be16 (word_of_int t) @ [disable m]))
          (zip [0..<length (m # ms)] (zip (m # ms) (ticks_of a # ticks))))"
  proof -
    have "n + (1 + word_of_nat k) = n + 1 + word_of_nat k" for k by (simp add: add.assoc)
    note this [simp]
    show ?thesis
      unfolding z by (simp add: rs_receive_adj_eq [OF a(1) r] t(1) servo_packet_def
        case_prod_unfold comp_def)
  qed
  moreover have "\<forall>t\<in>set (ticks_of a # ticks). 18481 \<le> t \<and> t \<le> 31923"
    using t(3) ticks_of_range by simp
  ultimately show ?case using t(2) by (intro exI [of _ "ticks_of a # ticks"]) simp
qed

definition centre_message :: ROLLMessage where
  "centre_message = \<lparr>roll_ID = ''ROLL'', roll_timestamp = replicate 6 0, roll_data_length = 9,
     angle = 0, disable = 1\<rparr>"

lemma double_of_bits_0 [simp]: "double_of_bits 0 = Some 0"
  by (simp add: double_of_bits_def)

text \<open>
  C30: the pulse width follows the angle. It never decreases when the angle increases, the limits
  of the canards are the limits of the servo travel, and angle zero is the middle: -15, 0 and 15
  degrees give exactly 18481, 25202 and 31923 ticks, although slope and centre are rounded.
\<close>

theorem servo_ticks_monotone:
  assumes "double_of_bits (angle m) = Some a" and "double_of_bits (angle m') = Some b"
    and "-15 \<le> a" and "a \<le> b" and "b \<le> 15"
  shows "\<exists>t t'. rs_receive_adj n m =
      Some (n + 1, [Write RollServoSocket (be32 n @ be16 (word_of_int t) @ [disable m])]) \<and>
    rs_receive_adj n m' =
      Some (n + 1, [Write RollServoSocket (be32 n @ be16 (word_of_int t') @ [disable m'])]) \<and>
    18481 \<le> t \<and> t \<le> t' \<and> t' \<le> 31923 \<and>
    (a = -15 \<longrightarrow> t = 18481) \<and> (a = 0 \<longrightarrow> t = 25202) \<and> (b = 15 \<longrightarrow> t' = 31923)"
proof -
  have b: "-15 \<le> b" and a: "a \<le> 15" using assms(3-5) by simp_all
  have r: "-1 < raw_ticks a" "raw_ticks a < 65536" "-1 < raw_ticks b" "raw_ticks b < 65536"
    using raw_ticks_range [OF assms(3) a] raw_ticks_range [OF b assms(5)] by simp_all
  have "ticks_of (-15) = 18481" "ticks_of 0 = 25202" "ticks_of 15 = 31923"
    by (simp_all add: ticks_of_def raw_ticks_at)
  then show ?thesis
    using rs_receive_adj_eq [OF assms(1) r(1,2)] rs_receive_adj_eq [OF assms(2) r(3,4)]
      ticks_of_range ticks_of_mono [OF assms(4)]
    by (intro exI [of _ "ticks_of a"] exI [of _ "ticks_of b"]) (auto simp: servo_packet_def)
qed

lemma servo_ticks_monotone_witness:
  "\<exists>t t'. rs_receive_adj 7 centre_message =
      Some (8, [Write RollServoSocket (be32 7 @ be16 (word_of_int t) @ [1])]) \<and> t = 25202 \<and> t \<le> t'"
  using servo_ticks_monotone [of centre_message 0 centre_message 0 7]
  by (auto simp: centre_message_def)

end
