(* ===== verification/Logger.thy ===== *)
theory Logger
  imports Utils_Sockets
begin

text \<open>
  \<open>src/src/logger.c\<close>: messages are collected in two buffers, one for the log file and one for the
  datagrams sent to the ground, which are written out together. The state is the static buffers
  with their fill counts and the sequence number; \<open>log_reads\<close> counts the readings this module makes
  of the clock \<open>clk\<close>. A store outside a buffer makes an operation return \<open>None\<close>. Short or failed
  writes are not noticed by the code, so what is passed to \<open>writev\<close> is the output.
\<close>

section \<open>Buffers\<close>

definition P_LIMIT :: nat where "P_LIMIT = 1500 - 8 - 60 - 4"

definition DISK_LIMIT :: nat where "DISK_LIMIT = 65536"

record log_state =
  log_buffer :: bytes
  log_buffer_size :: nat
  disk_log_buffer :: bytes
  disk_log_buffer_size :: nat
  sequence :: u32
  log_reads :: nat

definition log_static :: log_state where
  "log_static = \<lparr>log_buffer = replicate P_LIMIT 0, log_buffer_size = 0,
     disk_log_buffer = replicate DISK_LIMIT 0, disk_log_buffer_size = 0, sequence = 0, log_reads = 0\<rparr>"

definition flush_log :: "clock \<Rightarrow> log_state \<Rightarrow> log_state \<times> action list" where
  "flush_log clk s =
     (if disk_log_buffer_size s = 0 then (s, [])
      else
        let header = chars ''SEQN'' @ get_psas_time clk (log_reads s)
              @ host16 (bswap16 (word_of_nat (struct_size SequenceNoData)));
            swapped_sequence = host32 (bswap32 (sequence s));
            disk = header @ swapped_sequence @ take (disk_log_buffer_size s) (disk_log_buffer s);
            net = swapped_sequence @ take (log_buffer_size s) (log_buffer s)
        in (s\<lparr>log_buffer_size := 0, disk_log_buffer_size := 0, sequence := sequence s + 1,
              log_reads := log_reads s + 1\<rparr>,
            [Write LogFile disk, Write LogSocket net]))"

definition ensure_disk_log_space :: "clock \<Rightarrow> nat \<Rightarrow> log_state \<Rightarrow> log_state \<times> action list" where
  "ensure_disk_log_space clk len s =
     (if disk_log_buffer_size s + len > DISK_LIMIT then flush_log clk s else (s, []))"

definition ensure_net_log_space :: "clock \<Rightarrow> nat \<Rightarrow> log_state \<Rightarrow> log_state \<times> action list" where
  "ensure_net_log_space clk len s =
     (let (s, out) = ensure_disk_log_space clk len s
      in if log_buffer_size s + len > P_LIMIT
         then let (s, out') = flush_log clk s in (s, out @ out')
         else (s, out))"

definition log_write_disk_only ::
  "clock \<Rightarrow> log_state \<Rightarrow> string \<Rightarrow> bytes \<Rightarrow> u16 \<Rightarrow> bytes \<Rightarrow> (log_state \<times> action list) option" where
  "log_write_disk_only clk s i ts dlen dat =
     (let len = struct_size message_header + unat dlen;
          (s, out) = ensure_disk_log_space clk len s
      in do {
        t \<leftarrow> memcpy_from ts 6;
        buf \<leftarrow> store (disk_log_buffer s) (disk_log_buffer_size s)
                 (chars (take 4 i) @ t @ host16 (bswap16 dlen));
        src \<leftarrow> memcpy_from dat (unat dlen);
        buf \<leftarrow> store buf (disk_log_buffer_size s + struct_size message_header) src;
        Some (s\<lparr>disk_log_buffer := buf, disk_log_buffer_size := disk_log_buffer_size s + len\<rparr>, out)
      })"

definition log_write ::
  "clock \<Rightarrow> log_state \<Rightarrow> string \<Rightarrow> bytes \<Rightarrow> u16 \<Rightarrow> bytes \<Rightarrow> (log_state \<times> action list) option" where
  "log_write clk s i ts dlen dat =
     (let len = struct_size message_header + unat dlen;
          (s, out) = ensure_net_log_space clk len s;
          disk_start = disk_log_buffer_size s
      in do {
        (s, out') \<leftarrow> log_write_disk_only clk s i ts dlen dat;
        src \<leftarrow> memcpy_from (drop disk_start (disk_log_buffer s)) len;
        buf \<leftarrow> store (log_buffer s) (log_buffer_size s) src;
        Some (s\<lparr>log_buffer := buf, log_buffer_size := log_buffer_size s + len\<rparr>, out @ out')
      })"

section \<open>Receivers\<close>

text \<open>The timer: the \<open>read\<close> that clears it changes nothing here.\<close>

definition log_timeout :: "clock \<Rightarrow> log_state \<Rightarrow> log_state \<times> action list" where
  "log_timeout clk s = flush_log clk s"

definition log_receive_arm :: "clock \<Rightarrow> log_state \<Rightarrow> string \<Rightarrow> (log_state \<times> action list) option" where
  "log_receive_arm clk s code =
     (let ts = get_psas_time clk (log_reads s); s = s\<lparr>log_reads := log_reads s + 1\<rparr>
      in log_write clk s ''MESG'' ts (word_of_nat (length code)) (cstring code))"

text \<open>The bytes of the angle are swapped in the caller's message, which is returned changed.\<close>

definition log_receive_rc ::
  "clock \<Rightarrow> log_state \<Rightarrow> ROLLMessage \<Rightarrow> (log_state \<times> action list \<times> ROLLMessage) option" where
  "log_receive_rc clk s m =
     (let m = m\<lparr>angle := bswap64 (angle m)\<rparr>
      in do {
        (s, out) \<leftarrow> log_write clk s (roll_ID m) (roll_timestamp m) (roll_data_length m)
                     (host64 (angle m) @ [disable m]);
        Some (s, out, m)
      })"

definition log_receive_rnh_version ::
  "clock \<Rightarrow> log_state \<Rightarrow> bytes \<Rightarrow> u32 \<Rightarrow> (log_state \<times> action list) option" where
  "log_receive_rnh_version clk s msg len =
     (let ts = get_psas_time clk (log_reads s); s = s\<lparr>log_reads := log_reads s + 1\<rparr>
      in log_write clk s ''VERS'' ts (ucast len) msg)"

section \<open>Start and end\<close>

text \<open>What \<open>open\<close> answers for a file name: a descriptor, or an error.\<close>

datatype open_result = Opened int | EEXIST | EISDIR | OtherError int

text \<open>A function that may end the process: \<open>Inl\<close> is \<open>exit (1)\<close>.\<close>

type_synonym 'a exits = "unit + 'a"

definition digit :: "nat \<Rightarrow> char" where
  "digit n = char_of (48 + n mod 10)"

text \<open>\<open>snprintf (buf, sizeof buf, "logfile-%03d", i)\<close> for \<open>i\<close> below 1000; \<open>buf\<close> has 12 characters.\<close>

definition logfile_name :: "nat \<Rightarrow> string" where
  "logfile_name i = ''logfile-'' @ [digit (i div 100), digit (i div 10), digit i]"

fun open_logfile_from :: "(string \<Rightarrow> open_result) \<Rightarrow> nat \<Rightarrow> nat \<Rightarrow> int exits" where
  "open_logfile_from env i 0 = Inl ()"
| "open_logfile_from env i (Suc left) =
     (case env (logfile_name i) of
        Opened fd \<Rightarrow> Inr fd
      | EEXIST \<Rightarrow> open_logfile_from env (Suc i) left
      | EISDIR \<Rightarrow> open_logfile_from env (Suc i) left
      | OtherError errno \<Rightarrow> Inl ())"

definition open_logfile :: "(string \<Rightarrow> open_result) \<Rightarrow> int exits" where
  "open_logfile env = open_logfile_from env 0 1000"

definition open_socket :: "bool \<Rightarrow> socket_env \<Rightarrow> int exits \<times> syscall list" where
  "open_socket live env =
     (let net_fd = socket_ret env; calls = [Socket]
      in if net_fd < 0 then (Inl (), calls)
         else let calls = calls @ [Setsockopt net_fd, Connect net_fd (WIFI_ADDR live)]
              in if connect_ret env < 0 then (Inl (), calls) else (Inr net_fd, calls))"

text \<open>\<open>logger_init\<close>, with the descriptor \<open>tfd\<close> of the timer it registers.\<close>

definition logger_init ::
  "bool \<Rightarrow> (string \<Rightarrow> open_result) \<Rightarrow> socket_env \<Rightarrow> int \<Rightarrow> log_state
    \<Rightarrow> (log_state \<times> int \<times> int) exits \<times> syscall list" where
  "logger_init live files env tfd s =
     (case open_logfile files of
        Inl e \<Rightarrow> (Inl e, [])
      | Inr disk_fd \<Rightarrow>
          (case open_socket live env of
             (Inl e, calls) \<Rightarrow> (Inl e, calls)
           | (Inr net_fd, calls) \<Rightarrow>
               (Inr (s\<lparr>sequence := 0, log_buffer_size := 0, disk_log_buffer_size := 0\<rparr>,
                     disk_fd, net_fd), calls @ [AddFd tfd])))"

definition logger_final :: "clock \<Rightarrow> log_state \<Rightarrow> int \<Rightarrow> int \<Rightarrow> log_state \<times> action list \<times> syscall list" where
  "logger_final clk s disk_fd net_fd =
     (let (s, out) = flush_log clk s in (s, out, [Close disk_fd, Close net_fd]))"

text \<open>The events the module reacts to.\<close>

datatype log_event = LogGround packet | LogDiskOnly packet | LogArm string | LogRC ROLLMessage
  | LogVersion bytes u32 | LogTimer

fun log_step :: "clock \<Rightarrow> log_state \<Rightarrow> log_event \<Rightarrow> (log_state \<times> action list) option" where
  "log_step clk s (LogGround p) = log_write clk s (ID p) (timestamp p) (data_length p) (data p)"
| "log_step clk s (LogDiskOnly p) =
     log_write_disk_only clk s (ID p) (timestamp p) (data_length p) (data p)"
| "log_step clk s (LogArm code) = log_receive_arm clk s code"
| "log_step clk s (LogRC m) =
     do { (s, out, m) \<leftarrow> log_receive_rc clk s m; Some (s, out) }"
| "log_step clk s (LogVersion msg len) = log_receive_rnh_version clk s msg len"
| "log_step clk s LogTimer = Some (log_timeout clk s)"

end
