(* ===== verification/Logger_Proofs.thy ===== *)
theory Logger_Proofs
  imports Logger
begin

text \<open>
  The log against its abstract specification, a queue of records: every record that is written is
  in the log file exactly once and in order, records for the ground are in the datagrams too, and
  the buffers never overflow for the messages that fit them.
\<close>

section \<open>Records\<close>

text \<open>A record of the log: identifier, time, payload.\<close>

type_synonym log_record = "bytes \<times> bytes \<times> bytes"

fun enc_record :: "log_record \<Rightarrow> bytes" where
  "enc_record (i, t, d) = i @ t @ be16 (word_of_nat (length d)) @ d"

fun valid_record :: "log_record \<Rightarrow> bool" where
  "valid_record (i, t, d) \<longleftrightarrow> length i = 4 \<and> length t = 6 \<and> length d < 65536"

definition dec_record :: "bytes \<Rightarrow> (log_record \<times> bytes) option" where
  "dec_record bs =
     (let n = unat (get_be16 (drop 10 bs))
      in if length bs < 12 + n then None
         else Some ((take 4 bs, take 6 (drop 4 bs), take n (drop 12 bs)), drop (12 + n) bs))"

interpretation log_record: stream_codec enc_record dec_record valid_record
proof unfold_locales
  fix x r assume v: "valid_record x"
  obtain i t d where x: "x = (i, t, d)" by (cases x)
  have "unat (word_of_nat (length d) :: u16) = length d" using v x by (simp add: unat_of_nat)
  then show "dec_record (enc_record x @ r) = Some (x, r)"
    using v by (simp add: x dec_record_def)
next
  fix x assume "valid_record x"
  then show "enc_record x \<noteq> []" by (cases x) auto
qed

lemma length_enc_record: "valid_record (i, t, d) \<Longrightarrow> length (enc_record (i, t, d)) = 12 + length d"
  by simp

section \<open>The abstract log\<close>

text \<open>An entry is a record with the mark whether it also goes to the ground.\<close>

type_synonym entry = "log_record \<times> bool"

definition disk_image :: "entry list \<Rightarrow> bytes" where
  "disk_image xs = concat (map (enc_record \<circ> fst) xs)"

definition net_image :: "entry list \<Rightarrow> bytes" where
  "net_image xs = concat (map (enc_record \<circ> fst) (filter snd xs))"

definition seqn :: "bytes \<Rightarrow> u32 \<Rightarrow> log_record" where
  "seqn ts n = (chars ''SEQN'', ts, be32 n)"

text \<open>The output for groups of entries, each flushed at some time, numbered from \<open>n\<close>.\<close>

fun group_out :: "u32 \<Rightarrow> (bytes \<times> entry list) list \<Rightarrow> action list" where
  "group_out n [] = []"
| "group_out n ((ts, g) # gs) =
     Write LogFile (enc_record (seqn ts n) @ disk_image g) #
     Write LogSocket (be32 n @ net_image g) # group_out (n + 1) gs"

definition ok_group :: "bytes \<times> entry list \<Rightarrow> bool" where
  "ok_group g \<longleftrightarrow> snd g \<noteq> [] \<and> length (fst g) = 6 \<and> (\<forall>x\<in>set (snd g). valid_record (fst x)) \<and>
     length (disk_image (snd g)) \<le> DISK_LIMIT \<and> length (net_image (snd g)) \<le> P_LIMIT"

lemma images_append [simp]:
  "disk_image (xs @ ys) = disk_image xs @ disk_image ys"
  "net_image (xs @ ys) = net_image xs @ net_image ys"
  "disk_image [] = []" "net_image [] = []"
  by (simp_all add: disk_image_def net_image_def)

lemma images_single:
  "disk_image [(r, b)] = enc_record r" "net_image [(r, b)] = (if b then enc_record r else [])"
  by (simp_all add: disk_image_def net_image_def)

lemma group_out_append:
  "group_out n (gs @ hs) = group_out n gs @ group_out (n + word_of_nat (length gs)) hs"
  by (induction n gs rule: group_out.induct) (simp_all add: add.assoc)

lemma disk_image_empty_iff:
  "\<forall>x\<in>set xs. valid_record (fst x) \<Longrightarrow> disk_image xs = [] \<longleftrightarrow> xs = []"
  using log_record.enc_nonempty by (cases xs) (auto simp: disk_image_def)

text \<open>The buffers hold exactly the entries that wait to be flushed.\<close>

definition holds :: "log_state \<Rightarrow> entry list \<Rightarrow> bool" where
  "holds s xs \<longleftrightarrow>
     length (log_buffer s) = P_LIMIT \<and> length (disk_log_buffer s) = DISK_LIMIT \<and>
     disk_log_buffer_size s = length (disk_image xs) \<and>
     take (length (disk_image xs)) (disk_log_buffer s) = disk_image xs \<and>
     log_buffer_size s = length (net_image xs) \<and>
     take (length (net_image xs)) (log_buffer s) = net_image xs \<and>
     (\<forall>x\<in>set xs. valid_record (fst x))"

text \<open>One state follows another: \<open>gs\<close> was flushed in between, and \<open>ys\<close> was logged.\<close>

definition advances ::
  "log_state \<Rightarrow> entry list \<Rightarrow> (bytes \<times> entry list) list \<Rightarrow> entry list \<Rightarrow> log_state \<Rightarrow> entry list \<Rightarrow> bool"
  where
  "advances s xs gs ys s' xs' \<longleftrightarrow>
     holds s' xs' \<and> xs @ ys = concat (map snd gs) @ xs' \<and>
     sequence s' = sequence s + word_of_nat (length gs) \<and> (\<forall>g\<in>set gs. ok_group g)"

lemma advances_refl: "holds s xs \<Longrightarrow> advances s xs [] [] s xs"
  by (simp add: advances_def)

lemma advances_trans:
  assumes "advances s xs gs ys t xs'" and "advances t xs' hs zs u xs''"
  shows "advances s xs (gs @ hs) (ys @ zs) u xs''"
    and "group_out (sequence s) (gs @ hs) = group_out (sequence s) gs @ group_out (sequence t) hs"
  using assms by (auto simp: advances_def group_out_append add.assoc) (metis append.assoc)

section \<open>Flushing\<close>

lemma holdsD:
  assumes "holds s xs"
  shows "length (log_buffer s) = P_LIMIT" and "length (disk_log_buffer s) = DISK_LIMIT"
    and "disk_log_buffer_size s = length (disk_image xs)"
    and "take (length (disk_image xs)) (disk_log_buffer s) = disk_image xs"
    and "log_buffer_size s = length (net_image xs)"
    and "take (length (net_image xs)) (log_buffer s) = net_image xs"
    and "\<forall>x\<in>set xs. valid_record (fst x)"
  using assms unfolding holds_def by blast+

lemma holds_sizes:
  assumes "holds s xs"
  shows "length (disk_image xs) \<le> DISK_LIMIT" and "length (net_image xs) \<le> P_LIMIT"
proof -
  have le: "length xs \<le> length p" if "take (length xs) p = xs" for xs p :: bytes
    using arg_cong [OF that, of length] by simp
  show "length (disk_image xs) \<le> DISK_LIMIT" "length (net_image xs) \<le> P_LIMIT"
    using le [OF holdsD(4) [OF assms]] le [OF holdsD(6) [OF assms]] holdsD(1,2) [OF assms]
    by simp_all
qed

lemma flush_log_ok:
  assumes "holds s xs"
  shows "\<exists>s' gs. flush_log clk s = (s', group_out (sequence s) gs) \<and> advances s xs gs [] s' []"
proof (cases "xs = []")
  case True
  with assms show ?thesis
    by (intro exI [of _ s] exI [of _ "[]"]) (simp add: flush_log_def holds_def advances_def)
next
  case False
  let ?ts = "get_psas_time clk (log_reads s)"
  let ?s' = "s\<lparr>log_buffer_size := 0, disk_log_buffer_size := 0,
      sequence := sequence s + 1, log_reads := log_reads s + 1\<rparr>"
  note h = holdsD [OF assms]
  have "disk_image xs \<noteq> []" using False h(7) by (simp add: disk_image_empty_iff)
  then have "flush_log clk s = (?s', group_out (sequence s) [(?ts, xs)])"
    by (simp add: flush_log_def h(3-6) seqn_def Let_def)
  moreover have "ok_group (?ts, xs)"
    using False h(7) holds_sizes [OF assms] by (simp add: ok_group_def)
  then have "advances s xs [(?ts, xs)] [] ?s' []"
    using h by (simp add: advances_def holds_def)
  ultimately show ?thesis by blast
qed

lemma ensure_disk_ok:
  assumes "holds s xs" and "len \<le> DISK_LIMIT"
  shows "\<exists>s' gs xs'. ensure_disk_log_space clk len s = (s', group_out (sequence s) gs) \<and>
    advances s xs gs [] s' xs' \<and> disk_log_buffer_size s' + len \<le> DISK_LIMIT"
proof (cases "disk_log_buffer_size s + len > DISK_LIMIT")
  case True
  obtain s' gs where f: "flush_log clk s = (s', group_out (sequence s) gs)"
    "advances s xs gs [] s' []"
    using flush_log_ok [OF assms(1)] by blast
  then have "disk_log_buffer_size s' = 0" by (simp add: advances_def holds_def)
  with True f assms(2) show ?thesis by (auto simp: ensure_disk_log_space_def)
next
  case False
  with assms show ?thesis
    by (intro exI [of _ s] exI [of _ "[]"] exI [of _ xs])
      (simp add: ensure_disk_log_space_def advances_refl)
qed

lemma ensure_net_ok:
  assumes "holds s xs" and "len \<le> P_LIMIT"
  shows "\<exists>s' gs xs'. ensure_net_log_space clk len s = (s', group_out (sequence s) gs) \<and>
    advances s xs gs [] s' xs' \<and> disk_log_buffer_size s' + len \<le> DISK_LIMIT \<and>
    log_buffer_size s' + len \<le> P_LIMIT"
proof -
  have len: "len \<le> DISK_LIMIT" using assms(2) by (simp add: P_LIMIT_def DISK_LIMIT_def)
  obtain t gs ys where t: "ensure_disk_log_space clk len s = (t, group_out (sequence s) gs)"
    "advances s xs gs [] t ys" "disk_log_buffer_size t + len \<le> DISK_LIMIT"
    using ensure_disk_ok [OF assms(1) len] by blast
  show ?thesis
  proof (cases "log_buffer_size t + len > P_LIMIT")
    case True
    have h: "holds t ys" using t(2) by (simp add: advances_def)
    obtain s' hs where f: "flush_log clk t = (s', group_out (sequence t) hs)"
      "advances t ys hs [] s' []"
      using flush_log_ok [OF h] by blast
    then have "disk_log_buffer_size s' = 0" "log_buffer_size s' = 0"
      by (simp_all add: advances_def holds_def)
    with True t f len assms(2) advances_trans [OF t(2) f(2)] show ?thesis
      by (intro exI [of _ s'] exI [of _ "gs @ hs"] exI [of _ "[]"])
        (simp add: ensure_net_log_space_def)
  next
    case False
    with t show ?thesis by (auto simp: ensure_net_log_space_def)
  qed
qed

section \<open>Writing\<close>

lemma store_Some:
  assumes "off + length bs \<le> length p"
  obtains q where "store p off bs = Some q" and "length q = length p"
    and "take (off + length bs) q = take off p @ bs"
  using assms by (simp add: store_def)

definition record_of :: "string \<Rightarrow> bytes \<Rightarrow> u16 \<Rightarrow> bytes \<Rightarrow> log_record" where
  "record_of i ts dlen dat = (chars (take 4 i), take 6 ts, take (unat dlen) dat)"

definition writable :: "string \<Rightarrow> bytes \<Rightarrow> u16 \<Rightarrow> bytes \<Rightarrow> bool" where
  "writable i ts dlen dat \<longleftrightarrow> 4 \<le> length i \<and> 6 \<le> length ts \<and> unat dlen \<le> length dat"

lemma record_of_ok:
  assumes "writable i ts dlen dat"
  shows "valid_record (record_of i ts dlen dat)"
    and "length (enc_record (record_of i ts dlen dat)) = 12 + unat dlen"
    and "enc_record (record_of i ts dlen dat) =
      (chars (take 4 i) @ take 6 ts @ be16 dlen) @ take (unat dlen) dat"
  using assms unat_less_powers(2) [of dlen] by (simp_all add: writable_def record_of_def)

lemma log_write_disk_only_room:
  assumes h: "holds s xs" and w: "writable i ts dlen dat"
    and room: "disk_log_buffer_size s + (12 + unat dlen) \<le> DISK_LIMIT"
  obtains b where "log_write_disk_only clk s i ts dlen dat =
      Some (s\<lparr>disk_log_buffer := b, disk_log_buffer_size := disk_log_buffer_size s + (12 + unat dlen)\<rparr>, [])"
    and "length b = DISK_LIMIT"
    and "take (disk_log_buffer_size s + (12 + unat dlen)) b =
      disk_image xs @ enc_record (record_of i ts dlen dat)"
proof -
  let ?n = "disk_log_buffer_size s" and ?hdr = "chars (take 4 i) @ take 6 ts @ be16 dlen"
    and ?src = "take (unat dlen) dat"
  have lh: "length ?hdr = 12" and ls: "length ?src = unat dlen" using w by (simp_all add: writable_def)
  have 1: "?n + length ?hdr \<le> length (disk_log_buffer s)"
    using room holdsD(2) [OF h] unfolding lh by simp
  obtain b1 where b1: "store (disk_log_buffer s) ?n ?hdr = Some b1" "length b1 = DISK_LIMIT"
    "take (?n + 12) b1 = disk_image xs @ ?hdr"
    using store_Some [OF 1] holdsD(2-4) [OF h] unfolding lh by metis
  have 2: "?n + 12 + length ?src \<le> length b1" using room b1(2) unfolding ls by simp
  obtain b where b: "store b1 (?n + 12) ?src = Some b" "length b = DISK_LIMIT"
    "take (?n + 12 + unat dlen) b = (disk_image xs @ ?hdr) @ ?src"
    using store_Some [OF 2] b1(2,3) unfolding ls by metis
  have "ensure_disk_log_space clk (12 + unat dlen) s = (s, [])"
    using room by (simp add: ensure_disk_log_space_def)
  moreover have "memcpy_from ts 6 = Some (take 6 ts)" "memcpy_from dat (unat dlen) = Some ?src"
    using w by (simp_all add: writable_def memcpy_from_def)
  ultimately have "log_write_disk_only clk s i ts dlen dat =
      Some (s\<lparr>disk_log_buffer := b, disk_log_buffer_size := ?n + (12 + unat dlen)\<rparr>, [])"
    using b1(1) b(1) by (simp add: log_write_disk_only_def)
  with b(2,3) show ?thesis by (intro that) (simp_all add: record_of_ok(3) [OF w] add.assoc)
qed

text \<open>The call makes room first; the call with room does the rest.\<close>

lemma log_write_disk_only_ensure:
  assumes "ensure_disk_log_space clk (12 + unat dlen) s = (t, out)"
    and "disk_log_buffer_size t + (12 + unat dlen) \<le> DISK_LIMIT"
    and "log_write_disk_only clk t i ts dlen dat = Some (t', [])"
  shows "log_write_disk_only clk s i ts dlen dat = Some (t', out)"
proof -
  have "ensure_disk_log_space clk (12 + unat dlen) t = (t, [])"
    using assms(2) by (simp add: ensure_disk_log_space_def)
  with assms(1,3) show ?thesis
    by (auto simp: log_write_disk_only_def Option.bind_eq_Some_conv)
qed

lemma log_write_disk_only_ok:
  assumes "holds s xs" and w: "writable i ts dlen dat" and "12 + unat dlen \<le> DISK_LIMIT"
  shows "\<exists>s' gs xs'. log_write_disk_only clk s i ts dlen dat = Some (s', group_out (sequence s) gs) \<and>
    advances s xs gs [(record_of i ts dlen dat, False)] s' xs'"
proof -
  let ?r = "record_of i ts dlen dat"
  obtain t gs ys where t: "ensure_disk_log_space clk (12 + unat dlen) s = (t, group_out (sequence s) gs)"
    "advances s xs gs [] t ys" "disk_log_buffer_size t + (12 + unat dlen) \<le> DISK_LIMIT"
    using ensure_disk_ok [OF assms(1,3)] by blast
  have h: "holds t ys" using t(2) by (simp add: advances_def)
  obtain b where b: "log_write_disk_only clk t i ts dlen dat =
      Some (t\<lparr>disk_log_buffer := b, disk_log_buffer_size := disk_log_buffer_size t + (12 + unat dlen)\<rparr>, [])"
    "length b = DISK_LIMIT"
    "take (disk_log_buffer_size t + (12 + unat dlen)) b = disk_image ys @ enc_record ?r"
    by (rule log_write_disk_only_room [OF h w]) (use t(3) in simp_all)
  let ?s' = "t\<lparr>disk_log_buffer := b, disk_log_buffer_size := disk_log_buffer_size t + (12 + unat dlen)\<rparr>"
  have "log_write_disk_only clk s i ts dlen dat = Some (?s', group_out (sequence s) gs)"
    by (rule log_write_disk_only_ensure [OF t(1,3) b(1)])
  moreover have "advances t ys [] [(?r, False)] ?s' (ys @ [(?r, False)])"
    using h b(2,3) record_of_ok(1,2) [OF w]
    by (simp add: advances_def holds_def images_single add.assoc)
  from advances_trans(1) [OF t(2) this] have "advances s xs gs [(?r, False)] ?s' (ys @ [(?r, False)])"
    by simp
  ultimately show ?thesis by blast
qed

lemma log_write_ok:
  assumes "holds s xs" and w: "writable i ts dlen dat" and "12 + unat dlen \<le> P_LIMIT"
  shows "\<exists>s' gs xs'. log_write clk s i ts dlen dat = Some (s', group_out (sequence s) gs) \<and>
    advances s xs gs [(record_of i ts dlen dat, True)] s' xs'"
proof -
  let ?r = "record_of i ts dlen dat" and ?len = "12 + unat dlen"
  obtain t gs ys where t: "ensure_net_log_space clk ?len s = (t, group_out (sequence s) gs)"
    "advances s xs gs [] t ys" "disk_log_buffer_size t + ?len \<le> DISK_LIMIT"
    "log_buffer_size t + ?len \<le> P_LIMIT"
    using ensure_net_ok [OF assms(1,3)] by blast
  have h: "holds t ys" using t(2) by (simp add: advances_def)
  let ?n = "disk_log_buffer_size t"
  obtain b where b: "log_write_disk_only clk t i ts dlen dat =
      Some (t\<lparr>disk_log_buffer := b, disk_log_buffer_size := ?n + (12 + unat dlen)\<rparr>, [])"
    "length b = DISK_LIMIT" "take (?n + (12 + unat dlen)) b = disk_image ys @ enc_record ?r"
    by (rule log_write_disk_only_room [OF h w]) (use t(3) in simp_all)
  have n: "length (disk_image ys) = ?n" using h by (simp add: holds_def)
  have "take ?len (drop ?n b) = drop ?n (take (?n + (12 + unat dlen)) b)"
    by (simp add: drop_take add.assoc)
  also have "\<dots> = enc_record ?r" by (simp only: b(3)) (simp flip: n)
  finally have src: "memcpy_from (drop ?n b) ?len = Some (enc_record ?r)"
    using t(3) b(2) by (simp add: memcpy_from_def)
  obtain c where c: "store (log_buffer t) (log_buffer_size t) (enc_record ?r) = Some c"
    "length c = P_LIMIT" "take (log_buffer_size t + ?len) c = net_image ys @ enc_record ?r"
    using store_Some [of "log_buffer_size t" "enc_record ?r" "log_buffer t"] t(4) h
      record_of_ok(2) [OF w] by (auto simp: holds_def)
  let ?s' = "t\<lparr>log_buffer := c, log_buffer_size := log_buffer_size t + ?len,
    disk_log_buffer := b, disk_log_buffer_size := ?n + (12 + unat dlen)\<rparr>"
  have "log_write clk s i ts dlen dat = Some (?s', group_out (sequence s) gs)"
    using t(1) b(1) src c(1) by (simp add: log_write_def Let_def)
  moreover have "advances t ys [] [(?r, True)] ?s' (ys @ [(?r, True)])"
    using h b(2,3) c(2,3) record_of_ok(1,2) [OF w]
    by (simp add: advances_def holds_def images_single add.assoc)
  from advances_trans(1) [OF t(2) this] have "advances s xs gs [(?r, True)] ?s' (ys @ [(?r, True)])"
    by simp
  ultimately show ?thesis by blast
qed

section \<open>Runs\<close>

text \<open>The entry that an event adds to the log. The times of two of them are read from the clock.\<close>

fun records :: "log_event \<Rightarrow> entry \<Rightarrow> bool" where
  "records (LogGround p) x \<longleftrightarrow> x = (record_of (ID p) (timestamp p) (data_length p) (data p), True)"
| "records (LogDiskOnly p) x \<longleftrightarrow> x = (record_of (ID p) (timestamp p) (data_length p) (data p), False)"
| "records (LogArm code) x \<longleftrightarrow> (\<exists>ts. x = ((chars ''MESG'', ts, chars code), True))"
| "records (LogRC m) x \<longleftrightarrow>
     x = ((chars (take 4 (roll_ID m)), take 6 (roll_timestamp m), be64 (angle m) @ [disable m]), True)"
| "records (LogVersion msg len) x \<longleftrightarrow> (\<exists>ts. x = ((chars ''VERS'', ts, take (unat len) msg), True))"
| "records LogTimer x \<longleftrightarrow> False"

fun log_admissible :: "log_event \<Rightarrow> bool" where
  "log_admissible (LogGround p) \<longleftrightarrow>
     writable (ID p) (timestamp p) (data_length p) (data p) \<and> unat (data_length p) \<le> 1416"
| "log_admissible (LogDiskOnly p) \<longleftrightarrow>
     writable (ID p) (timestamp p) (data_length p) (data p) \<and> unat (data_length p) \<le> 65524"
| "log_admissible (LogArm code) \<longleftrightarrow> length code \<le> 1416"
| "log_admissible (LogRC m) \<longleftrightarrow>
     4 \<le> length (roll_ID m) \<and> 6 \<le> length (roll_timestamp m) \<and> roll_data_length m = 9"
| "log_admissible (LogVersion msg len) \<longleftrightarrow> unat len \<le> length msg \<and> unat len \<le> 1416"
| "log_admissible LogTimer \<longleftrightarrow> True"

lemma limits: "12 + n \<le> P_LIMIT \<longleftrightarrow> n \<le> 1416" "12 + n \<le> DISK_LIMIT \<longleftrightarrow> n \<le> 65524"
  by (auto simp: P_LIMIT_def DISK_LIMIT_def)

text \<open>The clock readings do not matter to what is in the buffers.\<close>

lemma holds_reads [simp]: "holds (s\<lparr>log_reads := k\<rparr>) xs = holds s xs"
  by (simp add: holds_def)

lemma advances_reads: "advances (s\<lparr>log_reads := k\<rparr>) xs gs ys t xs' = advances s xs gs ys t xs'"
  by (simp add: advances_def)

lemma one_entry:
  assumes "\<exists>s' gs xs'. log_step clk s e = Some (s', group_out (sequence s) gs) \<and>
      advances s xs gs [y] s' xs'"
    and "records e y" and "e \<noteq> LogTimer"
  shows "\<exists>s' gs ys xs'. log_step clk s e = Some (s', group_out (sequence s) gs) \<and>
    advances s xs gs ys s' xs' \<and>
    (if e = LogTimer then ys = [] \<and> xs' = [] else \<exists>y. ys = [y] \<and> records e y)"
proof -
  obtain s' gs xs' where "log_step clk s e = Some (s', group_out (sequence s) gs)"
    "advances s xs gs [y] s' xs'" using assms(1) by blast
  with assms(2,3) show ?thesis
    by (intro exI [of _ s'] exI [of _ gs] exI [of _ "[y]"] exI [of _ xs']) simp
qed

lemma log_step_ok:
  assumes h: "holds s xs" and "log_admissible e"
  shows "\<exists>s' gs ys xs'. log_step clk s e = Some (s', group_out (sequence s) gs) \<and>
    advances s xs gs ys s' xs' \<and>
    (if e = LogTimer then ys = [] \<and> xs' = [] else \<exists>y. ys = [y] \<and> records e y)"
proof (cases e)
  case (LogGround p)
  with assms log_write_ok [OF h, of "ID p" "timestamp p" "data_length p" "data p" clk] show ?thesis
    by (intro one_entry) (simp_all add: limits)
next
  case (LogDiskOnly p)
  with assms log_write_disk_only_ok [OF h, of "ID p" "timestamp p" "data_length p" "data p" clk]
  show ?thesis by (intro one_entry) (simp_all add: limits)
next
  case (LogArm code)
  let ?ts = "get_psas_time clk (log_reads s)" and ?s = "s\<lparr>log_reads := log_reads s + 1\<rparr>"
  have u: "unat (word_of_nat (length code) :: u16) = length code"
    using assms(2) LogArm by (simp add: unat_of_nat)
  then have w: "writable ''MESG'' ?ts (word_of_nat (length code)) (cstring code)"
    by (simp add: writable_def cstring_def)
  have r: "record_of ''MESG'' ?ts (word_of_nat (length code)) (cstring code)
      = (chars ''MESG'', ?ts, chars code)"
    using u by (simp add: record_of_def cstring_def)
  have h': "holds ?s xs" using h by simp
  from log_write_ok [OF h' w, of clk] u assms(2) LogArm show ?thesis
    by (intro one_entry [of _ _ _ _ "((chars ''MESG'', ?ts, chars code), True)"])
      (simp_all add: log_receive_arm_def Let_def limits r advances_reads)
next
  case (LogRC m)
  let ?d = "be64 (angle m) @ [disable m]"
  have l: "roll_data_length m = 9" using assms(2) LogRC by simp
  have w: "writable (roll_ID m) (roll_timestamp m) 9 ?d"
    using assms(2) LogRC by (simp add: writable_def)
  have r: "record_of (roll_ID m) (roll_timestamp m) 9 ?d
      = (chars (take 4 (roll_ID m)), take 6 (roll_timestamp m), ?d)"
    by (simp add: record_of_def)
  from log_write_ok [OF h w, of clk] obtain s' gs xs'
    where "log_write clk s (roll_ID m) (roll_timestamp m) 9 ?d = Some (s', group_out (sequence s) gs)"
    "advances s xs gs [((chars (take 4 (roll_ID m)), take 6 (roll_timestamp m), ?d), True)] s' xs'"
    by (auto simp: P_LIMIT_def r)
  with LogRC l show ?thesis
    by (intro one_entry [of _ _ _ _ "((chars (take 4 (roll_ID m)), take 6 (roll_timestamp m), ?d), True)"])
      (auto simp: log_receive_rc_def Let_def)
next
  case (LogVersion msg len)
  let ?ts = "get_psas_time clk (log_reads s)" and ?s = "s\<lparr>log_reads := log_reads s + 1\<rparr>"
  have u: "unat (ucast len :: u16) = unat len"
    using assms(2) LogVersion by (simp add: unsigned_ucast_eq take_bit_nat_eq_self)
  then have w: "writable ''VERS'' ?ts (ucast len) msg"
    using assms(2) LogVersion by (simp add: writable_def)
  have r: "record_of ''VERS'' ?ts (ucast len) msg = (chars ''VERS'', ?ts, take (unat len) msg)"
    using u by (simp add: record_of_def)
  have h': "holds ?s xs" using h by simp
  from log_write_ok [OF h' w, of clk] u assms(2) LogVersion show ?thesis
    by (intro one_entry [of _ _ _ _ "((chars ''VERS'', ?ts, take (unat len) msg), True)"])
      (simp_all add: log_receive_rnh_version_def Let_def limits r advances_reads)
next
  case LogTimer
  with flush_log_ok [OF h, of clk] show ?thesis by (auto simp: log_timeout_def)
qed

lemma holds_static: "holds (log_static\<lparr>sequence := n\<rparr>) []"
  by (simp add: holds_def log_static_def)

lemma log_run_ok:
  assumes "holds s xs" and "\<forall>e\<in>set es. log_admissible e"
  shows "\<exists>s' gs ys xs'. run (log_step clk) s es = Some (s', group_out (sequence s) gs) \<and>
    advances s xs gs ys s' xs' \<and> list_all2 records (filter (\<lambda>e. e \<noteq> LogTimer) es) ys"
  using assms
proof (induction es arbitrary: s xs)
  case Nil
  then show ?case by (intro exI [of _ s] exI [of _ "[]"] exI [of _ xs]) (simp add: advances_refl)
next
  case (Cons e es)
  have e: "log_admissible e" and es: "\<forall>e\<in>set es. log_admissible e" using Cons.prems(2) by simp_all
  from log_step_ok [OF Cons.prems(1) e, of clk] obtain t gs ys zs
    where 1: "log_step clk s e = Some (t, group_out (sequence s) gs)" "advances s xs gs ys t zs"
    "if e = LogTimer then ys = [] \<and> zs = [] else \<exists>y. ys = [y] \<and> records e y"
    by blast
  have h: "holds t zs" using 1(2) by (simp add: advances_def)
  from Cons.IH [OF h es] obtain u hs ws xs'
    where 2: "run (log_step clk) t es = Some (u, group_out (sequence t) hs)"
    "advances t zs hs ws u xs'" "list_all2 records (filter (\<lambda>e. e \<noteq> LogTimer) es) ws"
    by blast
  have "run (log_step clk) s (e # es) = Some (u, group_out (sequence s) (gs @ hs))"
    using 1(1) 2(1) advances_trans(2) [OF 1(2) 2(2)] by simp
  moreover have "list_all2 records (filter (\<lambda>e. e \<noteq> LogTimer) (e # es)) (ys @ ws)"
    using 1(3) 2(3) by (cases "e = LogTimer") auto
  ultimately show ?case using advances_trans(1) [OF 1(2) 2(2)] by blast
qed

text \<open>With the flush at the end, everything that was logged has been written.\<close>

lemma log_run_flushed:
  assumes "\<forall>e\<in>set es. log_admissible e"
  obtains t gs ys where "run (log_step clk) (log_static\<lparr>sequence := n\<rparr>) (es @ [LogTimer]) = Some (t, group_out n gs)"
    and "concat (map snd gs) = ys" and "\<forall>g\<in>set gs. ok_group g"
    and "list_all2 records (filter (\<lambda>e. e \<noteq> LogTimer) es) ys"
proof -
  from log_run_ok [OF holds_static assms, of clk n] obtain s gs ys xs'
    where r: "run (log_step clk) (log_static\<lparr>sequence := n\<rparr>) es = Some (s, group_out n gs)"
    "advances (log_static\<lparr>sequence := n\<rparr>) [] gs ys s xs'"
    "list_all2 records (filter (\<lambda>e. e \<noteq> LogTimer) es) ys"
    by auto
  have h: "holds s xs'" using r(2) by (simp add: advances_def)
  obtain t hs where f: "flush_log clk s = (t, group_out (sequence s) hs)" "advances s xs' hs [] t []"
    using flush_log_ok [OF h] by blast
  note a = advances_trans [OF r(2) f(2)]
  have "run (log_step clk) (log_static\<lparr>sequence := n\<rparr>) (es @ [LogTimer])
      = Some (t, group_out n (gs @ hs))"
    using r(1) f(1) a(2) by (simp add: run_append log_timeout_def)
  with a(1) r(3) show ?thesis by (intro that [of t "gs @ hs" ys]) (auto simp: advances_def)
qed

text \<open>What a list of actions writes to a channel, and the datagrams it sends.\<close>

definition written :: "channel \<Rightarrow> action list \<Rightarrow> bytes list" where
  "written c as = concat (map (\<lambda>a. case a of Write c' bs \<Rightarrow> if c' = c then [bs] else [] | _ \<Rightarrow> []) as)"

fun file_records :: "u32 \<Rightarrow> (bytes \<times> entry list) list \<Rightarrow> log_record list" where
  "file_records n [] = []"
| "file_records n ((ts, g) # gs) = seqn ts n # map fst g @ file_records (n + 1) gs"

lemma written_simps [simp]:
  "written c [] = []" "written c (Write c' bs # as) = (if c' = c then [bs] else []) @ written c as"
  "written c (Send m # as) = written c as" "written c (as @ cs) = written c as @ written c cs"
  by (simp_all add: written_def)

lemma written_group_out:
  "concat (written LogFile (group_out n gs)) = concat (map enc_record (file_records n gs))"
  "written LogSocket (group_out n gs) =
     map (\<lambda>(k, ts, g). be32 (n + word_of_nat k) @ net_image g) (zip [0..<length gs] gs)"
proof (induction n gs rule: group_out.induct)
  case (2 n ts g gs)
  {
    case 1
    then show ?case using 2 by (simp add: disk_image_def comp_def)
  next
    case 2
    have z: "zip [0..<length ((ts, g) # gs)] ((ts, g) # gs) =
        (0, ts, g) # map (\<lambda>(k, x). (Suc k, x)) (zip [0..<length gs] gs)"
      by (simp add: upt_conv_Cons map_Suc_upt [symmetric] zip_map1 del: upt_Suc)
    have a: "n + (1 + word_of_nat k) = n + 1 + word_of_nat k" for k by (simp add: add.assoc)
    show ?case unfolding z using \<open>written LogSocket (group_out (n + 1) gs) = _\<close>
      by (simp add: a case_prod_unfold comp_def)
  }
qed simp_all

lemma file_records_valid:
  "\<forall>g\<in>set gs. ok_group g \<Longrightarrow> \<forall>r\<in>set (file_records n gs). valid_record r"
  by (induction n gs rule: file_records.induct) (auto simp: ok_group_def seqn_def)

end
