(* ===== verification/Logger_Properties.thy ===== *)
theory Logger_Properties
  imports Logger_Proofs
begin

text \<open>
  The properties of the log: the file and the datagrams are complete and decodable, when a write
  overflows, and which log file is opened.
\<close>

section \<open>Oversized messages\<close>

lemma log_buffer_length_flush:
  "length (log_buffer (fst (flush_log clk s))) = length (log_buffer s)"
  by (simp add: flush_log_def Let_def)

lemma ensure_net_log_buffer:
  "ensure_net_log_space clk len s = (t, out) \<Longrightarrow> length (log_buffer t) = length (log_buffer s)"
  using log_buffer_length_flush [of clk]
  by (auto simp: ensure_net_log_space_def ensure_disk_log_space_def split: if_splits prod.splits)
    (metis fst_conv)+

lemma log_write_disk_only_log_buffer:
  "log_write_disk_only clk s i ts dlen dat = Some (t, out) \<Longrightarrow>
    length (log_buffer t) = length (log_buffer s)"
  using log_buffer_length_flush [of clk s]
  by (auto simp: log_write_disk_only_def ensure_disk_log_space_def Let_def Option.bind_eq_Some_conv
      split: if_splits prod.splits)

lemma log_write_too_long:
  assumes "length (log_buffer s) = P_LIMIT" and "1416 < unat dlen"
  shows "log_write clk s i ts dlen dat = None"
proof -
  obtain t out where t: "ensure_net_log_space clk (12 + unat dlen) s = (t, out)" by fastforce
  then have lt: "length (log_buffer t) = P_LIMIT" using assms(1) ensure_net_log_buffer by metis
  have "store (log_buffer u) (log_buffer_size u) src = None"
    if "log_write_disk_only clk t i ts dlen dat = Some (u, out')"
      and "memcpy_from (drop k (disk_log_buffer u)) (12 + unat dlen) = Some src" for u out' k src
  proof -
    have "length (log_buffer u) = P_LIMIT"
      using log_write_disk_only_log_buffer [OF that(1)] lt by simp
    moreover have "length src = 12 + unat dlen" using that(2) by (auto simp: memcpy_from_Some_iff)
    ultimately show ?thesis using assms(2) by (simp add: store_def P_LIMIT_def)
  qed
  then show ?thesis using t by (auto simp: log_write_def Let_def split: Option.bind_splits)
qed

text \<open>What a write that succeeds was given.\<close>

lemma ensure_disk_log_buffer:
  "ensure_disk_log_space clk len s = (t, out) \<Longrightarrow> length (disk_log_buffer t) = length (disk_log_buffer s)"
  by (auto simp: ensure_disk_log_space_def flush_log_def Let_def split: if_splits)

lemma ensure_net_disk_log_buffer:
  "ensure_net_log_space clk len s = (t, out) \<Longrightarrow> length (disk_log_buffer t) = length (disk_log_buffer s)"
  by (auto simp: ensure_net_log_space_def ensure_disk_log_space_def flush_log_def Let_def split: if_splits)

lemma log_write_disk_only_given:
  assumes "log_write_disk_only clk s i ts dlen dat = Some x"
    and "length (disk_log_buffer s) = DISK_LIMIT" and "4 \<le> length i"
  shows "writable i ts dlen dat \<and> unat dlen \<le> 65524"
proof -
  obtain t out where "ensure_disk_log_space clk (12 + unat dlen) s = (t, out)" by fastforce
  with assms show ?thesis using ensure_disk_log_buffer [of clk "12 + unat dlen" s t out]
    by (auto simp: log_write_disk_only_def Let_def Option.bind_eq_Some_conv memcpy_from_Some_iff store_def
        writable_def DISK_LIMIT_def split: if_splits)
qed

lemma log_write_given:
  assumes "log_write clk s i ts dlen dat = Some x" and "holds s xs" and "4 \<le> length i"
  shows "writable i ts dlen dat \<and> unat dlen \<le> 1416"
proof -
  obtain t out where t: "ensure_net_log_space clk (12 + unat dlen) s = (t, out)" by fastforce
  then have "length (disk_log_buffer t) = DISK_LIMIT"
    using ensure_net_disk_log_buffer [OF t] holdsD(2) [OF assms(2)] by simp
  with t assms(1,3) have "writable i ts dlen dat"
    using log_write_disk_only_given by (fastforce simp: log_write_def Let_def Option.bind_eq_Some_conv)
  then show ?thesis
    using log_write_too_long [OF holdsD(1) [OF assms(2)]] assms(1) by (metis not_le option.distinct(1))
qed

section \<open>The names of log files\<close>

lemma digit_inject: "digit m = digit n \<longleftrightarrow> m mod 10 = n mod 10"
proof -
  have d: "of_char (digit k) = (48 + k mod 10 :: nat)" for k
  proof -
    have "48 + k mod 10 < 256" by (rule less_trans [of _ "48 + 10"]) simp_all
    then show ?thesis by (simp only: digit_def of_char_of mod_less)
  qed
  have "digit m = digit n \<longleftrightarrow> (of_char (digit m) :: nat) = of_char (digit n)"
    by (simp only: of_char_eq_iff)
  then show ?thesis by (simp only: d add_left_cancel)
qed

lemma logfile_name_inject:
  assumes "i < 1000" and "j < 1000" and "logfile_name i = logfile_name j"
  shows "i = j"
proof -
  have "i div 100 mod 10 = j div 100 mod 10" "i div 10 mod 10 = j div 10 mod 10" "i mod 10 = j mod 10"
    using assms(3) by (simp_all add: logfile_name_def digit_inject)
  moreover have "k = 100 * (k div 100 mod 10) + 10 * (k div 10 mod 10) + k mod 10" if "k < 1000" for k :: nat
  proof -
    have "k div 100 mod 10 = k div 100" using that by (simp add: div_less_iff_less_mult)
    moreover have "k div 100 = k div 10 div 10" by (simp add: div_mult2_eq [symmetric])
    moreover have "10 * (k div 10 div 10) + k div 10 mod 10 = k div 10" "10 * (k div 10) + k mod 10 = k"
      by (rule mult_div_mod_eq)+
    ultimately show ?thesis by linarith
  qed
  ultimately show ?thesis using assms(1,2) by metis
qed

lemma open_logfile_from:
  "open_logfile_from env i n = Inr fd \<longleftrightarrow>
    (\<exists>k<n. env (logfile_name (i + k)) = Opened fd \<and>
       (\<forall>j<k. env (logfile_name (i + j)) \<in> {EEXIST, EISDIR}))"
proof (induction n arbitrary: i)
  case (Suc n)
  have split: "(\<exists>k<Suc n. P k) \<longleftrightarrow> P 0 \<or> (\<exists>k<n. P (Suc k))" for P
    by (auto simp: less_Suc_eq_0_disj)
  have all: "(\<forall>j<Suc k. P j) \<longleftrightarrow> P 0 \<and> (\<forall>j<k. P (Suc j))" for P k
    by (auto simp: less_Suc_eq_0_disj)
  show ?case
    unfolding split all using Suc.IH [of "Suc i"]
    by (cases "env (logfile_name i)") auto
qed simp

section \<open>Properties\<close>

text \<open>
  C8: the log file is complete. After any sequence of messages that fit, signals, versions, servo
  commands and timer events, and the flush at the end, the bytes written to the file decode to the
  records of exactly those messages, each once, whole and in order, with nothing in between but
  the \<open>SEQN\<close> records, numbered consecutively, that head each block; and no step stores outside a
  buffer.
\<close>

theorem log_file_complete:
  assumes "\<forall>e\<in>set es. log_admissible e"
  shows "\<exists>s out gs ys. run (log_step clk) (log_static\<lparr>sequence := n\<rparr>) (es @ [LogTimer]) = Some (s, out) \<and>
    decode_all (length (concat (written LogFile out))) dec_record (concat (written LogFile out))
      = Some (file_records n gs) \<and>
    concat (map snd gs) = ys \<and> list_all2 records (filter (\<lambda>e. e \<noteq> LogTimer) es) ys"
proof -
  obtain t gs ys where "run (log_step clk) (log_static\<lparr>sequence := n\<rparr>) (es @ [LogTimer]) = Some (t, group_out n gs)"
    "concat (map snd gs) = ys" "\<forall>g\<in>set gs. ok_group g"
    "list_all2 records (filter (\<lambda>e. e \<noteq> LogTimer) es) ys"
    by (rule log_run_flushed [OF assms])
  then show ?thesis
    using log_record.decode_whole [OF file_records_valid, of gs n] by (metis written_group_out(1))
qed

definition ground_packet :: packet where
  "ground_packet = \<lparr>ID = ''RNHP'', timestamp = replicate 6 1, data_length = 2, data = [7, 8]\<rparr>"

lemma ground_packet_ok [simp]: "log_admissible (LogGround ground_packet)"
  by (simp add: ground_packet_def writable_def)

text \<open>What a log of just this packet records.\<close>

lemma records_ground_packet:
  "list_all2 records (filter (\<lambda>e. e \<noteq> LogTimer) [LogGround ground_packet]) ys \<longleftrightarrow>
    ys = [((chars ''RNHP'', replicate 6 1, [7, 8]), True)]"
  by (auto simp: list_all2_Cons1 ground_packet_def record_of_def)

definition log_clock :: clock where
  "log_clock = \<lparr>starttime = \<lparr>tv_sec = 0, tv_nsec = 0\<rparr>, readings = (\<lambda>k. \<lparr>tv_sec = 0, tv_nsec = 0\<rparr>)\<rparr>"

lemma log_file_complete_witness:
  "\<exists>s out gs. run (log_step log_clock) (log_static\<lparr>sequence := 0\<rparr>) [LogGround ground_packet, LogTimer]
      = Some (s, out) \<and>
    decode_all (length (concat (written LogFile out))) dec_record (concat (written LogFile out))
      = Some (file_records 0 gs) \<and>
    concat (map snd gs) = [((chars ''RNHP'', replicate 6 1, [7, 8]), True)]"
  using log_file_complete [of "[LogGround ground_packet]" log_clock 0]
  by (simp only: list.set ball_simps ground_packet_ok records_ground_packet append.simps simp_thms) blast

text \<open>
  C21: the datagrams to the ground. Each carries at most 1428 bytes behind its four-byte number and
  so fits a 1500-byte link with the largest IPv4 header; the numbers are consecutive from the first
  one on, wrapping; no record is split between datagrams; and together they carry exactly the
  records of the messages that are not for the disk only, in order.
\<close>

theorem ground_datagrams:
  assumes "\<forall>e\<in>set es. log_admissible e"
  shows "\<exists>s out gs. run (log_step clk) (log_static\<lparr>sequence := n\<rparr>) (es @ [LogTimer]) = Some (s, out) \<and>
    written LogSocket out =
      map (\<lambda>(k, g). be32 (n + word_of_nat k) @ net_image g) (zip [0..<length gs] gs) \<and>
    (\<forall>g\<in>set gs. length (net_image g) \<le> 1428) \<and>
    list_all2 records (filter (\<lambda>e. e \<noteq> LogTimer) es) (concat gs)"
proof -
  obtain t gs ys where r: "run (log_step clk) (log_static\<lparr>sequence := n\<rparr>) (es @ [LogTimer]) = Some (t, group_out n gs)"
    "concat (map snd gs) = ys" "\<forall>g\<in>set gs. ok_group g"
    "list_all2 records (filter (\<lambda>e. e \<noteq> LogTimer) es) ys"
    by (rule log_run_flushed [OF assms])
  have "written LogSocket (group_out n gs) =
      map (\<lambda>(k, g). be32 (n + word_of_nat k) @ net_image g)
          (zip [0..<length (map snd gs)] (map snd gs))"
    unfolding written_group_out length_map zip_map2 map_map by (simp only: comp_def case_prod_unfold fst_conv snd_conv)
  moreover have "\<forall>g\<in>set (map snd gs). length (net_image g) \<le> 1428"
    using r(3) by (auto simp: ok_group_def P_LIMIT_def)
  ultimately show ?thesis using r(1,2,4)
    by (intro exI [of _ t] exI [of _ "group_out n gs"] exI [of _ "map snd gs"]) simp
qed

lemma ground_datagrams_witness:
  "\<exists>s out gs. run (log_step log_clock) (log_static\<lparr>sequence := 5\<rparr>) [LogGround ground_packet, LogTimer]
      = Some (s, out) \<and>
    written LogSocket out = map (\<lambda>(k, g). be32 (5 + word_of_nat k) @ net_image g) (zip [0..<length gs] gs) \<and>
    concat gs = [((chars ''RNHP'', replicate 6 1, [7, 8]), True)]"
  using ground_datagrams [of "[LogGround ground_packet]" log_clock 5]
  by (simp only: list.set ball_simps ground_packet_ok records_ground_packet append.simps simp_thms) blast

text \<open>
  C33: exactly when a message overflows the buffers. From a state of the logger, a message that can be
  read is logged to disk and ground if its payload has at most 1416 bytes, and otherwise stored past
  the end of the datagram buffer: the check for space flushes, but does not compare the length of
  the message with the size of the empty buffer.
\<close>

theorem log_write_fits_iff:
  assumes "holds s xs" and "4 \<le> length i" and "6 \<le> length ts" and "unat dlen \<le> length dat"
  shows "log_write clk s i ts dlen dat \<noteq> None \<longleftrightarrow> unat dlen \<le> 1416"
proof (cases "unat dlen \<le> 1416")
  case True
  then show ?thesis
    using log_write_ok [OF assms(1), of i ts dlen dat clk] assms(2-4)
    by (auto simp: writable_def limits)
next
  case False
  then show ?thesis using log_write_too_long [of s dlen clk i ts dat] holdsD(1) [OF assms(1)] by simp
qed

lemma log_write_fits_iff_witness:
  "log_write log_clock (log_static\<lparr>sequence := 0\<rparr>) ''JGPS'' (replicate 6 0) 1417 (replicate 1417 0) = None"
  using log_write_fits_iff [OF holds_static [of 0], of "''JGPS''" "replicate 6 0" 1417 "replicate 1417 0" log_clock]
  by (simp del: not_None_eq)

text \<open>
  Which log file is used. The search tries at most 1000 names, all different, and succeeds
  exactly when one of them can be opened before any other error than \<open>EEXIST\<close> and \<open>EISDIR\<close> occurs;
  then it is the first name in numerical order that does not exist yet. Otherwise the program
  exits.
\<close>

lemma open_logfile_first_free:
  "(open_logfile env = Inr fd \<longleftrightarrow>
      (\<exists>k<1000. env (logfile_name k) = Opened fd \<and>
         (\<forall>j<k. env (logfile_name j) \<in> {EEXIST, EISDIR}))) \<and>
   inj_on logfile_name {..<1000} \<and>
   (\<forall>k. length (logfile_name k) = 11)"
proof -
  have "inj_on logfile_name {..<1000}"
    by (rule inj_onI) (simp add: logfile_name_inject)
  moreover have "open_logfile env = Inr fd \<longleftrightarrow>
      (\<exists>k<1000. env (logfile_name k) = Opened fd \<and>
         (\<forall>j<k. env (logfile_name j) \<in> {EEXIST, EISDIR}))"
    unfolding open_logfile_def open_logfile_from by simp
  ultimately show ?thesis by (simp add: logfile_name_def)
qed

end
