(* ===== verification/Psas_Messages.thy ===== *)
theory Psas_Messages
  imports Logger_Proofs
begin

text \<open>
  The other structs of \<open>src/src/utilities/psas_packet.h\<close>: the payloads of the JGPS receiver and of
  the launch tower computer, which the program passes on without reading them, and the messages,
  each a header followed by a payload. The records of the log have the layout of these messages.
\<close>

section \<open>Payloads\<close>

definition GPSFixData :: layout where
  "GPSFixData = [(''age_of_diff'', UINT8), (''num_of_sats'', UINT8), (''gps_week'', UINT16),
     (''gps_time_of_week'', DOUBLE), (''latitude'', DOUBLE), (''longitude'', DOUBLE),
     (''height'', FLOAT), (''vnorth'', FLOAT), (''veast'', FLOAT), (''vup'', FLOAT),
     (''std_dev_resid'', FLOAT), (''nav_mode'', UINT16), (''extended_age_of_diff'', UINT16)]"

definition GPSFixQualityData :: layout where
  "GPSFixQualityData = [(''mask_sats_tracked'', UINT32), (''mask_sats_used'', UINT32),
     (''gps_utc_diff'', UINT16), (''hdop'', UINT16), (''vdop'', UINT16),
     (''mask_waas_prn'', UINT16)]"

definition GPSWAASMessageData :: layout where
  "GPSWAASMessageData = [(''prn'', UINT16), (''spare'', UINT16), (''msg_sec_of_week'', UINT32),
     (''waas_msg'', ARRAY 32 INT8)]"

definition GPSWAASEphemerisData :: layout where
  "GPSWAASEphemerisData = [(''sv'', UINT16), (''spare'', UINT16), (''tow_sec_of_week'', UINT32),
     (''iode'', UINT16), (''ura'', UINT16), (''t_zero'', INT32), (''xg'', INT32),
     (''yg'', INT32), (''zg'', INT32), (''xg_dot'', INT32), (''yg_dot'', INT32),
     (''zg_dot'', INT32), (''xg_dotdot'', INT32), (''yg_dotdot'', INT32),
     (''zg_dotdot'', INT32), (''gf_zero'', UINT16), (''gf_zero_dot'', UINT16)]"

definition GPSIonosphereUTCData :: layout where
  "GPSIonosphereUTCData = [(''a0'', DOUBLE), (''a1'', DOUBLE), (''a2'', DOUBLE), (''a3'', DOUBLE),
     (''b0'', DOUBLE), (''b1'', DOUBLE), (''b2'', DOUBLE), (''b3'', DOUBLE),
     (''utc_a0'', DOUBLE), (''utc_a1'', DOUBLE), (''tot'', UINT32), (''wnt'', UINT16),
     (''wnlsf'', UINT16), (''dn'', UINT16), (''dtls'', UINT16), (''dtlsf'', UINT16),
     (''space'', UINT16)]"

definition GPSEphemerisData :: layout where
  "GPSEphemerisData = [(''sv'', UINT16), (''spare'', UINT16), (''sec_of_week'', UINT32),
     (''sf1_words'', ARRAY 40 INT8), (''sf2_words'', ARRAY 40 INT8),
     (''sf3_words'', ARRAY 40 INT8)]"

definition GPSPsudorangeData :: layout where
  "GPSPsudorangeData = [(''spare'', UINT16), (''week'', UINT16), (''tow'', DOUBLE),
     (''uics_tt_snr_prn_0'', UINT32), (''uics_tt_snr_prn_1'', UINT32),
     (''uics_tt_snr_prn_2'', UINT32), (''uics_tt_snr_prn_3'', UINT32),
     (''uics_tt_snr_prn_4'', UINT32), (''uics_tt_snr_prn_5'', UINT32),
     (''uics_tt_snr_prn_6'', UINT32), (''uics_tt_snr_prn_7'', UINT32),
     (''uics_tt_snr_prn_8'', UINT32), (''uics_tt_snr_prn_9'', UINT32),
     (''uics_tt_snr_prn_10'', UINT32), (''uics_tt_snr_prn_11'', UINT32),
     (''uidoppler_fl_0'', UINT32), (''uidoppler_fl_1'', UINT32),
     (''uidoppler_fl_2'', UINT32), (''uidoppler_fl_3'', UINT32),
     (''uidoppler_fl_4'', UINT32), (''uidoppler_fl_5'', UINT32),
     (''uidoppler_fl_6'', UINT32), (''uidoppler_fl_7'', UINT32),
     (''uidoppler_fl_8'', UINT32), (''uidoppler_fl_9'', UINT32),
     (''uidoppler_fl_10'', UINT32), (''uidoppler_fl_11'', UINT32),
     (''pseudorange_0'', DOUBLE), (''pseudorange_1'', DOUBLE), (''pseudorange_2'', DOUBLE),
     (''pseudorange_3'', DOUBLE), (''pseudorange_4'', DOUBLE), (''pseudorange_5'', DOUBLE),
     (''pseudorange_6'', DOUBLE), (''pseudorange_7'', DOUBLE), (''pseudorange_8'', DOUBLE),
     (''pseudorange_9'', DOUBLE), (''pseudorange_10'', DOUBLE), (''pseudorange_11'', DOUBLE),
     (''phase_0'', DOUBLE), (''phase_1'', DOUBLE), (''phase_2'', DOUBLE),
     (''phase_3'', DOUBLE), (''phase_4'', DOUBLE), (''phase_5'', DOUBLE),
     (''phase_6'', DOUBLE), (''phase_7'', DOUBLE), (''phase_8'', DOUBLE),
     (''phase_9'', DOUBLE), (''phase_10'', DOUBLE), (''phase_11'', DOUBLE)]"

definition GPSProcessorData :: layout where
  "GPSProcessorData = [(''cpu_availible'', UINT32), (''missed_sub_frames'', UINT16),
     (''max_subframe_queued'', UINT16), (''missed_accum'', UINT16),
     (''missed_meas'', UINT16), (''spare1'', UINT32), (''spare2'', UINT32),
     (''spare3'', UINT32), (''spare4'', UINT16), (''spare5'', UINT16)]"

definition GPSAlmanacData :: layout where
  "GPSAlmanacData = [(''alman_data'', ARRAY 64 INT8), (''last_alman'', UINT8), (''ionoutcv_flag'', UINT8),
     (''spare'', UINT16)]"

definition GPSSatelliteData :: layout where
  "GPSSatelliteData = [(''nav_mode_2'', UINT8), (''utc_time_diff'', UINT8), (''gps_week'', UINT16),
     (''gps_time_of_week'', DOUBLE), (''channel_0'', UINT8), (''tracked_0'', UINT8),
     (''status_0'', UINT8), (''last_subframe_0'', UINT8), (''ephm_v_flag_0'', UINT8),
     (''ephm_health_0'', UINT8), (''alm_v_flag_0'', UINT8), (''alm_health_0'', UINT8),
     (''elev_angle_0'', INT8), (''azimuth_angle_0'', UINT8), (''ura_0'', UINT8),
     (''spare_0'', UINT8), (''cli_for_snr_0'', UINT16), (''diffcorr_0'', INT16),
     (''pos_resid_0'', INT16), (''vel_resid_0'', INT16), (''dopplr_0'', INT16),
     (''n_carr_offset_0'', INT16), (''channel_1'', UINT8), (''tracked_1'', UINT8),
     (''status_1'', UINT8), (''last_subframe_1'', UINT8), (''ephm_v_flag_1'', UINT8),
     (''ephm_health_1'', UINT8), (''alm_v_flag_1'', UINT8), (''alm_health_1'', UINT8),
     (''elev_angle_1'', INT8), (''azimuth_angle_1'', UINT8), (''ura_1'', UINT8),
     (''spare_1'', UINT8), (''cli_for_snr_1'', UINT16), (''diffcorr_1'', INT16),
     (''pos_resid_1'', INT16), (''vel_resid_1'', INT16), (''dopplr_1'', INT16),
     (''n_carr_offset_1'', INT16), (''channel_2'', UINT8), (''tracked_2'', UINT8),
     (''status_2'', UINT8), (''last_subframe_2'', UINT8), (''ephm_v_flag_2'', UINT8),
     (''ephm_health_2'', UINT8), (''alm_v_flag_2'', UINT8), (''alm_health_2'', UINT8),
     (''elev_angle_2'', INT8), (''azimuth_angle_2'', UINT8), (''ura_2'', UINT8),
     (''spare_2'', UINT8), (''cli_for_snr_2'', UINT16), (''diffcorr_2'', INT16),
     (''pos_resid_2'', INT16), (''vel_resid_2'', INT16), (''dopplr_2'', INT16),
     (''n_carr_offset_2'', INT16), (''channel_3'', UINT8), (''tracked_3'', UINT8),
     (''status_3'', UINT8), (''last_subframe_3'', UINT8), (''ephm_v_flag_3'', UINT8),
     (''ephm_health_3'', UINT8), (''alm_v_flag_3'', UINT8), (''alm_health_3'', UINT8),
     (''elev_angle_3'', INT8), (''azimuth_angle_3'', UINT8), (''ura_3'', UINT8),
     (''spare_3'', UINT8), (''cli_for_snr_3'', UINT16), (''diffcorr_3'', INT16),
     (''pos_resid_3'', INT16), (''vel_resid_3'', INT16), (''dopplr_3'', INT16),
     (''n_carr_offset_3'', INT16), (''channel_4'', UINT8), (''tracked_4'', UINT8),
     (''status_4'', UINT8), (''last_subframe_4'', UINT8), (''ephm_v_flag_4'', UINT8),
     (''ephm_health_4'', UINT8), (''alm_v_flag_4'', UINT8), (''alm_health_4'', UINT8),
     (''elev_angle_4'', INT8), (''azimuth_angle_4'', UINT8), (''ura_4'', UINT8),
     (''spare_4'', UINT8), (''cli_for_snr_4'', UINT16), (''diffcorr_4'', INT16),
     (''pos_resid_4'', INT16), (''vel_resid_4'', INT16), (''dopplr_4'', INT16),
     (''n_carr_offset_4'', INT16), (''channel_5'', UINT8), (''tracked_5'', UINT8),
     (''status_5'', UINT8), (''last_subframe_5'', UINT8), (''ephm_v_flag_5'', UINT8),
     (''ephm_health_5'', UINT8), (''alm_v_flag_5'', UINT8), (''alm_health_5'', UINT8),
     (''elev_angle_5'', INT8), (''azimuth_angle_5'', UINT8), (''ura_5'', UINT8),
     (''spare_5'', UINT8), (''cli_for_snr_5'', UINT16), (''diffcorr_5'', INT16),
     (''pos_resid_5'', INT16), (''vel_resid_5'', INT16), (''dopplr_5'', INT16),
     (''n_carr_offset_5'', INT16), (''channel_6'', UINT8), (''tracked_6'', UINT8),
     (''status_6'', UINT8), (''last_subframe_6'', UINT8), (''ephm_v_flag_6'', UINT8),
     (''ephm_health_6'', UINT8), (''alm_v_flag_6'', UINT8), (''alm_health_6'', UINT8),
     (''elev_angle_6'', INT8), (''azimuth_angle_6'', UINT8), (''ura_6'', UINT8),
     (''spare_6'', UINT8), (''cli_for_snr_6'', UINT16), (''diffcorr_6'', INT16),
     (''pos_resid_6'', INT16), (''vel_resid_6'', INT16), (''dopplr_6'', INT16),
     (''n_carr_offset_6'', INT16), (''channel_7'', UINT8), (''tracked_7'', UINT8),
     (''status_7'', UINT8), (''last_subframe_7'', UINT8), (''ephm_v_flag_7'', UINT8),
     (''ephm_health_7'', UINT8), (''alm_v_flag_7'', UINT8), (''alm_health_7'', UINT8),
     (''elev_angle_7'', INT8), (''azimuth_angle_7'', UINT8), (''ura_7'', UINT8),
     (''spare_7'', UINT8), (''cli_for_snr_7'', UINT16), (''diffcorr_7'', INT16),
     (''pos_resid_7'', INT16), (''vel_resid_7'', INT16), (''dopplr_7'', INT16),
     (''n_carr_offset_7'', INT16), (''channel_8'', UINT8), (''tracked_8'', UINT8),
     (''status_8'', UINT8), (''last_subframe_8'', UINT8), (''ephm_v_flag_8'', UINT8),
     (''ephm_health_8'', UINT8), (''alm_v_flag_8'', UINT8), (''alm_health_8'', UINT8),
     (''elev_angle_8'', INT8), (''azimuth_angle_8'', UINT8), (''ura_8'', UINT8),
     (''spare_8'', UINT8), (''cli_for_snr_8'', UINT16), (''diffcorr_8'', INT16),
     (''pos_resid_8'', INT16), (''vel_resid_8'', INT16), (''dopplr_8'', INT16),
     (''n_carr_offset_8'', INT16), (''channel_9'', UINT8), (''tracked_9'', UINT8),
     (''status_9'', UINT8), (''last_subframe_9'', UINT8), (''ephm_v_flag_9'', UINT8),
     (''ephm_health_9'', UINT8), (''alm_v_flag_9'', UINT8), (''alm_health_9'', UINT8),
     (''elev_angle_9'', INT8), (''azimuth_angle_9'', UINT8), (''ura_9'', UINT8),
     (''spare_9'', UINT8), (''cli_for_snr_9'', UINT16), (''diffcorr_9'', INT16),
     (''pos_resid_9'', INT16), (''vel_resid_9'', INT16), (''dopplr_9'', INT16),
     (''n_carr_offset_9'', INT16), (''channel_10'', UINT8), (''tracked_10'', UINT8),
     (''status_10'', UINT8), (''last_subframe_10'', UINT8), (''ephm_v_flag_10'', UINT8),
     (''ephm_health_10'', UINT8), (''alm_v_flag_10'', UINT8), (''alm_health_10'', UINT8),
     (''elev_angle_10'', INT8), (''azimuth_angle_10'', UINT8), (''ura_10'', UINT8),
     (''spare_10'', UINT8), (''cli_for_snr_10'', UINT16), (''diffcorr_10'', INT16),
     (''pos_resid_10'', INT16), (''vel_resid_10'', INT16), (''dopplr_10'', INT16),
     (''n_carr_offset_10'', INT16), (''channel_11'', UINT8), (''tracked_11'', UINT8),
     (''status_11'', UINT8), (''last_subframe_11'', UINT8), (''ephm_v_flag_11'', UINT8),
     (''ephm_health_11'', UINT8), (''alm_v_flag_11'', UINT8), (''alm_health_11'', UINT8),
     (''elev_angle_11'', INT8), (''azimuth_angle_11'', UINT8), (''ura_11'', UINT8),
     (''spare_11'', UINT8), (''cli_for_snr_11'', UINT16), (''diffcorr_11'', INT16),
     (''pos_resid_11'', INT16), (''vel_resid_11'', INT16), (''dopplr_11'', INT16),
     (''n_carr_offset_11'', INT16), (''clock_err_l1'', INT16), (''spare'', UINT16)]"

definition LaunchTowerComputerData :: layout where
  "LaunchTowerComputerData = [(''rocket_ready'', FLOAT), (''iginition_relay'', UINT8), (''ignition_battery'', FLOAT),
     (''shore_power_relay'', UINT8), (''shore_power'', FLOAT), (''solar_voltage'', FLOAT),
     (''system_battery'', FLOAT), (''internal_temp'', FLOAT), (''external_temp'', FLOAT),
     (''humidity'', FLOAT), (''wind_speed'', FLOAT), (''wind_direction'', FLOAT),
     (''barometric_pressure'', FLOAT)]"

definition MPL3115A2Data :: layout where
  "MPL3115A2Data = [(''pressure'', UINT32), (''temp'', INT16)]"

definition RNHUmbilicalData :: layout where
  "RNHUmbilicalData = [(''detect'', UINT8)]"

section \<open>Messages\<close>

definition ADISMessage :: layout where
  "ADISMessage = [(''ID'', ARRAY 4 INT8), (''timestamp'', ARRAY 6 UINT8), (''data_length'', UINT16),
     (''data'', STRUCT ADIS16405Data)]"

definition FCFHMessage :: layout where
  "FCFHMessage = [(''ID'', ARRAY 4 INT8), (''timestamp'', ARRAY 6 UINT8), (''data_length'', UINT16),
     (''data'', STRUCT FCFHealthData)]"

definition GPS1Message :: layout where
  "GPS1Message = [(''ID'', ARRAY 4 INT8), (''timestamp'', ARRAY 6 UINT8), (''data_length'', UINT16),
     (''data'', STRUCT GPSFixData)]"

definition GPS2Message :: layout where
  "GPS2Message = [(''ID'', ARRAY 4 INT8), (''timestamp'', ARRAY 6 UINT8), (''data_length'', UINT16),
     (''data'', STRUCT GPSFixQualityData)]"

definition GPS80Message :: layout where
  "GPS80Message = [(''ID'', ARRAY 4 INT8), (''timestamp'', ARRAY 6 UINT8), (''data_length'', UINT16),
     (''data'', STRUCT GPSWAASMessageData)]"

definition GPS93Message :: layout where
  "GPS93Message = [(''ID'', ARRAY 4 INT8), (''timestamp'', ARRAY 6 UINT8), (''data_length'', UINT16),
     (''data'', STRUCT GPSWAASEphemerisData)]"

definition GPS94Message :: layout where
  "GPS94Message = [(''ID'', ARRAY 4 INT8), (''timestamp'', ARRAY 6 UINT8), (''data_length'', UINT16),
     (''data'', STRUCT GPSIonosphereUTCData)]"

definition GPS95Message :: layout where
  "GPS95Message = [(''ID'', ARRAY 4 INT8), (''timestamp'', ARRAY 6 UINT8), (''data_length'', UINT16),
     (''data'', STRUCT GPSEphemerisData)]"

definition GPS96Message :: layout where
  "GPS96Message = [(''ID'', ARRAY 4 INT8), (''timestamp'', ARRAY 6 UINT8), (''data_length'', UINT16),
     (''data'', STRUCT GPSPsudorangeData)]"

definition GPS97Message :: layout where
  "GPS97Message = [(''ID'', ARRAY 4 INT8), (''timestamp'', ARRAY 6 UINT8), (''data_length'', UINT16),
     (''data'', STRUCT GPSProcessorData)]"

definition GPS98Message :: layout where
  "GPS98Message = [(''ID'', ARRAY 4 INT8), (''timestamp'', ARRAY 6 UINT8), (''data_length'', UINT16),
     (''data'', STRUCT GPSAlmanacData)]"

definition GPS99Message :: layout where
  "GPS99Message = [(''ID'', ARRAY 4 INT8), (''timestamp'', ARRAY 6 UINT8), (''data_length'', UINT16),
     (''data'', STRUCT GPSSatelliteData)]"

definition LTCHMessage :: layout where
  "LTCHMessage = [(''ID'', ARRAY 4 INT8), (''timestamp'', ARRAY 6 UINT8), (''data_length'', UINT16),
     (''data'', STRUCT LaunchTowerComputerData)]"

definition MPL3Message :: layout where
  "MPL3Message = [(''ID'', ARRAY 4 INT8), (''timestamp'', ARRAY 6 UINT8), (''data_length'', UINT16),
     (''data'', STRUCT MPL3115A2Data)]"

definition BMP1Message :: layout where
  "BMP1Message = [(''ID'', ARRAY 4 INT8), (''timestamp'', ARRAY 6 UINT8), (''data_length'', UINT16),
     (''data'', STRUCT BMP180Data)]"

definition RNHHMessage :: layout where
  "RNHHMessage = [(''ID'', ARRAY 4 INT8), (''timestamp'', ARRAY 6 UINT8), (''data_length'', UINT16),
     (''data'', STRUCT RNHHealthData)]"

definition RNHPMessage :: layout where
  "RNHPMessage = [(''ID'', ARRAY 4 INT8), (''timestamp'', ARRAY 6 UINT8), (''data_length'', UINT16),
     (''data'', STRUCT RNHPowerData)]"

definition RNHUMessage :: layout where
  "RNHUMessage = [(''ID'', ARRAY 4 INT8), (''timestamp'', ARRAY 6 UINT8), (''data_length'', UINT16),
     (''data'', STRUCT RNHUmbilicalData)]"

definition ROLLMessage_struct :: layout where
  "ROLLMessage_struct = [(''ID'', ARRAY 4 INT8), (''timestamp'', ARRAY 6 UINT8), (''data_length'', UINT16),
     (''data'', STRUCT RollServoData)]"

definition SEQEMessage :: layout where
  "SEQEMessage = [(''ID'', ARRAY 4 INT8), (''timestamp'', ARRAY 6 UINT8), (''data_length'', UINT16),
     (''data'', STRUCT SequenceErrorData)]"

definition SEQNMessage :: layout where
  "SEQNMessage = [(''ID'', ARRAY 4 INT8), (''timestamp'', ARRAY 6 UINT8), (''data_length'', UINT16),
     (''data'', STRUCT SequenceNoData)]"

definition V8A8Message :: layout where
  "V8A8Message = [(''ID'', ARRAY 4 INT8), (''timestamp'', ARRAY 6 UINT8), (''data_length'', UINT16),
     (''data'', STRUCT Venus8NavigationData)]"

definition VSTEMessage :: layout where
  "VSTEMessage = [(''ID'', ARRAY 4 INT8), (''timestamp'', ARRAY 6 UINT8), (''data_length'', UINT16),
     (''data'', STRUCT StateData)]"

lemmas message_defs = ADISMessage_def FCFHMessage_def GPS1Message_def GPS2Message_def GPS80Message_def
  GPS93Message_def GPS94Message_def GPS95Message_def GPS96Message_def GPS97Message_def
  GPS98Message_def GPS99Message_def LTCHMessage_def MPL3Message_def BMP1Message_def
  RNHHMessage_def RNHPMessage_def RNHUMessage_def ROLLMessage_struct_def SEQEMessage_def
  SEQNMessage_def V8A8Message_def VSTEMessage_def

text \<open>Every message with the struct of its payload.\<close>

definition messages :: "(layout \<times> layout) list" where
  "messages = [(ADISMessage, ADIS16405Data), (FCFHMessage, FCFHealthData), (GPS1Message, GPSFixData),
     (GPS2Message, GPSFixQualityData), (GPS80Message, GPSWAASMessageData), (GPS93Message, GPSWAASEphemerisData),
     (GPS94Message, GPSIonosphereUTCData), (GPS95Message, GPSEphemerisData), (GPS96Message, GPSPsudorangeData),
     (GPS97Message, GPSProcessorData), (GPS98Message, GPSAlmanacData), (GPS99Message, GPSSatelliteData),
     (LTCHMessage, LaunchTowerComputerData), (MPL3Message, MPL3115A2Data), (BMP1Message, BMP180Data),
     (RNHHMessage, RNHHealthData), (RNHPMessage, RNHPowerData), (RNHUMessage, RNHUmbilicalData),
     (ROLLMessage_struct, RollServoData), (SEQEMessage, SequenceErrorData), (SEQNMessage, SequenceNoData),
     (V8A8Message, Venus8NavigationData), (VSTEMessage, StateData)]"

lemma payload_sizes [simp]:
  "struct_size GPSFixData = 52"
  "struct_size GPSFixQualityData = 16"
  "struct_size GPSWAASMessageData = 40"
  "struct_size GPSWAASEphemerisData = 56"
  "struct_size GPSIonosphereUTCData = 96"
  "struct_size GPSEphemerisData = 128"
  "struct_size GPSPsudorangeData = 300"
  "struct_size GPSProcessorData = 28"
  "struct_size GPSAlmanacData = 68"
  "struct_size GPSSatelliteData = 304"
  "struct_size LaunchTowerComputerData = 46"
  "struct_size MPL3115A2Data = 6"
  "struct_size RNHUmbilicalData = 1"
  by (simp_all add: struct_size_def GPSFixData_def GPSFixQualityData_def GPSWAASMessageData_def GPSWAASEphemerisData_def GPSIonosphereUTCData_def GPSEphemerisData_def GPSPsudorangeData_def GPSProcessorData_def GPSAlmanacData_def GPSSatelliteData_def LaunchTowerComputerData_def MPL3115A2Data_def RNHUmbilicalData_def)

lemma message_layout:
  assumes "(M, D) \<in> set messages"
  shows "M = message_header @ [(''data'', STRUCT D)]"
  using assms by (auto simp: messages_def message_defs message_header_def)

lemma struct_offset_header: "struct_offset (message_header @ l) ''data'' = map_option ((+) 12) (struct_offset l ''data'')"
  by (cases "struct_offset l ''data''") (simp_all add: message_header_def)

text \<open>
  The record that the logger writes for a payload of the right size has the bytes of its message
  struct: the size is that of the struct, and the payload begins at the offset of its field.
\<close>

lemma record_layout:
  assumes "(M, D) \<in> set messages" and "valid_record (i, t, d)" and "length d = struct_size D"
  shows "length (enc_record (i, t, d)) = struct_size M"
    and "struct_offset M ''data'' = Some 12" and "drop 12 (enc_record (i, t, d)) = d"
proof -
  note M = message_layout [OF assms(1)]
  have "struct_size M = 12 + struct_size D"
    by (simp add: M struct_size_def message_header_def case_prod_unfold comp_def)
  then show "length (enc_record (i, t, d)) = struct_size M"
    using assms(2,3) by simp
  show "struct_offset M ''data'' = Some 12" by (simp add: M message_header_def)
  show "drop 12 (enc_record (i, t, d)) = d" using assms(2) by simp
qed

text \<open>Every message fits a datagram and a record of the log.\<close>

lemma messages_fit: "\<forall>(M, D)\<in>set messages. struct_size D \<le> 1416"
  by (simp add: messages_def)

end
