(* ===== verification/Rnh.thy ===== *)
theory Rnh
  imports Utils_Sockets
begin

text \<open>
  \<open>src/src/devices/rnh.c\<close>: at the start the version of the RocketNet hub is asked for over TCP;
  the first answer is passed on and the connection closed.
\<close>

datatype read_result = ReadFailed | ReadBytes bytes

text \<open>
  The callback for an answer. \<open>stack\<close> is what the uninitialised \<open>uint8_t buffer[50]\<close> holds before
  the call.
\<close>

definition version_callback :: "int \<Rightarrow> bytes \<Rightarrow> read_result \<Rightarrow> action list \<times> syscall list" where
  "version_callback fd stack r =
     ((case r of
         ReadFailed \<Rightarrow> []
       | ReadBytes answer \<Rightarrow>
           let (len, buffer) = copy_datagram answer stack 50
           in [Send (rnh_version_out buffer (word_of_nat len))]),
      [RemoveFd fd, Close fd])"

definition rnh_init :: "bool \<Rightarrow> socket_env \<Rightarrow> action list \<times> syscall list" where
  "rnh_init live env =
     (let s = socket_ret env; calls = [Socket]
      in if s < 0 then ([], calls)
         else let calls = calls @ [Connect s (RNH_RCI_ADDR live)]
              in if connect_ret env < 0 then ([], calls @ [Close s])
                 else ([Write RnhSocket (chars ''#VERS'' @ [13, 10])], calls @ [AddFd s]))"

text \<open>The answer that is passed on is what was read, up to 50 bytes.\<close>

lemma version_callback_answer:
  assumes "length stack = 50"
  shows "\<exists>buffer len. fst (version_callback fd stack (ReadBytes answer)) =
      [Send (rnh_version_out buffer len)] \<and>
    unat len = min 50 (length answer) \<and> length buffer = 50 \<and> take (unat len) buffer = take 50 answer"
proof -
  have "unat (word_of_nat (min 50 (length answer)) :: u32) = min 50 (length answer)"
    by (simp add: unat_of_nat)
  with assms show ?thesis
    by (auto simp: version_callback_def copy_datagram_def Let_def min_def)
qed

end
