(* ===== verification/Sockets_Proofs.thy ===== *)
theory Sockets_Proofs
  imports Ethmux Arm Rollservo Rnh
begin

text \<open>
  The descriptors that the initialisation functions leave behind: what is opened, closed and
  registered with the main loop, and which static variables hold a descriptor that was closed.
\<close>

text \<open>The main loop watches these descriptors.\<close>

definition registered :: "syscall list \<Rightarrow> int set" where
  "registered calls = {fd. AddFd fd \<in> set calls} - {fd. RemoveFd fd \<in> set calls}"

lemmas init_defs = ethmux_init_def rnh_init_def arm_init_def rollcontrol_init_def rollservo_init_def
  registered_def

section \<open>Properties\<close>

text \<open>
  C40: no descriptor is lost. The function that opens the listening socket and those that register a
  socket with the main loop return with the socket open and watched, or, whichever of the system
  calls fails, with nothing open and nothing watched; the function that opens the listening socket
  returns a negative value exactly in the second case. The callback for the answer of the hub leaves the
  descriptor neither watched nor open.
\<close>

theorem no_descriptor_leak:
  "(let (fd, calls) = ethmux_init env in
      (if fd < 0 then open_after env calls = {} \<and> registered calls = {}
       else open_after env calls = {fd} \<and> registered calls = {fd})) \<and>
   (let (out, calls) = rnh_init live env in
      registered calls = open_after env calls \<and> (out = [] \<longleftrightarrow> open_after env calls = {}) \<and>
      (\<forall>fd \<in> open_after env calls.
         open_after env (calls @ snd (version_callback fd stack r)) = {} \<and>
         registered (calls @ snd (version_callback fd stack r)) = {}))"
  by (auto simp: init_defs socket_defs version_callback_def)

lemma no_descriptor_leak_witness:
  "open_after \<lparr>socket_ret = 4, bind_ret = 0, setsockopt_ret = -1, connect_ret = 0\<rparr>
    (snd (ethmux_init \<lparr>socket_ret = 4, bind_ret = 0, setsockopt_ret = -1, connect_ret = 0\<rparr>)) = {}"
  using no_descriptor_leak [of "\<lparr>socket_ret = 4, bind_ret = 0, setsockopt_ret = -1, connect_ret = 0\<rparr>" True
      "[]" ReadFailed]
  by (simp add: case_prod_unfold Let_def ethmux_init_def socket_defs)

text \<open>
  A closed descriptor is kept. When \<open>connect\<close> fails, \<open>arm_init\<close>, \<open>rollcontrol_init\<close> and
  \<open>rollservo_init\<close> close the socket but keep its number in their static variable: it is still not
  negative, and later writes go to whatever is opened under that number next.
\<close>

lemma stale_descriptor:
  assumes "0 \<le> socket_ret env" and "connect_ret env < 0"
  shows "(let (s', sd, calls) = arm_init env s in
      sd = socket_ret env \<and> sd \<notin> open_after env calls) \<and>
    (let (r', sd, calls) = rollcontrol_init env r in
      sd = socket_ret env \<and> sd \<notin> open_after env calls) \<and>
    (let (sd, calls) = rollservo_init live env in
      sd = socket_ret env \<and> sd \<notin> open_after env calls)"
  using assms by (auto simp: init_defs socket_defs)

lemma stale_descriptor_witness:
  "fst (rollservo_init True \<lparr>socket_ret = 5, bind_ret = 0, setsockopt_ret = 0, connect_ret = -1\<rparr>) = 5"
  using stale_descriptor [of "\<lparr>socket_ret = 5, bind_ret = 0, setsockopt_ret = 0, connect_ret = -1\<rparr>"
      arm_static rc_static True]
  by (simp add: case_prod_unfold Let_def)

end
