(* ===== verification/Fc_Main.thy ===== *)
theory Fc_Main
  imports Ethmux Gps Log_Filter Arm State Rollcontrol Rollservo Logger Rnh
begin

text \<open>
  \<open>src/main.miml\<close>: the modules put together. A module calls its senders; \<open>fcfmain.c\<close>, which is
  generated from \<open>main.miml\<close> by a tool that is not part of the repository, defines each sender as
  calls of receivers of other modules. What the generated senders do is the argument \<open>glue\<close>; that
  they call the receivers listed in \<open>main.miml\<close>, in that order, is the hypothesis
  \<open>calls_as_listed glue\<close>. Everything runs in one thread: a sender returns after all its receivers,
  and the main loop calls the callback of one descriptor at a time.
\<close>

section \<open>The program\<close>

datatype receiver =
    LOG_log_write | LOG_log_write_disk_only | LOG_log_receive_arm | LOG_log_receive_rc
  | LOG_log_receive_rnh_version
  | FILTER_filter_receive
  | GPS_cots_raw_in
  | ARM_arm_raw_in | ARM_arm_receive_imu | ARM_arm_receive_gps
  | RC_rc_receive_state | RC_rc_receive_arm | RC_rc_raw_umb | RC_rc_raw_testrc
  | RS_rs_receive_adj
  | STATE_state_receive_imu

text \<open>The section \<open>messages\<close> of \<open>main.miml\<close>.\<close>

fun connections :: "message \<Rightarrow> receiver list" where
  "connections (demuxed_ADIS _) = [LOG_log_write, ARM_arm_receive_imu, STATE_state_receive_imu]"
| "connections (demuxed_ARM _ _ _) = [ARM_arm_raw_in]"
| "connections (demuxed_MPU _) = [LOG_log_write]"
| "connections (demuxed_MPL _) = [LOG_log_write]"
| "connections (demuxed_BMP _) = [LOG_log_write]"
| "connections (demuxed_RC _ _ _) = [RC_rc_raw_testrc]"
| "connections (demuxed_RNH _) = [LOG_log_write]"
| "connections (demuxed_RNHUMB _) = [RC_rc_raw_umb, LOG_log_write]"
| "connections (demuxed_FCFH _) = [LOG_log_write]"
| "connections (demuxed_JGPS _) = [FILTER_filter_receive]"
| "connections (demuxed_COTS _) = [GPS_cots_raw_in]"
| "connections (sequenced_error _) = [LOG_log_write]"
| "connections (state_send_message _ _ _ _) = [RC_rc_receive_state]"
| "connections (gps_data_out _) = [ARM_arm_receive_gps, FILTER_filter_receive]"
| "connections (filter_to_ground _) = [LOG_log_write]"
| "connections (filter_to_disk _) = [LOG_log_write_disk_only]"
| "connections (arm_send_signal _) = [RC_rc_receive_arm, LOG_log_receive_arm]"
| "connections (rc_send_servo _) = [RS_rs_receive_adj, LOG_log_receive_rc]"
| "connections (rnh_version_out _ _) = [LOG_log_receive_rnh_version]"

definition calls_as_listed :: "(message \<Rightarrow> receiver list) \<Rightarrow> bool" where
  "calls_as_listed glue \<longleftrightarrow> (\<forall>m. glue m = connections m)"

record fc_state =
  fc_eth :: eth_state
  fc_gps :: gps_state
  fc_arm :: arm_state
  fc_est :: est_state
  fc_rc :: rc_state
  fc_rs :: u32
  fc_log :: log_state

text \<open>
  What the program takes from outside: the generated senders, \<open>exp\<close> of the C library, \<open>starttime\<close>,
  and the readings of the clock by the two modules that read it.
\<close>

record fc_env =
  glue :: "message \<Rightarrow> receiver list"
  c_exp :: "rat \<Rightarrow> rat"
  start_time :: timespec
  rc_readings :: "nat \<Rightarrow> timespec"
  log_readings :: "nat \<Rightarrow> timespec"

definition rc_clock :: "fc_env \<Rightarrow> clock" where
  "rc_clock env = \<lparr>starttime = start_time env, readings = rc_readings env\<rparr>"

definition logger_clock :: "fc_env \<Rightarrow> clock" where
  "logger_clock env = \<lparr>starttime = start_time env, readings = log_readings env\<rparr>"

text \<open>The arguments of the senders of type \<open>(ID, timestamp, data_length, data)\<close>.\<close>

fun packet_args :: "message \<Rightarrow> packet option" where
  "packet_args (demuxed_ADIS p) = Some p"
| "packet_args (demuxed_MPU p) = Some p"
| "packet_args (demuxed_MPL p) = Some p"
| "packet_args (demuxed_BMP p) = Some p"
| "packet_args (demuxed_RNH p) = Some p"
| "packet_args (demuxed_RNHUMB p) = Some p"
| "packet_args (demuxed_FCFH p) = Some p"
| "packet_args (demuxed_JGPS p) = Some p"
| "packet_args (demuxed_COTS p) = Some p"
| "packet_args (sequenced_error p) = Some p"
| "packet_args (gps_data_out p) = Some p"
| "packet_args (filter_to_ground p) = Some p"
| "packet_args (filter_to_disk p) = Some p"
| "packet_args _ = None"

fun command_args :: "message \<Rightarrow> (bytes \<times> u32) option" where
  "command_args (demuxed_ARM buffer len ts) = Some (buffer, len)"
| "command_args (demuxed_RC buffer len ts) = Some (buffer, len)"
| "command_args _ = None"

text \<open>
  One call of a receiver with the arguments of a sender: the new state, what the receiver does,
  and the arguments afterwards, of which only the one that is passed by reference and changed can
  differ. \<open>None\<close> is a fault of the receiver; senders and receivers of different types cannot be
  connected.
\<close>

fun receive ::
  "fc_env \<Rightarrow> receiver \<Rightarrow> message \<Rightarrow> fc_state \<Rightarrow> (fc_state \<times> action list \<times> message) option" where
  "receive env LOG_log_write m s = do {
     p \<leftarrow> packet_args m;
     (l, out) \<leftarrow> log_write (logger_clock env) (fc_log s) (ID p) (timestamp p) (data_length p) (data p);
     Some (s\<lparr>fc_log := l\<rparr>, out, m) }"
| "receive env LOG_log_write_disk_only m s = do {
     p \<leftarrow> packet_args m;
     (l, out) \<leftarrow> log_write_disk_only (logger_clock env) (fc_log s)
                  (ID p) (timestamp p) (data_length p) (data p);
     Some (s\<lparr>fc_log := l\<rparr>, out, m) }"
| "receive env LOG_log_receive_arm m s = do {
     code \<leftarrow> (case m of arm_send_signal code \<Rightarrow> Some code | _ \<Rightarrow> None);
     (l, out) \<leftarrow> log_receive_arm (logger_clock env) (fc_log s) code;
     Some (s\<lparr>fc_log := l\<rparr>, out, m) }"
| "receive env LOG_log_receive_rc m s = do {
     roll \<leftarrow> (case m of rc_send_servo roll \<Rightarrow> Some roll | _ \<Rightarrow> None);
     (l, out, roll) \<leftarrow> log_receive_rc (logger_clock env) (fc_log s) roll;
     Some (s\<lparr>fc_log := l\<rparr>, out, rc_send_servo roll) }"
| "receive env LOG_log_receive_rnh_version m s = do {
     (buffer, len) \<leftarrow> (case m of rnh_version_out buffer len \<Rightarrow> Some (buffer, len) | _ \<Rightarrow> None);
     (l, out) \<leftarrow> log_receive_rnh_version (logger_clock env) (fc_log s) buffer len;
     Some (s\<lparr>fc_log := l\<rparr>, out, m) }"
| "receive env FILTER_filter_receive m s = do {
     p \<leftarrow> packet_args m;
     Some (s, filter_receive p, m) }"
| "receive env GPS_cots_raw_in m s = do {
     p \<leftarrow> packet_args m;
     (g, out) \<leftarrow> cots_raw_in (fc_gps s) p;
     Some (s\<lparr>fc_gps := g\<rparr>, out, m) }"
| "receive env ARM_arm_raw_in m s = do {
     (buffer, len) \<leftarrow> command_args m;
     (a, out) \<leftarrow> arm_raw_in (fc_arm s) buffer len;
     Some (s\<lparr>fc_arm := a\<rparr>, out, m) }"
| "receive env ARM_arm_receive_imu m s = do {
     p \<leftarrow> packet_args m;
     (a, out) \<leftarrow> arm_receive_imu (fc_arm s) p;
     Some (s\<lparr>fc_arm := a\<rparr>, out, m) }"
| "receive env ARM_arm_receive_gps m s = do {
     p \<leftarrow> packet_args m;
     (a, out) \<leftarrow> arm_receive_gps (fc_arm s) p;
     Some (s\<lparr>fc_arm := a\<rparr>, out, m) }"
| "receive env RC_rc_receive_state m s = do {
     (i, ts, st) \<leftarrow> (case m of state_send_message i ts n st \<Rightarrow> Some (i, ts, st) | _ \<Rightarrow> None);
     (r, out) \<leftarrow> rc_receive_state (rc_clock env) (c_exp env) (fc_rc s) i ts st;
     Some (s\<lparr>fc_rc := r\<rparr>, out, m) }"
| "receive env RC_rc_receive_arm m s = do {
     code \<leftarrow> (case m of arm_send_signal code \<Rightarrow> Some code | _ \<Rightarrow> None);
     let (r, out) = rc_receive_arm (rc_clock env) (fc_rc s) code;
     Some (s\<lparr>fc_rc := r\<rparr>, out, m) }"
| "receive env RC_rc_raw_umb m s = do {
     p \<leftarrow> packet_args m;
     (r, out) \<leftarrow> rc_raw_umb (fc_rc s) p;
     Some (s\<lparr>fc_rc := r\<rparr>, out, m) }"
| "receive env RC_rc_raw_testrc m s = do {
     (buffer, len) \<leftarrow> command_args m;
     (r, out) \<leftarrow> rc_raw_testrc (rc_clock env) (fc_rc s) buffer len;
     Some (s\<lparr>fc_rc := r\<rparr>, out, m) }"
| "receive env RS_rs_receive_adj m s = do {
     roll \<leftarrow> (case m of rc_send_servo roll \<Rightarrow> Some roll | _ \<Rightarrow> None);
     (n, out) \<leftarrow> rs_receive_adj (fc_rs s) roll;
     Some (s\<lparr>fc_rs := n\<rparr>, out, m) }"
| "receive env STATE_state_receive_imu m s = do {
     p \<leftarrow> packet_args m;
     (e, out) \<leftarrow> state_receive_imu (fc_est s) p;
     Some (s\<lparr>fc_est := e\<rparr>, out, m) }"

section \<open>Dispatch\<close>

text \<open>
  Calls are executed depth first. \<open>n\<close> bounds how deep senders are nested; \<open>TooDeep\<close> is the value
  when that is not enough, \<open>Fault\<close> that of a receiver that leaves its objects. The output is what
  is written to the sockets and to the log, in order.
\<close>

datatype failure = Fault | TooDeep

type_synonym outcome = "failure + (fc_state \<times> action list)"

fun followed_by :: "outcome \<Rightarrow> (fc_state \<Rightarrow> outcome) \<Rightarrow> outcome" where
  "followed_by (Inl f) k = Inl f"
| "followed_by (Inr (s, out)) k =
     (case k s of Inl f \<Rightarrow> Inl f | Inr (s', out') \<Rightarrow> Inr (s', out @ out'))"

function (sequential)
  call_receivers :: "nat \<Rightarrow> fc_env \<Rightarrow> receiver list \<Rightarrow> message \<Rightarrow> fc_state \<Rightarrow> outcome"
  and perform :: "nat \<Rightarrow> fc_env \<Rightarrow> action list \<Rightarrow> fc_state \<Rightarrow> outcome" where
  "call_receivers n env [] m s = Inr (s, [])"
| "call_receivers n env (r # rs) m s =
     (case receive env r m s of
        None \<Rightarrow> Inl Fault
      | Some (s, acts, m) \<Rightarrow>
          followed_by (perform n env acts s) (\<lambda>s. call_receivers n env rs m s))"
| "perform n env [] s = Inr (s, [])"
| "perform n env (Write c bs # acts) s =
     followed_by (Inr (s, [Write c bs])) (\<lambda>s. perform n env acts s)"
| "perform 0 env (Send m # acts) s = Inl TooDeep"
| "perform (Suc n) env (Send m # acts) s =
     followed_by (call_receivers n env (glue env m) m s) (\<lambda>s. perform (Suc n) env acts s)"
  by pat_completeness auto
termination
  by (relation "measures
      [\<lambda>x. case x of Inl (n, _) \<Rightarrow> 2 * n + 1 | Inr (n, _) \<Rightarrow> 2 * n,
       \<lambda>x. case x of Inl (n, env, rs, _) \<Rightarrow> length rs | Inr (n, env, acts, _) \<Rightarrow> length acts]") auto

text \<open>A chain of senders in \<open>main.miml\<close> has at most three members.\<close>

definition NESTING :: nat where "NESTING = 3"

definition settle :: "fc_env \<Rightarrow> fc_state \<Rightarrow> action list \<Rightarrow> (fc_state \<times> action list) option" where
  "settle env s acts =
     (case perform NESTING env acts s of Inl f \<Rightarrow> None | Inr (s', out) \<Rightarrow> Some (s', out))"

text \<open>The callbacks of the main loop, as events.\<close>

datatype fc_event = EthReadable arrival | LogTimeout | RnhReadable int bytes read_result

fun fc_step :: "fc_env \<Rightarrow> fc_state \<Rightarrow> fc_event \<Rightarrow> (fc_state \<times> action list) option" where
  "fc_step env s (EthReadable a) = do {
     (e, acts) \<leftarrow> demux (start_time env) (fc_eth s) a;
     settle env (s\<lparr>fc_eth := e\<rparr>) acts }"
| "fc_step env s LogTimeout =
     (let (l, out) = log_timeout (logger_clock env) (fc_log s) in Some (s\<lparr>fc_log := l\<rparr>, out))"
| "fc_step env s (RnhReadable fd stack r) = settle env s (fst (version_callback fd stack r))"

text \<open>The state after the initialisation functions of the modules.\<close>

definition fc_start :: "socket_env \<Rightarrow> fc_state" where
  "fc_start senv = \<lparr>fc_eth = eth_start, fc_gps = gps_start, fc_arm = fst (arm_init senv arm_static),
     fc_est = state_init est_static, fc_rc = fst (rollcontrol_init senv rc_static), fc_rs = 0,
     fc_log = log_static\<rparr>"

end
