(* ===== verification/Fc_Main_Proofs.thy ===== *)
theory Fc_Main_Proofs
  imports Fc_Main Ethmux_Proofs Gps_Stream Arm_Proofs State_Proofs Rollcontrol_Properties Logger_Properties
begin

text \<open>
  The modules together: what each promises of its messages is what the receivers that \<open>main.miml\<close>
  connects them to rely on, so no receiver faults and every invariant holds along a run.
\<close>

section \<open>The contracts of the servo driver and the logger\<close>

definition servo_bytes :: "bytes \<Rightarrow> bool" where
  "servo_bytes bs \<longleftrightarrow> (\<exists>n t d. bs = be32 n @ be16 (word_of_int t) @ [d] \<and>
     18481 \<le> t \<and> t \<le> 31923 \<and> (d = 0 \<or> d = 1))"

text \<open>What the program may write: servo packets within the travel, datagrams that fit the link.\<close>

fun external_ok :: "action \<Rightarrow> bool" where
  "external_ok (Send m) \<longleftrightarrow> False"
| "external_ok (Write RollServoSocket bs) \<longleftrightarrow> servo_bytes bs"
| "external_ok (Write LogSocket bs) \<longleftrightarrow> length bs \<le> 1432"
| "external_ok (Write _ bs) \<longleftrightarrow> True"

lemma rs_receive_adj_promised:
  assumes "servo_message_ok m"
  shows "\<exists>n' bs. rs_receive_adj n m = Some (n', [Write RollServoSocket bs]) \<and> servo_bytes bs"
proof -
  obtain a where a: "double_of_bits (angle m) = Some a" "-15 \<le> a" "a \<le> 15"
    using assms by (auto simp: servo_message_ok_def)
  from raw_ticks_range [OF a(2,3)] have r: "-1 < raw_ticks a" "raw_ticks a < 65536" by simp_all
  have "servo_bytes (servo_packet n (ticks_of a) (disable m))"
    using assms ticks_of_range unfolding servo_bytes_def servo_packet_def servo_message_ok_def by blast
  with rs_receive_adj_eq [OF a(1) r] show ?thesis by blast
qed

interpretation rs: component rs_receive_adj "\<lambda>_. True" servo_message_ok external_ok
proof unfold_locales
  fix s m assume "servo_message_ok m"
  from rs_receive_adj_promised [OF this]
  show "\<exists>s' os. rs_receive_adj s m = Some (s', os) \<and> True \<and> (\<forall>x\<in>set os. external_ok x)"
    by fastforce
qed

definition log_inv :: "log_state \<Rightarrow> bool" where
  "log_inv s \<longleftrightarrow> (\<exists>xs. holds s xs)"

lemma log_inv_static: "log_inv log_static"
proof -
  have "log_static\<lparr>sequence := 0\<rparr> = log_static" by (simp add: log_static_def)
  then show ?thesis using holds_static [of 0] by (auto simp: log_inv_def)
qed

text \<open>The logger writes to the file and to the ground, and datagrams that fit the link.\<close>

fun log_allowed :: "action \<Rightarrow> bool" where
  "log_allowed (Write LogFile bs) \<longleftrightarrow> True"
| "log_allowed (Write LogSocket bs) \<longleftrightarrow> length bs \<le> 1432"
| "log_allowed _ \<longleftrightarrow> False"

lemma log_allowed_external: "log_allowed x \<Longrightarrow> external_ok x"
  by (cases x rule: log_allowed.cases) auto

lemma group_out_promised:
  "\<forall>g\<in>set gs. ok_group g \<Longrightarrow> x \<in> set (group_out n gs) \<Longrightarrow> log_allowed x"
  by (induction n gs rule: group_out.induct) (auto simp: ok_group_def P_LIMIT_def)

interpretation logger: component "log_step clk" log_inv log_admissible log_allowed for clk
proof unfold_locales
  fix s e assume "log_inv s" and e: "log_admissible e"
  then obtain xs where h: "holds s xs" by (auto simp: log_inv_def)
  obtain s' gs ys xs' where "log_step clk s e = Some (s', group_out (sequence s) gs)"
    "advances s xs gs ys s' xs'"
    using log_step_ok [OF h e, of clk] by blast
  then show "\<exists>s' os. log_step clk s e = Some (s', os) \<and> log_inv s' \<and> (\<forall>x\<in>set os. log_allowed x)"
    using group_out_promised by (auto simp: advances_def log_inv_def)
qed

section \<open>The invariant of the system\<close>

definition fc_inv :: "fc_state \<Rightarrow> bool" where
  "fc_inv s \<longleftrightarrow> eth_inv (fc_eth s) \<and> gps_inv (fc_gps s) \<and> arm_inv (fc_arm s) \<and> est_inv (fc_est s) \<and>
     rc_inv (fc_rc s) \<and> log_inv (fc_log s)"

lemma fc_inv_start: "fc_inv (fc_start senv)"
  by (simp add: fc_inv_def fc_start_def eth_inv_start gps_inv_start est_inv_init rc_inv_init
      log_inv_static arm_init_spec)
    (simp add: arm_inv_def arm_spec_def trailing_def)

text \<open>Two states that differ only where senders of lower rank reach.\<close>

definition same :: "fc_state \<Rightarrow> fc_state \<Rightarrow> bool" where
  "same s t \<longleftrightarrow> fc_eth t = fc_eth s \<and> fc_gps t = fc_gps s \<and> fc_est t = fc_est s"

lemma same_refl [simp]: "same s s" by (simp add: same_def)

lemma same_trans: "same s t \<Longrightarrow> same t u \<Longrightarrow> same s u" by (simp add: same_def)

lemma same_updates [simp]:
  "same s (t\<lparr>fc_log := l\<rparr>) = same s t" "same s (t\<lparr>fc_rs := n\<rparr>) = same s t"
  "same s (t\<lparr>fc_arm := a\<rparr>) = same s t" "same s (t\<lparr>fc_rc := r\<rparr>) = same s t"
  "same (s\<lparr>fc_log := l\<rparr>) = same s" "same (s\<lparr>fc_rs := n\<rparr>) = same s"
  "same (s\<lparr>fc_arm := a\<rparr>) = same s" "same (s\<lparr>fc_rc := r\<rparr>) = same s"
  by (simp_all add: same_def fun_eq_iff)

text \<open>An outcome without a fault, that keeps the invariant and writes only what is allowed.\<close>

definition fine :: "(fc_state \<Rightarrow> bool) \<Rightarrow> outcome \<Rightarrow> bool" where
  "fine Q r \<longleftrightarrow> (\<exists>s out. r = Inr (s, out) \<and> fc_inv s \<and> (\<forall>x\<in>set out. external_ok x) \<and> Q s)"

lemma fine_done: "fc_inv s \<Longrightarrow> Q s \<Longrightarrow> fine Q (Inr (s, []))"
  by (simp add: fine_def)

lemma fine_followed:
  assumes "fine P r" and "\<And>s. fc_inv s \<Longrightarrow> P s \<Longrightarrow> fine Q (k s)"
  shows "fine Q (followed_by r k)"
proof -
  obtain s out where 1: "r = Inr (s, out)" "fc_inv s" "\<forall>x\<in>set out. external_ok x" "P s"
    using assms(1) by (auto simp: fine_def)
  obtain t out' where "k s = Inr (t, out')" "fc_inv t" "\<forall>x\<in>set out'. external_ok x" "Q t"
    using assms(2) [OF 1(2,4)] by (auto simp: fine_def)
  with 1 show ?thesis by (auto simp: fine_def)
qed

lemma fine_call:
  assumes "receive env r m s = Some (s1, acts, m1)"
    and "fine P (perform n env acts s1)"
    and "\<And>s2. fc_inv s2 \<Longrightarrow> P s2 \<Longrightarrow> fine Q (call_receivers n env rs m1 s2)"
  shows "fine Q (call_receivers n env (r # rs) m s)"
  using assms(1) fine_followed [OF assms(2,3)] by simp

lemma fine_perform:
  assumes "fc_inv s" and "\<forall>x\<in>set acts. (\<exists>m. x = Send m) \<or> external_ok x"
    and "\<And>m t. Send m \<in> set acts \<Longrightarrow> fc_inv t \<Longrightarrow> same s t \<Longrightarrow>
      fine (same t) (call_receivers n env (glue env m) m t)"
  shows "fine (same s) (perform (Suc n) env acts s)"
  using assms
proof (induction acts arbitrary: s)
  case Nil
  then show ?case by (simp add: fine_done)
next
  case (Cons x acts)
  have rest: "fine (same s) (perform (Suc n) env acts t)" if t: "fc_inv t" "same s t" for t
  proof -
    have "fine (same t) (perform (Suc n) env acts t)"
      using Cons.prems(2,3) same_trans [OF t(2)] by (intro Cons.IH [OF t(1)]) auto
    then show ?thesis using same_trans [OF t(2)] by (auto simp: fine_def)
  qed
  show ?case
  proof (cases x)
    case (Send m)
    with Cons.prems have "fine (same s) (call_receivers n env (glue env m) m s)" by simp
    with Send rest show ?thesis by (simp add: fine_followed [where P = "same s"])
  next
    case (Write c bs)
    with Cons.prems(1,2) have "fine (same s) (Inr (s, [x]))" by (simp add: fine_def)
    with Write rest show ?thesis by (auto intro: fine_followed simp del: followed_by.simps)
  qed
qed

lemma fine_writes:
  assumes "fc_inv s" and "\<forall>x\<in>set acts. external_ok x"
  shows "fine (same s) (perform n env acts s)"
  using assms
proof (induction acts arbitrary: s)
  case Nil
  then show ?case by (simp add: fine_done)
next
  case (Cons x acts)
  then obtain c bs where x: "x = Write c bs" by (cases x) auto
  with Cons.prems have "fine (\<lambda>t. t = s) (Inr (s, [x]))" by (simp add: fine_def)
  with Cons x show ?case by (auto intro: fine_followed simp del: followed_by.simps)
qed

lemma fine_nothing: "fc_inv t \<Longrightarrow> same s t \<Longrightarrow> fine (same s) (call_receivers n env [] m t)"
  by (simp add: fine_done)

declare call_receivers.simps [simp del] perform.simps [simp del]

section \<open>Receivers that send nothing\<close>

text \<open>A step of the logger inside the system.\<close>

lemma fine_log:
  assumes inv: "fc_inv s" and adm: "log_admissible e"
    and eq: "\<And>l out. log_step (logger_clock env) (fc_log s) e = Some (l, out) \<Longrightarrow>
      \<exists>m'. receive env r m s = Some (s\<lparr>fc_log := l\<rparr>, out, m') \<and> P m'"
    and rest: "\<And>t m'. fc_inv t \<Longrightarrow> same s t \<Longrightarrow> P m' \<Longrightarrow> fine Q (call_receivers n env rs m' t)"
  shows "fine Q (call_receivers n env (r # rs) m s)"
proof -
  have "log_inv (fc_log s)" using inv by (simp add: fc_inv_def)
  from logger.step_ok [OF this adm] obtain l out
    where l: "log_step (logger_clock env) (fc_log s) e = Some (l, out)" "log_inv l"
      "\<forall>x\<in>set out. external_ok x" using log_allowed_external by blast
  obtain m' where m': "receive env r m s = Some (s\<lparr>fc_log := l\<rparr>, out, m')" "P m'"
    using eq [OF l(1)] by blast
  have i: "fc_inv (s\<lparr>fc_log := l\<rparr>)" using inv l(2) by (simp add: fc_inv_def)
  show ?thesis
    using fine_writes [OF i l(3)] rest m'(2)
    by (intro fine_call [OF m'(1), where P = "same s"]) auto
qed

lemma fine_log_write:
  assumes "fc_inv s" and "packet_args m = Some p" and "log_admissible (LogGround p)"
    and "\<And>t. fc_inv t \<Longrightarrow> same s t \<Longrightarrow> fine Q (call_receivers n env rs m t)"
  shows "fine Q (call_receivers n env (LOG_log_write # rs) m s)"
  by (rule fine_log [OF assms(1,3), where P = "\<lambda>m'. m' = m"]) (use assms(2,4) in auto)

lemma fine_log_write_disk_only:
  assumes "fc_inv s" and "packet_args m = Some p" and "log_admissible (LogDiskOnly p)"
    and "\<And>t. fc_inv t \<Longrightarrow> same s t \<Longrightarrow> fine Q (call_receivers n env rs m t)"
  shows "fine Q (call_receivers n env (LOG_log_write_disk_only # rs) m s)"
  by (rule fine_log [OF assms(1,3), where P = "\<lambda>m'. m' = m"]) (use assms(2,4) in auto)


section \<open>The chains of senders\<close>

lemma fine_servo:
  assumes inv: "fc_inv s" and m: "servo_message_ok m"
  shows "fine (same s) (call_receivers n env (connections (rc_send_servo m)) (rc_send_servo m) s)"
proof -
  obtain k bs where 1: "rs_receive_adj (fc_rs s) m = Some (k, [Write RollServoSocket bs])" "servo_bytes bs"
    using rs_receive_adj_promised [OF m] by blast
  let ?s = "s\<lparr>fc_rs := k\<rparr>"
  have i: "fc_inv ?s" using inv by (simp add: fc_inv_def)
  have a: "log_admissible (LogRC m)" using m by (simp add: servo_message_ok_def)
  have l: "fine (same s) (call_receivers n env [LOG_log_receive_rc] (rc_send_servo m) t)"
    if t: "fc_inv t" "same s t" for t
    by (rule fine_log [OF t(1) a, where P = "\<lambda>_. True"])
      (use same_trans [OF t(2)] in \<open>auto simp: Option.bind_eq_Some_conv intro: fine_nothing\<close>)
  show ?thesis unfolding connections.simps
    by (rule fine_call [where P = "same s"])
      (use 1 l fine_writes [OF i, of "[Write RollServoSocket bs]"] in auto)
qed

lemma rc_allowed_cases:
  assumes "rc_allowed x"
  shows "(\<exists>m. x = Send (rc_send_servo m) \<and> servo_message_ok m) \<or> external_ok x"
  using assms by (cases x rule: rc_allowed.cases) auto

lemma fine_rc:
  assumes inv: "fc_inv s" and glue: "calls_as_listed (glue env)"
    and adm: "rc_admissible (c_exp env) e"
    and eq: "\<And>c out. rc_step (rc_clock env) (c_exp env) (fc_rc s) e = Some (c, out) \<Longrightarrow>
      receive env r m s = Some (s\<lparr>fc_rc := c\<rparr>, out, m)"
    and rest: "\<And>t. fc_inv t \<Longrightarrow> same s t \<Longrightarrow> fine Q (call_receivers (Suc n) env rs m t)"
  shows "fine Q (call_receivers (Suc n) env (r # rs) m s)"
proof -
  have "rc_inv (fc_rc s)" using inv by (simp add: fc_inv_def)
  from rc.step_ok [OF this adm, of "rc_clock env"] obtain c out
    where c: "rc_step (rc_clock env) (c_exp env) (fc_rc s) e = Some (c, out)" "rc_inv c"
      "\<forall>x\<in>set out. rc_allowed x" by blast
  let ?s = "s\<lparr>fc_rc := c\<rparr>"
  have i: "fc_inv ?s" using inv c(2) by (simp add: fc_inv_def)
  have "fine (same ?s) (perform (Suc n) env out ?s)"
  proof (rule fine_perform [OF i])
    show "\<forall>x\<in>set out. (\<exists>m. x = Send m) \<or> external_ok x" using c(3) rc_allowed_cases by blast
  next
    fix m' t assume "Send m' \<in> set out" and t: "fc_inv t"
    with c(3) obtain m where "m' = rc_send_servo m" "servo_message_ok m"
      using rc_allowed_cases by fastforce
    with fine_servo [OF t] glue show "fine (same t) (call_receivers n env (glue env m') m' t)"
      by (simp add: calls_as_listed_def)
  qed
  then show ?thesis using rest by (intro fine_call [OF eq [OF c(1)], where P = "same s"]) simp_all
qed

lemma fine_signal:
  assumes inv: "fc_inv s" and glue: "calls_as_listed (glue env)" and "sig = ''ARM'' \<or> sig = ''SAFE''"
  shows "fine (same s)
    (call_receivers (Suc n) env (connections (arm_send_signal sig)) (arm_send_signal sig) s)"
proof -
  have a: "log_admissible (LogArm sig)" using assms(3) by auto
  have l: "fine (same s) (call_receivers (Suc n) env [LOG_log_receive_arm] (arm_send_signal sig) t)"
    if t: "fc_inv t" "same s t" for t
    by (rule fine_log [OF t(1) a, where P = "\<lambda>_. True"])
      (use same_trans [OF t(2)] in \<open>auto intro: fine_nothing\<close>)
  show ?thesis unfolding connections.simps
    by (rule fine_rc [OF inv glue, of "RcArm sig"]) (use l in auto)
qed

lemma fine_estimate:
  assumes inv: "fc_inv s" and glue: "calls_as_listed (glue env)"
    and "6 \<le> length ts" and "dense (c_exp env) st"
  shows "fine (same s) (call_receivers (Suc n) env (connections (state_send_message i ts k st))
    (state_send_message i ts k st) s)"
  unfolding connections.simps
  by (rule fine_rc [OF inv glue, of "RcState i ts st"]) (use assms(3,4) in \<open>auto intro: fine_nothing\<close>)

lemma fine_filter:
  assumes inv: "fc_inv s" and glue: "calls_as_listed (glue env)" and "packet_args m = Some p"
    and w: "log_admissible (if disk_only (ID p) then LogDiskOnly p else LogGround p)"
  shows "fine (same s) (call_receivers (Suc n) env [FILTER_filter_receive] m s)"
proof -
  have "fine (same s) (perform (Suc n) env (filter_receive p) s)"
  proof (rule fine_perform [OF inv])
    show "\<forall>x\<in>set (filter_receive p). (\<exists>m. x = Send m) \<or> external_ok x"
      by (simp add: filter_receive_eq)
  next
    fix m' t assume m': "Send m' \<in> set (filter_receive p)" and t: "fc_inv t"
    show "fine (same t) (call_receivers n env (glue env m') m' t)"
    proof (cases "disk_only (ID p)")
      case False
      with w have "log_admissible (LogGround p)" by simp
      with False m' glue show ?thesis
        by (simp add: calls_as_listed_def filter_receive_eq fine_log_write [OF t] fine_nothing)
    next
      case True
      with w have "log_admissible (LogDiskOnly p)" by simp
      with True m' glue show ?thesis
        by (simp add: calls_as_listed_def filter_receive_eq fine_log_write_disk_only [OF t] fine_nothing)
    qed
  qed
  then show ?thesis using assms(3)
    by (intro fine_call [where P = "same s"]) (auto intro: fine_nothing)
qed

section \<open>The messages of the multiplexer\<close>

lemma arm_allowed_cases:
  assumes "arm_allowed x"
  shows "(\<exists>sig. x = Send (arm_send_signal sig) \<and> (sig = ''ARM'' \<or> sig = ''SAFE'')) \<or> external_ok x"
  using assms by (cases x rule: arm_allowed.cases) auto

lemma fine_arm:
  assumes inv: "fc_inv s" and glue: "calls_as_listed (glue env)" and adm: "arm_admissible e"
    and eq: "\<And>c out. arm_step (fc_arm s) e = Some (c, out) \<Longrightarrow>
      receive env r m s = Some (s\<lparr>fc_arm := c\<rparr>, out, m)"
    and rest: "\<And>t. fc_inv t \<Longrightarrow> same s t \<Longrightarrow> fine Q (call_receivers (Suc (Suc n)) env rs m t)"
  shows "fine Q (call_receivers (Suc (Suc n)) env (r # rs) m s)"
proof -
  have "arm_inv (fc_arm s)" using inv by (simp add: fc_inv_def)
  from arm.step_ok [OF this adm] obtain c out
    where c: "arm_step (fc_arm s) e = Some (c, out)" "arm_inv c" "\<forall>x\<in>set out. arm_allowed x" by blast
  let ?s = "s\<lparr>fc_arm := c\<rparr>"
  have i: "fc_inv ?s" using inv c(2) by (simp add: fc_inv_def)
  have "fine (same ?s) (perform (Suc (Suc n)) env out ?s)"
  proof (rule fine_perform [OF i])
    show "\<forall>x\<in>set out. (\<exists>m. x = Send m) \<or> external_ok x" using c(3) arm_allowed_cases by blast
  next
    fix m' t assume "Send m' \<in> set out" and t: "fc_inv t"
    with c(3) have "arm_allowed (Send m')" by blast
    from arm_allowed_cases [OF this] obtain sig
      where "m' = arm_send_signal sig" "sig = ''ARM'' \<or> sig = ''SAFE''" by auto
    with fine_signal [OF t glue, of sig] glue
    show "fine (same t) (call_receivers (Suc n) env (glue env m') m' t)"
      by (simp add: calls_as_listed_def)
  qed
  then show ?thesis using rest by (intro fine_call [OF eq [OF c(1)], where P = "same s"]) simp_all
qed

text \<open>A packet of the GPS parser: the navigation message is watched, everything is logged.\<close>

lemma fine_frame:
  assumes inv: "fc_inv s" and glue: "calls_as_listed (glue env)"
    and p: "gps_promise (gps_data_out p)" and "data_length p \<noteq> 65535"
  shows "fine (same s)
    (call_receivers (Suc n) env (connections (gps_data_out p)) (gps_data_out p) s)"
proof -
  have w: "log_admissible (if disk_only (ID p) then LogDiskOnly p else LogGround p)"
    and d: "nav_packet p \<longrightarrow> data p \<noteq> []"
    using p assms(4) by (auto simp: writable_def)
  obtain c where c: "arm_receive_gps (fc_arm s) p = Some (c, [])" "arm_inv c"
    using arm_receive_gps [of p "fc_arm s"] d inv by (auto simp: fc_inv_def arm_inv_def)
  let ?s = "s\<lparr>fc_arm := c\<rparr>"
  have i: "fc_inv ?s" using inv c(2) by (simp add: fc_inv_def)
  have "fine (same s) (call_receivers (Suc n) env [FILTER_filter_receive] (gps_data_out p) t)"
    if t: "fc_inv t" "same s t" for t
    using fine_filter [OF t(1) glue _ w, of "gps_data_out p" n] same_trans [OF t(2)]
    by (auto simp: fine_def)
  then show ?thesis unfolding connections.simps
    by (rule fine_call [where P = "same s", rotated 2])
      (use c(1) fine_writes [OF i, of "[]" "Suc n" env] in simp_all)
qed

lemma fine_chunk:
  assumes inv: "fc_inv s" and glue: "calls_as_listed (glue env)" and p: "accepted p"
    and g: "cots_raw_in (fc_gps s) p = Some (g, out)"
    and frames: "\<And>q. Send (gps_data_out q) \<in> set out \<Longrightarrow> data_length q \<noteq> 65535"
  shows "fine (same (s\<lparr>fc_gps := g\<rparr>))
    (call_receivers (Suc (Suc n)) env (connections (demuxed_COTS p)) (demuxed_COTS p) s)"
proof -
  have "gps_inv (fc_gps s)" using inv by (simp add: fc_inv_def)
  from gps.step_ok [OF this p] g have 1: "gps_inv g" "\<forall>x\<in>set out. promised gps_promise x" by auto
  let ?s = "s\<lparr>fc_gps := g\<rparr>"
  have i: "fc_inv ?s" using inv 1(1) by (simp add: fc_inv_def)
  have "fine (same ?s) (perform (Suc (Suc n)) env out ?s)"
  proof (rule fine_perform [OF i])
    show "\<forall>x\<in>set out. (\<exists>m. x = Send m) \<or> external_ok x"
      using 1(2) by (metis action.exhaust promised.simps(2))
  next
    fix m' t assume m': "Send m' \<in> set out" and t: "fc_inv t"
    with 1(2) have "gps_promise m'" by force
    then obtain q where q: "m' = gps_data_out q" by (cases m') auto
    with \<open>gps_promise m'\<close> frames m' fine_frame [OF t glue, of q n] glue
    show "fine (same t) (call_receivers (Suc n) env (glue env m') m' t)"
      by (simp add: calls_as_listed_def)
  qed
  then show ?thesis using g unfolding connections.simps
    by (intro fine_call [where P = "same ?s"]) (auto intro: fine_nothing)
qed

lemma fine_sample:
  assumes inv: "fc_inv s" and glue: "calls_as_listed (glue env)" and p: "packet_shape ''ADIS'' 24 p"
    and e: "state_receive_imu (fc_est s) p = Some (e, out)"
    and estimates: "\<And>i ts k st. Send (state_send_message i ts k st) \<in> set out \<Longrightarrow> dense (c_exp env) st"
  shows "fine (same (s\<lparr>fc_est := e\<rparr>))
    (call_receivers (Suc (Suc n)) env (connections (demuxed_ADIS p)) (demuxed_ADIS p) s)"
proof -
  have imu: "imu_ok p" and w: "log_admissible (LogGround p)" and a: "arm_admissible (ArmImu p)"
    using p by (simp_all add: packet_shape_def imu_ok_def writable_def ETH_MTU_def)
  have last: "fine (same (s\<lparr>fc_est := e\<rparr>))
      (call_receivers (Suc (Suc n)) env [STATE_state_receive_imu] (demuxed_ADIS p) t)"
    if t: "fc_inv t" "same s t" for t
  proof -
    have et: "fc_est t = fc_est s" using t(2) by (simp add: same_def)
    have "est_inv (fc_est s)" using t et by (simp add: fc_inv_def)
    from est.step_ok [OF this imu] e have 1: "est_inv e" "\<forall>x\<in>set out. promised est_promise x" by auto
    let ?t = "t\<lparr>fc_est := e\<rparr>"
    have i: "fc_inv ?t" using t(1) 1(1) by (simp add: fc_inv_def)
    have "fine (same ?t) (perform (Suc (Suc n)) env out ?t)"
    proof (rule fine_perform [OF i])
      show "\<forall>x\<in>set out. (\<exists>m. x = Send m) \<or> external_ok x"
        using 1(2) by (metis action.exhaust promised.simps(2))
    next
      fix m' u assume m': "Send m' \<in> set out" and u: "fc_inv u"
      with 1(2) have "est_promise m'" by force
      then obtain i ts k st where m: "m' = state_send_message i ts k st" "6 \<le> length ts"
        by (cases m') auto
      with estimates m' fine_estimate [OF u glue, of ts st n i k] glue
      show "fine (same u) (call_receivers (Suc n) env (glue env m') m' u)"
        by (simp add: calls_as_listed_def)
    qed
    moreover have "same (s\<lparr>fc_est := e\<rparr>) = same ?t" using t(2) by (simp add: same_def fun_eq_iff)
    ultimately show ?thesis using e et by (intro fine_call [where P = "same ?t"]) (auto intro: fine_nothing)
  qed
  show ?thesis unfolding connections.simps
  proof (rule fine_log_write [OF inv _ w])
    fix t assume t: "fc_inv t" "same s t"
    show "fine (same (s\<lparr>fc_est := e\<rparr>)) (call_receivers (Suc (Suc n)) env
        [ARM_arm_receive_imu, STATE_state_receive_imu] (demuxed_ADIS p) t)"
      by (rule fine_arm [OF t(1) glue a]) (use last same_trans [OF t(2)] in auto)
  qed simp
qed

lemma packet_log_admissible:
  assumes "packet_shape i n p" and "length i = 4" and "n \<le> 1416"
  shows "log_admissible (LogGround p)"
  using assms by (auto simp: packet_shape_def writable_def ETH_MTU_def)

text \<open>The remaining messages need no condition beyond what the multiplexer promises.\<close>

fun plain :: "message \<Rightarrow> bool" where
  "plain (demuxed_ADIS p) = False"
| "plain (demuxed_COTS p) = False"
| "plain m = True"

lemma fine_logged:
  assumes "fc_inv s" and "packet_args m = Some p" and "log_admissible (LogGround p)"
  shows "fine (same s) (call_receivers n env [LOG_log_write] m s)"
  by (rule fine_log_write [OF assms]) (rule fine_nothing)

lemma fine_plain:
  assumes inv: "fc_inv s" and glue: "calls_as_listed (glue env)" and m: "eth_promise m" "plain m"
  shows "fine (same s) (call_receivers (Suc (Suc n)) env (connections m) m s)"
proof (cases m)
  case (demuxed_ARM buffer len ts)
  then have "arm_admissible (ArmRaw buffer len)" using m by (simp add: raw_shape_def)
  with demuxed_ARM show ?thesis
    by (auto intro!: fine_arm [OF inv glue, of "ArmRaw buffer len"] intro: fine_nothing)
next
  case (demuxed_RC buffer len ts)
  then have "rc_admissible (c_exp env) (RcTest buffer len)" using m by (simp add: raw_shape_def)
  with demuxed_RC show ?thesis
    by (auto intro!: fine_rc [OF inv glue, of "RcTest buffer len"] intro: fine_nothing)
next
  case (demuxed_RNHUMB p)
  then have p: "packet_shape ''RNHU'' 1 p" using m by simp
  then have "rc_admissible (c_exp env) (RcUmb p)" by (auto simp: packet_shape_def ETH_MTU_def)
  moreover have w: "log_admissible (LogGround p)" using packet_log_admissible [OF p] by simp
  have "fine (same s) (call_receivers (Suc (Suc n)) env [LOG_log_write] m t)"
    if "fc_inv t" "same s t" for t
    using fine_logged [OF that(1) _ w, of m "Suc (Suc n)" env] same_trans [OF that(2)] demuxed_RNHUMB
    by (auto simp: fine_def)
  ultimately show ?thesis using demuxed_RNHUMB
    by (auto intro!: fine_rc [OF inv glue, of "RcUmb p"])
next
  case (demuxed_JGPS p)
  then obtain k where "k \<le> 1496" and p: "packet_shape ''JGPS'' k p" using m by (auto simp: ETH_MTU_def)
  then have "disk_only (ID p)" "log_admissible (LogDiskOnly p)"
    by (auto simp: packet_shape_def writable_def ETH_MTU_def disk_only_def)
  with demuxed_JGPS fine_filter [OF inv glue, of m p "Suc n"] show ?thesis by simp
qed (use m fine_logged [OF inv] packet_log_admissible in \<open>fastforce simp: writable_def\<close>)+

text \<open>Surroundings for the witnesses: the senders of \<open>main.miml\<close>, clocks at zero, constant air.\<close>

definition plain_env :: fc_env where
  "plain_env = \<lparr>glue = connections, c_exp = (\<lambda>_. 1), start_time = \<lparr>tv_sec = 0, tv_nsec = 0\<rparr>,
     rc_readings = (\<lambda>_. \<lparr>tv_sec = 0, tv_nsec = 0\<rparr>), log_readings = (\<lambda>_. \<lparr>tv_sec = 0, tv_nsec = 0\<rparr>)\<rparr>"

lemma plain_env_glue: "calls_as_listed (glue plain_env)"
  by (simp add: plain_env_def calls_as_listed_def)

lemma plain_env_exp [simp]: "c_exp plain_env = (\<lambda>_. 1)"
  by (simp add: plain_env_def)

end
