(* ===== verification/Fc_Sends.thy ===== *)
theory Fc_Sends
  imports Fc_Main_Proofs
begin

text \<open>
  What each receiver can do at all, whatever its arguments and state: which messages it can send and
  where it can write.
\<close>

section \<open>Actions of the results of operations\<close>

definition only :: "('o \<Rightarrow> bool) \<Rightarrow> ('a \<times> 'o list) option \<Rightarrow> bool" where
  "only P r \<longleftrightarrow> (\<forall>e out. r = Some (e, out) \<longrightarrow> list_all P out)"

lemma onlyD: "only P r \<Longrightarrow> r = Some (e, out) \<Longrightarrow> list_all P out"
  by (simp add: only_def)

text \<open>The predicate is followed along the structure of a definition.\<close>

lemma only_intros:
  "list_all P out \<Longrightarrow> only P (Some (e, out))"
  "only P None"
  "only P x \<Longrightarrow> only P y \<Longrightarrow> only P (if q then x else y)"
  "(\<And>z. only P (f z)) \<Longrightarrow> only P (r \<bind> f)"
  "only P x \<Longrightarrow> (\<And>z. only P (f z)) \<Longrightarrow> only P (case o' of None \<Rightarrow> x | Some z \<Rightarrow> f z)"
  by (auto simp: only_def Option.bind_eq_Some_conv split: option.splits)

lemma only_bind:
  assumes "only P r" and "\<And>e out. list_all P out \<Longrightarrow> only P (f (e, out))"
  shows "only P (r \<bind> f)"
  using assms by (cases r) (auto simp: only_def)

lemma only_pair:
  "list_all P (snd p) \<Longrightarrow> (\<And>e out. list_all P out \<Longrightarrow> only P (f e out)) \<Longrightarrow>
    only P (case p of (e, out) \<Rightarrow> f e out)"
  by (cases p) simp

section \<open>The operations\<close>

fun to_log :: "action \<Rightarrow> bool" where
  "to_log (Write c bs) \<longleftrightarrow> c = LogFile \<or> c = LogSocket"
| "to_log (Send m) \<longleftrightarrow> False"

lemma flush_log_acts: "list_all to_log (snd (flush_log clk s))"
  by (simp add: flush_log_def Let_def)

lemma ensure_acts:
  "list_all to_log (snd (ensure_disk_log_space clk k s))"
  "list_all to_log (snd (ensure_net_log_space clk k s))"
  by (auto simp: ensure_net_log_space_def ensure_disk_log_space_def Let_def case_prod_unfold
      flush_log_acts)

lemma log_write_disk_only_acts: "only to_log (log_write_disk_only clk s i ts k dat)"
  unfolding log_write_disk_only_def Let_def
  by (intro only_pair only_intros ensure_acts)

lemma log_write_acts: "only to_log (log_write clk s i ts k dat)"
  unfolding log_write_def Let_def
  by (intro only_pair ensure_acts only_bind [OF log_write_disk_only_acts])
    (auto intro!: only_intros)

lemma log_receive_acts:
  "only to_log (log_receive_arm clk s code)" "only to_log (log_receive_rnh_version clk s b len)"
  "log_receive_rc clk s m = Some (l, out, m') \<Longrightarrow> list_all to_log out"
  unfolding log_receive_arm_def log_receive_rnh_version_def log_receive_rc_def Let_def
  using log_write_acts
  by (auto simp: only_def Option.bind_eq_Some_conv)

text \<open>Identifiers of packets, in contrast to those that the logger makes up.\<close>

definition data_ID :: "string \<Rightarrow> bool" where
  "data_ID i \<longleftrightarrow> 4 \<le> length i \<and> take 4 i \<notin> {''SEQN'', ''MESG'', ''ROLL'', ''VERS''}"

lemma data_ID_venus [simp]: "data_ID (venus_ID b)"
  by (simp add: data_ID_def venus_ID_def)

fun sends_gps :: "action \<Rightarrow> bool" where
  "sends_gps (Send (gps_data_out p)) \<longleftrightarrow> data_ID (ID p)"
| "sends_gps _ \<longleftrightarrow> False"

lemma venus_loop_acts: "only sends_gps (venus_loop ts b c start)"
proof (induction "c - start" arbitrary: start rule: less_induct)
  case less
  have last: "only sends_gps (r \<bind> (\<lambda>(e, outs). Some (e, Send (gps_data_out p) # outs)))"
    if "data_ID (ID p)" and "only sends_gps r" for r :: "(loop_end \<times> action list) option" and p
    using that by (intro only_bind) (simp_all add: only_def)
  show ?case
  proof (cases "start < c")
    case False
    then show ?thesis by (simp add: venus_loop.simps [of ts b c start] only_def)
  next
    case True
    have IH: "only sends_gps (venus_loop ts b c (start + off + k))" if "0 < k" for off k
      using that True by (intro less.hyps) simp
    show ?thesis
      unfolding venus_loop.simps [of ts b c start] if_P [OF True] Let_def
      by (intro last only_intros IH IH [of "_ + _", unfolded add.assoc [symmetric]]) simp_all
  qed
qed

lemma cots_raw_in_acts: "only sends_gps (cots_raw_in g p)"
proof -
  have "only sends_gps (send_venus_messages ts h)" for ts h
    unfolding send_venus_messages_def
    by (rule only_bind [OF venus_loop_acts])
      (auto intro!: only_intros simp: Let_def split: loop_end.split)
  then show ?thesis unfolding cots_raw_in_def Let_def by (intro only_intros)
qed

fun arm_acts :: "action \<Rightarrow> bool" where
  "arm_acts (Send (arm_send_signal sig)) \<longleftrightarrow> sig = ''ARM'' \<or> sig = ''SAFE''"
| "arm_acts (Send _) \<longleftrightarrow> False"
| "arm_acts (Write c bs) \<longleftrightarrow> c = ArmSocket"

lemma arm_operations_acts:
  "only arm_acts (arm_raw_in a buffer len)" "only (\<lambda>_. False) (arm_receive_imu a p)"
  "only (\<lambda>_. False) (arm_receive_gps a p)"
  unfolding arm_raw_in_def arm_receive_imu_def arm_receive_gps_def send_arm_response_def Let_def
  by (intro only_intros; simp)+

fun sends_state :: "action \<Rightarrow> bool" where
  "sends_state (Send (state_send_message i ts k st)) \<longleftrightarrow> True"
| "sends_state _ \<longleftrightarrow> False"

lemma state_receive_imu_acts: "only sends_state (state_receive_imu e p)"
  unfolding state_receive_imu_def Let_def by (intro only_intros) simp

fun to_filters :: "action \<Rightarrow> bool" where
  "to_filters (Send (filter_to_ground p)) \<longleftrightarrow> True"
| "to_filters (Send (filter_to_disk p)) \<longleftrightarrow> True"
| "to_filters _ \<longleftrightarrow> False"

lemma filter_receive_acts: "list_all to_filters (filter_receive p)"
  by (simp add: filter_receive_eq)

definition roll_shape :: "ROLLMessage \<Rightarrow> bool" where
  "roll_shape m \<longleftrightarrow> roll_ID m = ''ROLL'' \<and> length (roll_timestamp m) = 6 \<and> roll_data_length m = 9"

lemma roll_shape_message [simp]: "roll_shape (roll_message clk k d dis)"
  by (simp add: roll_shape_def roll_message_def)

fun rc_acts :: "action \<Rightarrow> bool" where
  "rc_acts (Send (rc_send_servo m)) \<longleftrightarrow> roll_shape m"
| "rc_acts (Send _) \<longleftrightarrow> False"
| "rc_acts (Write c bs) \<longleftrightarrow> c = ServoEnableSocket"

lemma check_timeout_acts: "only rc_acts (check_timeout clk ts c)"
  unfolding check_timeout_def set_canard_angle_eq
  by (intro only_intros) simp_all

lemma rc_operations_acts:
  "only rc_acts (rc_receive_state clk cexp c i ts st)" "list_all rc_acts (snd (rc_receive_arm clk c code))"
  "only (\<lambda>_. False) (rc_raw_umb c p)" "only rc_acts (rc_raw_testrc clk c buffer len)"
proof -
  show "only rc_acts (rc_receive_state clk cexp c i ts st)"
    unfolding rc_receive_state_def Let_def
    by (intro only_bind [OF check_timeout_acts])
      (auto intro!: only_intros only_pair simp: set_canard_angle_eq)
  show "list_all rc_acts (snd (rc_receive_arm clk c code))"
    by (simp add: rc_receive_arm_eq)
  show "only (\<lambda>_. False) (rc_raw_umb c p)"
    unfolding rc_raw_umb_def by (auto intro!: only_intros)
  show "only rc_acts (rc_raw_testrc clk c buffer len)"
    unfolding rc_raw_testrc_def send_servo_response_def set_canard_angle_eq
    by (auto intro!: only_intros only_pair)
qed

fun to_servo :: "action \<Rightarrow> bool" where
  "to_servo (Write c bs) \<longleftrightarrow> c = RollServoSocket"
| "to_servo (Send m) \<longleftrightarrow> False"

lemma rs_receive_adj_acts: "only to_servo (rs_receive_adj k roll)"
  unfolding rs_receive_adj_def Let_def by (intro only_intros) simp

section \<open>The receivers\<close>

fun can :: "receiver \<Rightarrow> action \<Rightarrow> bool" where
  "can FILTER_filter_receive = to_filters"
| "can GPS_cots_raw_in = sends_gps"
| "can ARM_arm_raw_in = arm_acts"
| "can ARM_arm_receive_imu = (\<lambda>_. False)"
| "can ARM_arm_receive_gps = (\<lambda>_. False)"
| "can RC_rc_receive_state = rc_acts"
| "can RC_rc_receive_arm = rc_acts"
| "can RC_rc_raw_umb = (\<lambda>_. False)"
| "can RC_rc_raw_testrc = rc_acts"
| "can RS_rs_receive_adj = to_servo"
| "can STATE_state_receive_imu = sends_state"
| "can _ = to_log"

lemmas operations_acts = onlyD [OF log_write_acts] onlyD [OF log_write_disk_only_acts]
  onlyD [OF log_receive_acts(1)] onlyD [OF log_receive_acts(2)] log_receive_acts(3)
  filter_receive_acts onlyD [OF cots_raw_in_acts]
  onlyD [OF arm_operations_acts(1)] onlyD [OF arm_operations_acts(2)]
  onlyD [OF arm_operations_acts(3)] onlyD [OF state_receive_imu_acts]
  onlyD [OF rc_operations_acts(1)] rc_operations_acts(2) onlyD [OF rc_operations_acts(3)]
  onlyD [OF rc_operations_acts(4)] onlyD [OF rs_receive_adj_acts]

lemma receive_can:
  assumes "receive env r m s = Some (t, acts, m')"
  shows "list_all (can r) acts"
  using assms
  by (cases r) (auto simp: Option.bind_eq_Some_conv case_prod_unfold Let_def
    intro: operations_acts split: message.split_asm)

text \<open>Only the content of a servo command can change on the way through its receivers.\<close>

lemma receive_message:
  assumes "receive env r m s = Some (t, acts, m')"
  shows "m' = m \<or> (\<exists>x y. m = rc_send_servo x \<and> m' = rc_send_servo y)"
  using assms
  by (cases r) (auto simp: Option.bind_eq_Some_conv case_prod_unfold Let_def split: message.split_asm)

lemma receive_connections:
  "receive env r m s = Some (t, acts, m') \<Longrightarrow> connections m' = connections m"
  using receive_message [of env r m s t acts m'] by auto

text \<open>A receiver of another module leaves the state of roll control alone.\<close>

lemma receive_rc:
  assumes "receive env r m s = Some (t, acts, m')"
    and "r \<notin> {RC_rc_receive_state, RC_rc_receive_arm, RC_rc_raw_umb, RC_rc_raw_testrc}"
  shows "fc_rc t = fc_rc s"
  using assms
  by (cases r) (auto simp: Option.bind_eq_Some_conv case_prod_unfold Let_def split: message.split_asm)

section \<open>Dispatch, equation by equation\<close>

lemma perform_writes_only:
  assumes "list_all (\<lambda>x. \<exists>c bs. x = Write c bs) acts"
  shows "perform n env acts s = Inr (s, acts)"
  using assms
proof (induction acts)
  case (Cons x acts)
  then show ?case by (auto simp: perform.simps)
qed (simp add: perform.simps)

lemma perform_to_log: "list_all to_log acts \<Longrightarrow> perform n env acts s = Inr (s, acts)"
  by (rule perform_writes_only) (auto simp: list_all_iff elim!: to_log.elims)

lemma followed_by_Inr:
  "followed_by r k = Inr (u, out) \<longleftrightarrow>
    (\<exists>t out1 out2. r = Inr (t, out1) \<and> k t = Inr (u, out2) \<and> out = out1 @ out2)"
  by (cases r) (auto split: sum.splits)

lemma settle_Some: "settle env s acts = Some (t, out) \<longleftrightarrow> perform NESTING env acts s = Inr (t, out)"
  by (auto simp: settle_def split: sum.splits)

end
