(* ===== verification/Fc_Runs.thy ===== *)
theory Fc_Runs
  imports Fc_Main_Proofs
begin

text \<open>
  Runs of the main loop: from what the multiplexer, the GPS parser and the state estimation do on
  their own it follows that a run of the whole program has no fault.
\<close>

section \<open>Runs of the main loop\<close>

text \<open>What the multiplexer hands to the GPS parser and to the state estimation.\<close>

definition cots_packets :: "action list \<Rightarrow> packet list" where
  "cots_packets acts = concat (map (\<lambda>x. case x of Send (demuxed_COTS p) \<Rightarrow> [p] | _ \<Rightarrow> []) acts)"

definition imu_packets :: "action list \<Rightarrow> packet list" where
  "imu_packets acts = concat (map (\<lambda>x. case x of Send (demuxed_ADIS p) \<Rightarrow> [p] | _ \<Rightarrow> []) acts)"

lemma packets_simps [simp]:
  "cots_packets [] = []" "imu_packets [] = []"
  "cots_packets (Send (demuxed_COTS p) # acts) = p # cots_packets acts"
  "imu_packets (Send (demuxed_COTS p) # acts) = imu_packets acts"
  "cots_packets (Send (demuxed_ADIS p) # acts) = cots_packets acts"
  "imu_packets (Send (demuxed_ADIS p) # acts) = p # imu_packets acts"
  "cots_packets (xs @ ys) = cots_packets xs @ cots_packets ys"
  "imu_packets (xs @ ys) = imu_packets xs @ imu_packets ys"
  by (simp_all add: cots_packets_def imu_packets_def)

lemma packets_plain:
  "plain m \<Longrightarrow> cots_packets (Send m # acts) = cots_packets acts"
  "plain m \<Longrightarrow> imu_packets (Send m # acts) = imu_packets acts"
  by (cases m; simp add: cots_packets_def imu_packets_def)+

text \<open>The frames of a stream have lengths, and the estimates densities, that the receivers accept.\<close>

definition frames_ok :: "action list \<Rightarrow> bool" where
  "frames_ok out \<longleftrightarrow> (\<forall>q. Send (gps_data_out q) \<in> set out \<longrightarrow> data_length q \<noteq> 65535)"

definition estimates_ok :: "(rat \<Rightarrow> rat) \<Rightarrow> action list \<Rightarrow> bool" where
  "estimates_ok cexp out \<longleftrightarrow>
     (\<forall>i ts k st. Send (state_send_message i ts k st) \<in> set out \<longrightarrow> dense cexp st)"

lemma frames_ok_append [simp]: "frames_ok (xs @ ys) \<longleftrightarrow> frames_ok xs \<and> frames_ok ys"
  by (auto simp: frames_ok_def)

lemma estimates_ok_append [simp]:
  "estimates_ok c (xs @ ys) \<longleftrightarrow> estimates_ok c xs \<and> estimates_ok c ys"
  by (auto simp: estimates_ok_def)

text \<open>One step of a run that succeeds.\<close>

lemma run_Cons_Some:
  "run step s (e # es) = Some (u, out) \<longleftrightarrow>
    (\<exists>t os os'. step s e = Some (t, os) \<and> run step t es = Some (u, os') \<and> out = os @ os')"
  by (auto simp: Option.bind_eq_Some_conv)

lemma run_append_Some:
  "run step s (xs @ ys) = Some (u, out) \<longleftrightarrow>
    (\<exists>t os os'. run step s xs = Some (t, os) \<and> run step t ys = Some (u, os') \<and> out = os @ os')"
  by (auto simp: run_append Option.bind_eq_Some_conv)

lemma fine_arrival:
  assumes "fc_inv s" and glue: "calls_as_listed (glue env)"
    and "\<forall>x\<in>set acts. promised eth_promise x"
    and "\<forall>p\<in>set (cots_packets acts). unat (data_length p) \<le> 512"
    and "run cots_raw_in (fc_gps s) (cots_packets acts) = Some (g, frames)" and "frames_ok frames"
    and "run state_receive_imu (fc_est s) (imu_packets acts) = Some (e, ests)"
    and "estimates_ok (c_exp env) ests"
  shows "fine (same (s\<lparr>fc_gps := g, fc_est := e\<rparr>)) (perform NESTING env acts s)"
  using assms
proof (induction acts arbitrary: s frames ests)
  case Nil
  then show ?case by (simp add: perform.simps fine_done same_def)
next
  case (Cons x acts)
  then obtain m where x: "x = Send m" and m: "eth_promise m" by (cases x) auto
  let ?goal = "same (s\<lparr>fc_gps := g, fc_est := e\<rparr>)"
  have N: "NESTING = Suc (Suc (Suc 0))" by (simp add: NESTING_def)
  have go: "fine ?goal (perform NESTING env (x # acts) s)"
    if 1: "fine (same u) (call_receivers (Suc (Suc 0)) env (connections m) m s)"
      and 2: "\<And>t. fc_inv t \<Longrightarrow> same u t \<Longrightarrow> fine ?goal (perform NESTING env acts t)" for u
    using fine_followed [OF 1 2] glue
    by (simp add: x N perform.simps calls_as_listed_def)
  note IH = Cons.IH [OF _ glue]
  show ?case
  proof (cases "plain m")
    case True
    have "fine ?goal (perform NESTING env acts t)" if t: "fc_inv t" "same s t" for t
    proof -
      have "same (t\<lparr>fc_gps := g, fc_est := e\<rparr>) = ?goal" using t(2) by (simp add: same_def fun_eq_iff)
      moreover have "fc_gps t = fc_gps s" "fc_est t = fc_est s" using t(2) by (simp_all add: same_def)
      ultimately show ?thesis using IH [of t frames ests] t(1) Cons.prems(3-8) True
        by (simp add: x packets_plain)
    qed
    then show ?thesis using go fine_plain [OF Cons.prems(1) glue m True] by blast
  next
    case False
    then consider p where "m = demuxed_ADIS p" | p where "m = demuxed_COTS p" by (cases m) auto
    then show ?thesis
    proof cases
      case 1
      then have p: "packet_shape ''ADIS'' 24 p" using m by simp
      from Cons.prems(7) 1 obtain e1 o1 o2
        where r: "state_receive_imu (fc_est s) p = Some (e1, o1)"
          "run state_receive_imu e1 (imu_packets acts) = Some (e, o2)" "ests = o1 @ o2"
        by (auto simp: x run_Cons_Some simp del: run.simps)
      have d: "estimates_ok (c_exp env) o1" "estimates_ok (c_exp env) o2"
        using Cons.prems(8) r(3) by simp_all
      have "fine ?goal (perform NESTING env acts t)"
        if t: "fc_inv t" "same (s\<lparr>fc_est := e1\<rparr>) t" for t
      proof -
        have "same (t\<lparr>fc_gps := g, fc_est := e\<rparr>) = ?goal" using t(2) by (simp add: same_def fun_eq_iff)
        moreover have "fc_gps t = fc_gps s" "fc_est t = e1" using t(2) by (simp_all add: same_def)
        ultimately show ?thesis using IH [of t frames o2] t(1) Cons.prems(3-6) 1 r(2) d(2)
          by (simp add: x)
      qed
      then show ?thesis
        using go 1 fine_sample [OF Cons.prems(1) glue p r(1), of 0] d(1)
        unfolding estimates_ok_def by blast
    next
      case 2
      then have p: "accepted p" using m Cons.prems(4)
        by (auto simp: x packet_shape_def accepted_def readable_def GPS_BUF_def ETH_MTU_def)
      from Cons.prems(5) 2 obtain g1 o1 o2
        where r: "cots_raw_in (fc_gps s) p = Some (g1, o1)"
          "run cots_raw_in g1 (cots_packets acts) = Some (g, o2)" "frames = o1 @ o2"
        by (auto simp: x run_Cons_Some simp del: run.simps)
      have d: "frames_ok o1" "frames_ok o2" using Cons.prems(6) r(3) by simp_all
      have "fine ?goal (perform NESTING env acts t)"
        if t: "fc_inv t" "same (s\<lparr>fc_gps := g1\<rparr>) t" for t
      proof -
        have "same (t\<lparr>fc_gps := g, fc_est := e\<rparr>) = ?goal" using t(2) by (simp add: same_def fun_eq_iff)
        moreover have "fc_gps t = g1" "fc_est t = fc_est s" using t(2) by (simp_all add: same_def)
        ultimately show ?thesis using IH [of t o2 ests] t(1) Cons.prems(3,4,7,8) 2 r(2) d(2)
          by (simp add: x)
      qed
      then show ?thesis
        using go 2 fine_chunk [OF Cons.prems(1) glue p r(1), of 0] d(1)
        unfolding frames_ok_def by blast
    qed
  qed
qed

lemma settle_fine:
  assumes "fine Q (perform NESTING env acts s)"
  shows "\<exists>t out. settle env s acts = Some (t, out) \<and> fc_inv t \<and> (\<forall>x\<in>set out. external_ok x) \<and> Q t"
  using assms by (auto simp: fine_def settle_def)

lemma fc_step_timeout:
  assumes "fc_inv s"
  shows "\<exists>t out. fc_step env s LogTimeout = Some (t, out) \<and> fc_inv t \<and>
    (\<forall>x\<in>set out. external_ok x) \<and> same s t"
proof -
  have "log_inv (fc_log s)" using assms by (simp add: fc_inv_def)
  from logger.step_ok [OF this, of LogTimer "logger_clock env"] assms log_allowed_external
  show ?thesis by (auto simp: fc_inv_def)
qed

lemma fc_step_version:
  assumes inv: "fc_inv s" and glue: "calls_as_listed (glue env)" and "length stack = 50"
  shows "\<exists>t out. fc_step env s (RnhReadable fd stack r) = Some (t, out) \<and> fc_inv t \<and>
    (\<forall>x\<in>set out. external_ok x) \<and> same s t"
proof -
  have "fine (same s) (perform (Suc 2) env (fst (version_callback fd stack r)) s)"
  proof (rule fine_perform [OF inv])
    show "\<forall>x\<in>set (fst (version_callback fd stack r)). (\<exists>m. x = Send m) \<or> external_ok x"
      by (auto simp: version_callback_def split: read_result.splits prod.splits)
  next
    fix m t assume m: "Send m \<in> set (fst (version_callback fd stack r))" and t: "fc_inv t"
    then obtain answer where "r = ReadBytes answer" by (cases r) (auto simp: version_callback_def)
    with m version_callback_answer [OF assms(3), of fd answer] obtain buffer len
      where b: "m = rnh_version_out buffer len" "unat len \<le> length buffer" "unat len \<le> 50" by auto
    then have a: "log_admissible (LogVersion buffer len)" by simp
    show "fine (same t) (call_receivers 2 env (glue env m) m t)"
      using glue unfolding calls_as_listed_def b(1)
      by (auto intro!: fine_log [OF t a, where P = "\<lambda>_. True"] fine_nothing)
  qed
  then show ?thesis using settle_fine [of "same s" env "fst (version_callback fd stack r)" s]
    by (simp add: NESTING_def numeral_eq_Suc)
qed

fun arrivals :: "fc_event list \<Rightarrow> arrival list" where
  "arrivals [] = []"
| "arrivals (EthReadable a # es) = a # arrivals es"
| "arrivals (LogTimeout # es) = arrivals es"
| "arrivals (RnhReadable fd stack r # es) = arrivals es"

fun stack_ok :: "fc_event \<Rightarrow> bool" where
  "stack_ok (RnhReadable fd stack r) \<longleftrightarrow> length stack = 50"
| "stack_ok _ \<longleftrightarrow> True"

lemma fc_run_ok:
  assumes "fc_inv s" and "calls_as_listed (glue env)" and "\<forall>x\<in>set es. stack_ok x"
    and "run (demux (start_time env)) (fc_eth s) (arrivals es) = Some (e, msgs)"
    and "\<forall>p\<in>set (cots_packets msgs). unat (data_length p) \<le> 512"
    and "run cots_raw_in (fc_gps s) (cots_packets msgs) = Some (g, frames)" and "frames_ok frames"
    and "run state_receive_imu (fc_est s) (imu_packets msgs) = Some (x, ests)"
    and "estimates_ok (c_exp env) ests"
  shows "\<exists>t out. run (fc_step env) s es = Some (t, out) \<and> fc_inv t \<and> (\<forall>a\<in>set out. external_ok a) \<and>
    fc_eth t = e \<and> fc_gps t = g \<and> fc_est t = x"
  using assms
proof (induction es arbitrary: s msgs frames ests)
  case Nil
  then show ?case by simp
next
  case (Cons ev es)
  note glue = Cons.prems(2)
  have last: "\<exists>t out. run (fc_step env) s (ev # es) = Some (t, out) \<and> fc_inv t \<and>
      (\<forall>a\<in>set out. external_ok a) \<and> fc_eth t = e \<and> fc_gps t = g \<and> fc_est t = x"
    if "fc_step env s ev = Some (u, o1)" "\<forall>a\<in>set o1. external_ok a"
      "\<exists>t out. run (fc_step env) u es = Some (t, out) \<and> fc_inv t \<and>
        (\<forall>a\<in>set out. external_ok a) \<and> fc_eth t = e \<and> fc_gps t = g \<and> fc_est t = x" for u o1
    using that by auto
  have quiet: ?case if "arrivals (ev # es) = arrivals es"
    and "\<exists>u o1. fc_step env s ev = Some (u, o1) \<and> fc_inv u \<and> (\<forall>a\<in>set o1. external_ok a) \<and> same s u"
  proof -
    from that(2) obtain u o1 where u: "fc_step env s ev = Some (u, o1)" "fc_inv u"
      "\<forall>a\<in>set o1. external_ok a" "same s u" by blast
    have "fc_eth u = fc_eth s" "fc_gps u = fc_gps s" "fc_est u = fc_est s"
      using u(4) by (simp_all add: same_def)
    with that(1) Cons.prems show ?thesis
      by (intro last [OF u(1,3)] Cons.IH [OF u(2) glue, of msgs frames ests]) simp_all
  qed
  show ?case
  proof (cases ev)
    case LogTimeout
    with quiet fc_step_timeout [OF Cons.prems(1)] show ?thesis by simp
  next
    case (RnhReadable fd stack r)
    with quiet fc_step_version [OF Cons.prems(1) glue, of stack fd r] Cons.prems(3) show ?thesis by simp
  next
    case (EthReadable a)
    from Cons.prems(4) EthReadable obtain e1 m1 m2
      where m: "demux (start_time env) (fc_eth s) a = Some (e1, m1)"
        "run (demux (start_time env)) e1 (arrivals es) = Some (e, m2)" "msgs = m1 @ m2"
      by (auto simp: run_Cons_Some simp del: run.simps)
    from Cons.prems(6) m(3) obtain g1 f1 f2
      where f: "run cots_raw_in (fc_gps s) (cots_packets m1) = Some (g1, f1)"
        "run cots_raw_in g1 (cots_packets m2) = Some (g, f2)" "frames = f1 @ f2"
      by (auto simp: run_append_Some)
    from Cons.prems(8) m(3) obtain x1 y1 y2
      where y: "run state_receive_imu (fc_est s) (imu_packets m1) = Some (x1, y1)"
        "run state_receive_imu x1 (imu_packets m2) = Some (x, y2)" "ests = y1 @ y2"
      by (auto simp: run_append_Some)
    have "eth_inv (fc_eth s)" using Cons.prems(1) by (simp add: fc_inv_def)
    from demux_promised [OF this, of "start_time env" a] m(1)
    have e1: "eth_inv e1" "\<forall>x\<in>set m1. promised eth_promise x" by auto
    let ?s = "s\<lparr>fc_eth := e1\<rparr>"
    have inv: "fc_inv ?s" using Cons.prems(1) e1(1) by (simp add: fc_inv_def)
    have "fine (same (?s\<lparr>fc_gps := g1, fc_est := x1\<rparr>)) (perform NESTING env m1 ?s)"
      using Cons.prems(5,7,9) m(3) f y by (intro fine_arrival [OF inv glue e1(2)]) auto
    from settle_fine [OF this] obtain u out
      where u: "settle env ?s m1 = Some (u, out)" "fc_inv u" "\<forall>x\<in>set out. external_ok x"
        "same (?s\<lparr>fc_gps := g1, fc_est := x1\<rparr>) u" by blast
    then have "fc_eth u = e1" "fc_gps u = g1" "fc_est u = x1" by (simp_all add: same_def)
    moreover have st: "fc_step env s ev = Some (u, out)" using EthReadable m(1) u(1) by simp
    ultimately show ?thesis using Cons.prems(3,5,7,9) m f y
      by (intro last [OF st u(3)] Cons.IH [OF u(2) glue, of m2 f2 y2]) simp_all
  qed
qed

end
