(* ===== verification/Fc_Log.thy ===== *)
theory Fc_Log
  imports Fc_Sends Fc_Runs
begin

text \<open>
  What the log tells of a run of the whole program: the logger is followed through the nested calls,
  and the packets it is given are those that an abstract specification, \<open>due\<close>, reads off the messages
  of the multiplexer.
\<close>

section \<open>The packets to be logged\<close>

definition sent :: "action list \<Rightarrow> message list" where
  "sent acts = concat (map (\<lambda>x. case x of Send m \<Rightarrow> [m] | _ \<Rightarrow> []) acts)"

definition gps_packets :: "action list \<Rightarrow> packet list" where
  "gps_packets acts = concat (map (\<lambda>x. case x of Send (gps_data_out p) \<Rightarrow> [p] | _ \<Rightarrow> []) acts)"

lemma sent_simps [simp]:
  "sent [] = []" "sent (Send m # acts) = m # sent acts" "sent (Write c bs # acts) = sent acts"
  "sent (xs @ ys) = sent xs @ sent ys"
  by (simp_all add: sent_def)

text \<open>
  The abstract log: a packet for a logger is due as it is, a datagram of the GPS the packets that the
  parser finds with it. The other messages carry commands.
\<close>

definition due :: "gps_state \<Rightarrow> message \<Rightarrow> (gps_state \<times> packet list) option" where
  "due g m =
     (case m of
        demuxed_COTS p \<Rightarrow> do { (g, out) \<leftarrow> cots_raw_in g p; Some (g, gps_packets out) }
      | _ \<Rightarrow> Some (g, case packet_args m of Some p \<Rightarrow> [p] | None \<Rightarrow> []))"

text \<open>The same, receiver by receiver.\<close>

fun due_at :: "message \<Rightarrow> gps_state \<Rightarrow> receiver \<Rightarrow> (gps_state \<times> packet list) option" where
  "due_at m g LOG_log_write = Some (g, case packet_args m of Some p \<Rightarrow> [p] | None \<Rightarrow> [])"
| "due_at m g LOG_log_write_disk_only = Some (g, case packet_args m of Some p \<Rightarrow> [p] | None \<Rightarrow> [])"
| "due_at m g FILTER_filter_receive = Some (g, case packet_args m of Some p \<Rightarrow> [p] | None \<Rightarrow> [])"
| "due_at m g GPS_cots_raw_in =
     do { p \<leftarrow> packet_args m; (g, out) \<leftarrow> cots_raw_in g p; Some (g, gps_packets out) }"
| "due_at m g _ = Some (g, [])"

lemma due_connections: "run (due_at m) g (connections m) = due g m"
  by (cases m) (simp_all add: due_def split: Option.bind_split prod.split)

lemma run_due_append:
  "run due g (ms @ ms') = do { (g, ps) \<leftarrow> run due g ms; (g, ps') \<leftarrow> run due g ms'; Some (g, ps @ ps') }"
  by (rule run_append)

lemma run_due_gps: "list_all sends_gps acts \<Longrightarrow> run due g (sent acts) = Some (g, gps_packets acts)"
proof (induction acts)
  case (Cons x acts)
  then obtain p where "x = Send (gps_data_out p)" by (cases x rule: sends_gps.cases) auto
  with Cons show ?case by (simp add: due_def gps_packets_def)
qed (simp add: gps_packets_def)

text \<open>Messages that are nobody's packet.\<close>

lemma run_due_none:
  "\<forall>m. Send m \<in> set acts \<longrightarrow> packet_args m = None \<Longrightarrow> run due g (sent acts) = Some (g, [])"
proof (induction acts)
  case (Cons x acts)
  then show ?case by (cases x) (auto simp: due_def split: message.split)
qed simp

section \<open>What the logger is told\<close>

text \<open>The messages carry the identifiers and lengths that the logger relies on.\<close>

fun proper :: "message \<Rightarrow> bool" where
  "proper (arm_send_signal sig) \<longleftrightarrow> sig = ''ARM'' \<or> sig = ''SAFE''"
| "proper (rc_send_servo m) \<longleftrightarrow> roll_shape m"
| "proper (rnh_version_out buffer len) \<longleftrightarrow> unat len \<le> length buffer \<and> unat len \<le> 1416"
| "proper (filter_to_disk p) \<longleftrightarrow> data_ID (ID p) \<and> disk_only (ID p)"
| "proper (demuxed_JGPS p) \<longleftrightarrow> data_ID (ID p)"
| "proper (gps_data_out p) \<longleftrightarrow> data_ID (ID p)"
| "proper (demuxed_COTS p) \<longleftrightarrow> True"
| "proper m \<longleftrightarrow> (\<forall>p. packet_args m = Some p \<longrightarrow> data_ID (ID p) \<and> \<not> disk_only (ID p))"

fun proper_event :: "log_event \<Rightarrow> bool" where
  "proper_event (LogGround p) \<longleftrightarrow> data_ID (ID p) \<and> \<not> disk_only (ID p)"
| "proper_event (LogDiskOnly p) \<longleftrightarrow> data_ID (ID p) \<and> disk_only (ID p)"
| "proper_event (LogArm sig) \<longleftrightarrow> proper (arm_send_signal sig)"
| "proper_event (LogRC m) \<longleftrightarrow> proper (rc_send_servo m)"
| "proper_event (LogVersion buffer len) \<longleftrightarrow> proper (rnh_version_out buffer len)"
| "proper_event LogTimer \<longleftrightarrow> True"

definition packets_in :: "log_event list \<Rightarrow> packet list" where
  "packets_in es = concat (map (\<lambda>e. case e of LogGround p \<Rightarrow> [p] | LogDiskOnly p \<Rightarrow> [p] | _ \<Rightarrow> []) es)"

definition commands_in :: "log_event list \<Rightarrow> ROLLMessage list" where
  "commands_in es = concat (map (\<lambda>e. case e of LogRC m \<Rightarrow> [m] | _ \<Rightarrow> []) es)"

lemma events_simps [simp]:
  "packets_in [] = []" "packets_in (xs @ ys) = packets_in xs @ packets_in ys"
  "commands_in [] = []" "commands_in (xs @ ys) = commands_in xs @ commands_in ys"
  "packets_in (LogTimer # es) = packets_in es" "commands_in (LogTimer # es) = commands_in es"
  by (simp_all add: packets_in_def commands_in_def)

text \<open>The packet for the servo board that the servo driver makes of a command.\<close>

definition driven :: "ROLLMessage \<Rightarrow> bytes \<Rightarrow> bool" where
  "driven m bs \<longleftrightarrow> (\<exists>n n'. rs_receive_adj n m = Some (n', [Write RollServoSocket bs]))"

text \<open>
  Between two states the logger has run through events with the packets \<open>ps\<close>, what it wrote is what
  the program wrote to the log, and the servo commands among the events are those that were carried out.
\<close>

definition told ::
  "fc_env \<Rightarrow> fc_state \<Rightarrow> fc_state \<Rightarrow> action list \<Rightarrow> packet list \<Rightarrow> bool" where
  "told env s t out ps \<longleftrightarrow> (\<exists>es.
     run (log_step (logger_clock env)) (fc_log s) es = Some (fc_log t, filter to_log out) \<and>
     (\<forall>e\<in>set es. proper_event e) \<and> packets_in es = ps \<and>
     list_all2 driven (commands_in es) (written RollServoSocket out))"

lemma told_trans:
  assumes "told env s t out ps" and "told env t u out' ps'"
  shows "told env s u (out @ out') (ps @ ps')"
proof -
  obtain es where 1: "run (log_step (logger_clock env)) (fc_log s) es = Some (fc_log t, filter to_log out)"
    "\<forall>e\<in>set es. proper_event e" "packets_in es = ps"
    "list_all2 driven (commands_in es) (written RollServoSocket out)"
    using assms(1) by (auto simp: told_def)
  obtain es' where 2: "run (log_step (logger_clock env)) (fc_log t) es' = Some (fc_log u, filter to_log out')"
    "\<forall>e\<in>set es'. proper_event e" "packets_in es' = ps'"
    "list_all2 driven (commands_in es') (written RollServoSocket out')"
    using assms(2) by (auto simp: told_def)
  show ?thesis unfolding told_def
    using 1 2 by (intro exI [of _ "es @ es'"]) (auto simp: run_append intro: list_all2_appendI)
qed

text \<open>Writes that belong neither to the log nor to the servos.\<close>

fun unlogged :: "action \<Rightarrow> bool" where
  "unlogged (Write c bs) \<longleftrightarrow> c \<notin> {LogFile, LogSocket, RollServoSocket}"
| "unlogged (Send m) \<longleftrightarrow> True"

lemma told_nothing: "fc_log t = fc_log s \<Longrightarrow> told env s t [] []"
  unfolding told_def by (intro exI [of _ "[]"]) simp

lemma told_other: "fc_log t = fc_log s \<Longrightarrow> unlogged (Write c bs) \<Longrightarrow> told env s t [Write c bs] []"
  unfolding told_def by (intro exI [of _ "[]"]) auto

lemma told_event:
  assumes "log_step (logger_clock env) (fc_log s) e = Some (fc_log t, out)"
    and "list_all to_log out" and "proper_event e" and "\<And>m. e \<noteq> LogRC m"
  shows "told env s t out (packets_in [e])"
proof -
  have "written RollServoSocket out = []" using assms(2)
    by (induction out rule: list.induct) (auto elim!: to_log.elims)
  moreover have "commands_in [e] = []" using assms(4) by (cases e) (auto simp: commands_in_def)
  moreover have "filter to_log out = out" using assms(2) by (simp add: list_all_iff)
  ultimately show ?thesis unfolding told_def using assms(1,3)
    by (intro exI [of _ "[e]"]) simp
qed

section \<open>The receivers\<close>

text \<open>The event that a call of a receiver of the logger is.\<close>

fun event_of :: "receiver \<Rightarrow> message \<Rightarrow> log_event option" where
  "event_of LOG_log_write m = map_option LogGround (packet_args m)"
| "event_of LOG_log_write_disk_only m = map_option LogDiskOnly (packet_args m)"
| "event_of LOG_log_receive_arm m = (case m of arm_send_signal sig \<Rightarrow> Some (LogArm sig) | _ \<Rightarrow> None)"
| "event_of LOG_log_receive_rc m = (case m of rc_send_servo roll \<Rightarrow> Some (LogRC roll) | _ \<Rightarrow> None)"
| "event_of LOG_log_receive_rnh_version m =
     (case m of rnh_version_out buffer len \<Rightarrow> Some (LogVersion buffer len) | _ \<Rightarrow> None)"
| "event_of _ m = None"

definition log_receivers :: "receiver set" where
  "log_receivers = {LOG_log_write, LOG_log_write_disk_only, LOG_log_receive_arm, LOG_log_receive_rc,
     LOG_log_receive_rnh_version}"

text \<open>A call either is an event of the logger or leaves the logger alone.\<close>

lemma receive_event:
  assumes "receive env r m s = Some (t, acts, m')" and "r \<in> log_receivers"
  obtains e where "event_of r m = Some e"
    and "log_step (logger_clock env) (fc_log s) e = Some (fc_log t, acts)"
    and "list_all to_log acts" and "fc_gps t = fc_gps s"
proof -
  have "\<exists>e. event_of r m = Some e \<and> log_step (logger_clock env) (fc_log s) e = Some (fc_log t, acts) \<and>
      fc_gps t = fc_gps s"
    using assms unfolding log_receivers_def
    by (auto simp: Option.bind_eq_Some_conv split: message.split_asm)
  moreover have "list_all to_log acts"
    using receive_can [OF assms(1)] assms(2) by (auto simp: log_receivers_def)
  ultimately show thesis using that by blast
qed

lemma receive_no_event:
  assumes "receive env r m s = Some (t, acts, m')" and "r \<notin> log_receivers"
  shows "fc_log t = fc_log s"
  using assms by (cases r) (auto simp: log_receivers_def Option.bind_eq_Some_conv case_prod_unfold Let_def
      split: message.split_asm)

lemma receive_eth: "receive env r m s = Some (t, acts, m') \<Longrightarrow> fc_eth t = fc_eth s"
  by (cases r) (auto simp: Option.bind_eq_Some_conv case_prod_unfold Let_def split: message.split_asm)

lemma event_of_proper:
  assumes "proper m" and "r \<in> set (connections m)" and "event_of r m = Some e"
  shows "proper_event e" and "due_at m g r = Some (g, packets_in [e])"
  using assms by (cases m; auto simp: packets_in_def)+

lemma event_of_rc: "event_of r m = Some (LogRC x) \<Longrightarrow> r = LOG_log_receive_rc"
  by (cases r) (auto split: message.split_asm)

text \<open>What the other receivers send is proper.\<close>

lemma can_proper:
  assumes "can r x" and "r \<notin> log_receivers" and "r \<noteq> RS_rs_receive_adj" and "r \<noteq> FILTER_filter_receive"
  shows "unlogged x \<and> (\<forall>k. x = Send k \<longrightarrow> proper k)"
proof (cases x)
  case (Send k)
  with assms show ?thesis by (cases r; cases k) (auto simp: log_receivers_def)
next
  case (Write c bs)
  with assms show ?thesis by (cases r) (auto simp: log_receivers_def)
qed

lemma receive_proper:
  assumes rcv: "receive env r m s = Some (t, acts, m')" and "proper m" and "r \<in> set (connections m)"
    and "r \<notin> log_receivers" and "r \<noteq> RS_rs_receive_adj"
  shows "\<forall>x\<in>set acts. unlogged x" and "\<forall>k. Send k \<in> set acts \<longrightarrow> proper k" and "m' = m"
proof -
  have "\<forall>x\<in>set acts. unlogged x \<and> (\<forall>k. x = Send k \<longrightarrow> proper k)"
  proof (cases "r = FILTER_filter_receive")
    case True
    with rcv obtain p where p: "packet_args m = Some p" "acts = filter_receive p"
      by (auto simp: Option.bind_eq_Some_conv)
    moreover have "data_ID (ID p)" using p(1) True assms(2,3) by (cases m) auto
    ultimately show ?thesis by (simp add: filter_receive_eq)
  next
    case False
    with receive_can [OF rcv] can_proper [OF _ assms(4,5)] show ?thesis by (auto simp: list_all_iff)
  qed
  then show "\<forall>x\<in>set acts. unlogged x" "\<forall>k. Send k \<in> set acts \<longrightarrow> proper k" by auto
  show "m' = m" using receive_message [OF rcv] assms(3-5) by (auto simp: log_receivers_def)
qed

text \<open>What they send is due exactly where it was due with what they were sent.\<close>

lemma can_no_packet:
  "can r (Send k) \<Longrightarrow> r \<notin> log_receivers \<union> {RS_rs_receive_adj, FILTER_filter_receive, GPS_cots_raw_in} \<Longrightarrow>
    packet_args k = None"
  by (cases r; cases k) (auto simp: log_receivers_def)

lemma receive_due:
  assumes rcv: "receive env r m s = Some (t, acts, m')"
    and r: "r \<notin> log_receivers" "r \<noteq> RS_rs_receive_adj"
    and "run due (fc_gps t) (sent acts) = Some (g, ps)"
  shows "due_at m (fc_gps s) r = Some (g, ps)"
proof -
  consider "r = FILTER_filter_receive" | "r = GPS_cots_raw_in"
    | "r \<notin> log_receivers \<union> {RS_rs_receive_adj, FILTER_filter_receive, GPS_cots_raw_in}"
    using r by blast
  then show ?thesis
  proof cases
    case 1
    with rcv assms(4) show ?thesis
      by (auto simp: Option.bind_eq_Some_conv filter_receive_eq due_def split: if_splits)
  next
    case 2
    with rcv assms(4) run_due_gps [OF onlyD [OF cots_raw_in_acts]] show ?thesis
      by (fastforce simp: Option.bind_eq_Some_conv)
  next
    case 3
    then have "run due (fc_gps t) (sent acts) = Some (fc_gps t, [])"
      using can_no_packet receive_can [OF rcv] by (intro run_due_none) (auto simp: list_all_iff)
    moreover have "fc_gps t = fc_gps s" "due_at m (fc_gps s) r = Some (fc_gps s, [])"
      using rcv 3 by (cases r; auto simp: log_receivers_def Option.bind_eq_Some_conv case_prod_unfold
          Let_def split: message.split_asm)+
    ultimately show ?thesis using assms(4) by simp
  qed
qed

section \<open>The dispatch\<close>

text \<open>A servo command is carried out and logged.\<close>

lemma servo_told:
  assumes "call_receivers n env (connections (rc_send_servo m)) (rc_send_servo m) s = Inr (t, out)"
    and m: "roll_shape m"
  shows "fc_eth t = fc_eth s \<and> fc_gps t = fc_gps s \<and> told env s t out []"
proof -
  obtain k a where rs: "rs_receive_adj (fc_rs s) m = Some (k, a)"
    using assms(1) by (cases "rs_receive_adj (fc_rs s) m") (auto simp: call_receivers.simps)
  then obtain bs where a: "a = [Write RollServoSocket bs]"
    by (auto simp: rs_receive_adj_def Let_def Option.bind_eq_Some_conv)
  let ?s = "s\<lparr>fc_rs := k\<rparr>"
  have rest: "followed_by (Inr (?s, a)) (\<lambda>s. call_receivers n env [LOG_log_receive_rc] (rc_send_servo m) s) =
      Inr (t, out)"
    using assms(1) rs by (simp add: call_receivers.simps perform_writes_only a)
  then obtain l o' m' where lg: "log_receive_rc (logger_clock env) (fc_log s) m = Some (l, o', m')"
    by (cases "log_receive_rc (logger_clock env) (fc_log s) m") (auto simp: call_receivers.simps)
  have "list_all to_log o'" using lg by (rule log_receive_acts(3))
  moreover from this have t: "t = ?s\<lparr>fc_log := l\<rparr>" "out = Write RollServoSocket bs # o'"
    using rest lg by (auto simp: call_receivers.simps perform_to_log a)
  moreover have "filter to_log o' = o'" "written RollServoSocket o' = []"
    using \<open>list_all to_log o'\<close>
    by (simp add: list_all_iff, induction o' rule: list.induct) (auto elim!: to_log.elims)
  moreover have "driven m bs" using rs a by (auto simp: driven_def)
  ultimately have "told env s t out []" unfolding told_def using lg m
    by (intro exI [of _ "[LogRC m]"]) (simp add: packets_in_def commands_in_def)
  then show ?thesis using t(1) by simp
qed

text \<open>Every call: the packets that are due are told to the logger.\<close>

lemma dispatch_told:
  assumes glue: "calls_as_listed (glue env)"
  shows "call_receivers n env rs m s = Inr (t, out) \<Longrightarrow> proper m \<Longrightarrow> set rs \<subseteq> set (connections m) \<Longrightarrow>
      \<forall>x. m \<noteq> rc_send_servo x \<Longrightarrow>
      \<exists>ps. run (due_at m) (fc_gps s) rs = Some (fc_gps t, ps) \<and> fc_eth t = fc_eth s \<and> told env s t out ps"
    and "perform n env acts s = Inr (t, out) \<Longrightarrow> \<forall>x\<in>set acts. unlogged x \<Longrightarrow>
      \<forall>k. Send k \<in> set acts \<longrightarrow> proper k \<Longrightarrow>
      \<exists>ps. run due (fc_gps s) (sent acts) = Some (fc_gps t, ps) \<and> fc_eth t = fc_eth s \<and> told env s t out ps"
  using glue
proof (induction n env rs m s and n env acts s arbitrary: t out and t out
    rule: call_receivers_perform.induct)
  case (1 n env m s)
  then show ?case by (simp add: call_receivers.simps told_nothing)
next
  case (2 n env r rs m s)
  from 2(3) obtain u acts m' where rcv: "receive env r m s = Some (u, acts, m')"
    by (auto simp: call_receivers.simps split: option.splits)
  with 2(3) obtain v o1 o2 where p: "perform n env acts u = Inr (v, o1)"
    and q: "call_receivers n env rs m' v = Inr (t, o2)" and out: "out = o1 @ o2"
    by (auto simp: call_receivers.simps followed_by_Inr)
  have r: "r \<in> set (connections m)" "r \<noteq> RS_rs_receive_adj" using 2(5,6) by (cases m; auto)+
  have m': "m' = m" using receive_message [OF rcv] 2(6) by auto
  have first: "\<exists>ps. due_at m (fc_gps s) r = Some (fc_gps v, ps) \<and> fc_eth v = fc_eth s \<and> told env s v o1 ps"
  proof (cases "r \<in> log_receivers")
    case True
    from receive_event [OF rcv True] obtain e where e: "event_of r m = Some e"
      "log_step (logger_clock env) (fc_log s) e = Some (fc_log u, acts)" "list_all to_log acts"
      "fc_gps u = fc_gps s" by blast
    have "e \<noteq> LogRC x" for x using event_of_rc e(1) r(1) 2(6) by (cases m) auto
    with told_event [OF e(2,3) event_of_proper(1) [OF 2(4) r(1) e(1)]]
      event_of_proper(2) [OF 2(4) r(1) e(1), of "fc_gps s"] p e(3,4) receive_eth [OF rcv]
    show ?thesis by (simp add: perform_to_log)
  next
    case False
    note pr = receive_proper [OF rcv 2(4) r(1) False r(2)]
    from 2(1) [OF rcv refl refl p pr(1,2) 2(7)] obtain ps
      where "run due (fc_gps u) (sent acts) = Some (fc_gps v, ps)" "fc_eth v = fc_eth u"
      "told env u v o1 ps" by blast
    with receive_due [OF rcv False r(2)] receive_eth [OF rcv] receive_no_event [OF rcv False]
    show ?thesis by (auto simp: told_def)
  qed
  from 2(2) [OF rcv refl refl q] 2(4-7) m' obtain qs where
    "run (due_at m) (fc_gps v) rs = Some (fc_gps t, qs)" "fc_eth t = fc_eth v" "told env v t o2 qs"
    by auto
  with first told_trans show ?case by (fastforce simp: out)
next
  case (3 n env s)
  then show ?case by (simp add: perform.simps told_nothing)
next
  case (4 n env c bs acts s)
  then obtain o2 where p: "perform n env acts s = Inr (t, o2)" "out = Write c bs # o2"
    by (auto simp: perform.simps split: sum.splits)
  from 4(1) [OF p(1) _ _ 4(5)] 4(3,4) obtain ps
    where "run due (fc_gps s) (sent acts) = Some (fc_gps t, ps)" "fc_eth t = fc_eth s" "told env s t o2 ps"
    by auto
  with told_trans [OF told_other [of s s c bs env]] 4(3) p(2) show ?case by fastforce
next
  case (5 env m acts s)
  then show ?case by (simp add: perform.simps)
next
  case (6 n env m acts s)
  from 6(3,6) obtain u o1 o2 where c: "call_receivers n env (connections m) m s = Inr (u, o1)"
    and p: "perform (Suc n) env acts u = Inr (t, o2)" and out: "out = o1 @ o2"
    by (auto simp: perform.simps followed_by_Inr calls_as_listed_def)
  have m: "proper m" using 6(5) by simp
  have first: "\<exists>ps. due (fc_gps s) m = Some (fc_gps u, ps) \<and> fc_eth u = fc_eth s \<and> told env s u o1 ps"
  proof (cases "\<exists>x. m = rc_send_servo x")
    case True
    then obtain x where x: "m = rc_send_servo x" by blast
    with servo_told [of n env x s u o1] c m show ?thesis by (simp add: due_def)
  next
    case False
    with 6(1) [of u o1] c m 6(6) show ?thesis
      by (simp add: calls_as_listed_def due_connections)
  qed
  from 6(2) [of u t o2] p 6(4-6) obtain qs where
    "run due (fc_gps u) (sent acts) = Some (fc_gps t, qs)" "fc_eth t = fc_eth u" "told env u t o2 qs"
    by auto
  with first told_trans show ?case by (fastforce simp: out)
qed

end
