(* ===== verification/Fc_Dispatch.thy ===== *)
theory Fc_Dispatch
  imports Fc_Sends
begin

text \<open>
  Nested senders: a message of \<open>main.miml\<close> only causes messages of lower rank, so the dispatch
  ends within three levels.
\<close>

text \<open>How deep the senders nest below a message.\<close>

fun rank :: "message \<Rightarrow> nat" where
  "rank (rc_send_servo _) = 0"
| "rank (filter_to_ground _) = 0"
| "rank (filter_to_disk _) = 0"
| "rank (rnh_version_out _ _) = 0"
| "rank (arm_send_signal _) = 1"
| "rank (state_send_message _ _ _ _) = 1"
| "rank (gps_data_out _) = 1"
| "rank _ = 2"

definition below :: "nat \<Rightarrow> action list \<Rightarrow> bool" where
  "below n acts \<longleftrightarrow> (\<forall>m. Send m \<in> set acts \<longrightarrow> rank m < n)"

lemma below_simps [simp]:
  "below n []" "below n (Write c bs # acts) = below n acts"
  "below n (Send m # acts) \<longleftrightarrow> rank m < n \<and> below n acts"
  by (auto simp: below_def)

lemma below_mono: "below k acts \<Longrightarrow> k \<le> n \<Longrightarrow> below n acts"
  by (auto simp: below_def)

lemma can_rank: "r \<in> set (connections m) \<Longrightarrow> can r (Send k) \<Longrightarrow> rank k < rank m"
  by (cases m; cases k) auto

lemma receive_below:
  assumes "receive env r m s = Some (t, acts, m')" and "r \<in> set (connections m)"
  shows "below (rank m) acts"
  using receive_can [OF assms(1)] can_rank [OF assms(2)] by (auto simp: below_def list_all_iff)

lemma receive_keeps:
  assumes "receive env r m s = Some (t, acts, m')"
  shows "connections m' = connections m" and "rank m' = rank m"
  using receive_message [OF assms] by auto

text \<open>Two outcomes are equal, and neither is cut off.\<close>

definition settled :: "outcome \<Rightarrow> outcome \<Rightarrow> bool" where
  "settled x y \<longleftrightarrow> y = x \<and> x \<noteq> Inl TooDeep"

lemma settled_followed:
  "settled x y \<Longrightarrow> (\<And>s out. x = Inr (s, out) \<Longrightarrow> settled (k s) (k' s)) \<Longrightarrow>
    settled (followed_by x k) (followed_by y k')"
  by (cases x) (auto simp: settled_def split: sum.splits)

lemma enough_depth:
  assumes glue: "calls_as_listed (glue env)"
  shows "\<forall>r\<in>set rs. r \<in> set (connections m) \<Longrightarrow> rank m \<le> n \<Longrightarrow>
      settled (call_receivers n env rs m s) (call_receivers (Suc n) env rs m s)"
    and "below n acts \<Longrightarrow> settled (perform n env acts s) (perform (Suc n) env acts s)"
  using glue
proof (induction n env rs m s and n env acts s rule: call_receivers_perform.induct)
  case (1 n env m s)
  then show ?case by (simp add: call_receivers.simps settled_def)
next
  case (2 n env r rs m s)
  show ?case
  proof (cases "receive env r m s")
    case None
    then show ?thesis by (simp add: call_receivers.simps settled_def)
  next
    case (Some x)
    then obtain t acts m' where x: "receive env r m s = Some (t, acts, m')" by (cases x) auto
    have "below n acts" using receive_below [OF x] 2(3,4) by (auto intro: below_mono)
    moreover have "\<forall>r\<in>set rs. r \<in> set (connections m')" "rank m' \<le> n"
      using receive_keeps [OF x] 2(3,4) by auto
    ultimately show ?thesis
      using 2(1) [OF x] 2(2) [OF x] 2(5) x by (simp add: call_receivers.simps settled_followed)
  qed
next
  case (3 n env s)
  then show ?case by (simp add: perform.simps settled_def)
next
  case (4 n env c bs acts s)
  then have "settled (perform n env acts s) (perform (Suc n) env acts s)" by simp
  moreover have "settled (Inr (s, [Write c bs])) (Inr (s, [Write c bs]))" by (simp add: settled_def)
  ultimately show ?case unfolding perform.simps by (intro settled_followed) auto
next
  case (5 env m acts s)
  then show ?case by simp
next
  case (6 n env m acts s)
  from 6(3) have "rank m \<le> n" "below (Suc n) acts" by simp_all
  with 6 show ?case
    by (simp add: perform.simps settled_followed calls_as_listed_def)
qed

text \<open>The nested calls end within three levels, and allowing more levels changes nothing.\<close>

lemma dispatch_ends:
  assumes "calls_as_listed (glue env)"
  shows "perform NESTING env acts s \<noteq> Inl TooDeep \<and>
    perform (NESTING + k) env acts s = perform NESTING env acts s"
proof -
  have r: "rank m < n" if "3 \<le> n" for m n using that by (cases m) auto
  have b: "below n acts" if "3 \<le> n" for n using r [OF that] by (simp add: below_def)
  have "perform (NESTING + k) env acts s = perform NESTING env acts s" for k
  proof (induction k)
    case (Suc k)
    with enough_depth(2) [OF assms b, of "NESTING + k" s] show ?case
      by (simp add: settled_def NESTING_def)
  qed simp
  moreover have "perform NESTING env acts s \<noteq> Inl TooDeep"
    using enough_depth(2) [OF assms b, of NESTING s] by (simp add: settled_def NESTING_def)
  ultimately show ?thesis by blast
qed

end
