(* ===== verification/Fc_Properties.thy ===== *)
theory Fc_Properties
  imports Fc_Runs Fc_Dispatch
begin

text \<open>
  The properties of the program as a whole: runs of the main loop without faults, what a disarming
  datagram does to the servos and the log, the order of the connections, and two errors that cross the modules.
\<close>

section \<open>Datagrams\<close>

definition from_port :: "u16 \<Rightarrow> bytes \<Rightarrow> arrival \<Rightarrow> bool" where
  "from_port port payload a \<longleftrightarrow>
     (\<exists>src cmsgs. incoming a = Datagram payload src cmsgs \<and> sin_port src = bswap16 port)"

text \<open>The receive buffer after a datagram.\<close>

definition received :: "bytes \<Rightarrow> eth_state \<Rightarrow> bytes" where
  "received payload e = payload @ drop (length payload) (eth_buffer e)"

lemma demux_datagram:
  assumes "eth_inv e" and "from_port port payload a" and "payload \<noteq> []" and "length payload \<le> ETH_MTU"
  obtains ts where "length ts = 6"
    and "demux start e a =
      (let e = e\<lparr>eth_buffer := received payload e\<rparr>; len = word_of_nat (length payload) in
       case route_of port of
         Sequenced v \<Rightarrow> do {
           (type, out) \<leftarrow> sequenced_receive port (eth_buffer e) len ts (seq e v);
           Some (e\<lparr>seq := (seq e)(v := type)\<rparr>, out)
         }
       | RawArm \<Rightarrow> Some (e, [Send (demuxed_ARM (eth_buffer e) len ts)])
       | RawRC \<Rightarrow> Some (e, [Send (demuxed_RC (eth_buffer e) len ts)])
       | NoRoute \<Rightarrow> Some (e, []))"
proof -
  from assms(2) obtain src cmsgs where src: "incoming a = Datagram payload src cmsgs"
    "sin_port src = bswap16 port" by (auto simp: from_port_def)
  let ?ts = "snd (to_psas_time start (scan_cmsgs cmsgs (stale_ts a)))"
  have "min (length (eth_buffer e)) (length payload) = length payload"
    using assms(1,4) by (simp add: eth_inv_def)
  then have "demux start e a =
      (let e = e\<lparr>eth_buffer := received payload e\<rparr>; len = word_of_nat (length payload) in
       case route_of port of
         Sequenced v \<Rightarrow> do {
           (type, out) \<leftarrow> sequenced_receive port (eth_buffer e) len ?ts (seq e v);
           Some (e\<lparr>seq := (seq e)(v := type)\<rparr>, out)
         }
       | RawArm \<Rightarrow> Some (e, [Send (demuxed_ARM (eth_buffer e) len ?ts)])
       | RawRC \<Rightarrow> Some (e, [Send (demuxed_RC (eth_buffer e) len ?ts)])
       | NoRoute \<Rightarrow> Some (e, []))"
    using assms(3) src
    by (simp add: demux_def copy_datagram_def received_def Let_def cong: route.case_cong)
  then show thesis by (intro that [of ?ts]) simp_all
qed

lemma route_ports: "route_of ARM_PORT = RawArm" "route_of GPS_COTS = Sequenced seq_GPS_COTS"
proof -
  show "route_of ARM_PORT = RawArm" by code_simp
  show "route_of GPS_COTS = Sequenced seq_GPS_COTS" by code_simp
qed

text \<open>A datagram of the arming tool goes to the rocket manager.\<close>

lemma tool_turn:
  assumes "calls_as_listed (glue env)" and "fc_inv s" and "from_port ARM_PORT payload a"
    and "payload \<noteq> []" and "length payload \<le> ETH_MTU"
    and "arm_raw_in (fc_arm s) (received payload (fc_eth s)) (word_of_nat (length payload)) = Some (arm', acts)"
  shows "fc_step env s (EthReadable a) = (case perform 2 env acts
      (s\<lparr>fc_eth := (fc_eth s)\<lparr>eth_buffer := received payload (fc_eth s)\<rparr>, fc_arm := arm'\<rparr>) of
    Inl x \<Rightarrow> None | Inr y \<Rightarrow> Some y)"
proof -
  have inv: "eth_inv (fc_eth s)" using assms(2) by (simp add: fc_inv_def)
  obtain ts where "demux (start_time env) (fc_eth s) a =
      Some ((fc_eth s)\<lparr>eth_buffer := received payload (fc_eth s)\<rparr>,
        [Send (demuxed_ARM (received payload (fc_eth s)) (word_of_nat (length payload)) ts)])"
    by (rule demux_datagram [OF inv assms(3-5), where start = "start_time env"]) (simp add: route_ports Let_def)
  with assms(1,6) show ?thesis
    by (auto simp: settle_def NESTING_def numeral_3_eq_3 numeral_2_eq_2 perform.simps
        call_receivers.simps calls_as_listed_def split: sum.split)
qed

lemma perform_writes: "\<forall>x\<in>set out. log_allowed x \<Longrightarrow> perform n env out s = Inr (s, out)"
  by (rule perform_writes_only) (auto simp: list_all_iff elim!: log_allowed.elims)

text \<open>What a message adds to the log: one entry, which waits in the buffers or is flushed with the others.\<close>

lemma log_step_entry:
  assumes "holds l xs" and "log_admissible e" and "e \<noteq> LogTimer"
  obtains l' gs y ws where "log_step clk l e = Some (l', group_out (sequence l) gs)"
    and "advances l xs gs [y] l' ws" and "records e y"
  using log_step_ok [OF assms(1,2), of clk] assms(3) by auto

lemma advances_holds: "advances l xs gs ys l' ws \<Longrightarrow> holds l' ws"
  by (simp add: advances_def)

lemma advances_allowed: "advances l xs gs ys l' ws \<Longrightarrow> \<forall>x\<in>set (group_out n gs). log_allowed x"
  using group_out_promised by (auto simp: advances_def)

text \<open>A step of the logger, written out.\<close>

lemma log_step_done:
  assumes "log_inv l" and "log_admissible e"
  obtains l' out where "log_step clk l e = Some (l', out)" and "log_inv l'"
    and "\<forall>x\<in>set out. log_allowed x"
  using logger.step_ok [OF assms, of clk] by blast

section \<open>Commands to the servos\<close>

lemma double_of_angle [simp]:
  "angle (roll_message clk k d dis) = double_bits d"
  "disable (roll_message clk k d dis) = (if dis then 1 else 0)"
  by (simp_all add: roll_message_def)

lemma written_servo_group [simp]: "written RollServoSocket (group_out n gs) = []"
  by (induction n gs rule: group_out.induct) simp_all

text \<open>The entry for a command to the servos.\<close>

definition servo_entry :: "ROLLMessage \<Rightarrow> entry" where
  "servo_entry m = ((chars (take 4 (roll_ID m)), take 6 (roll_timestamp m), be64 (angle m) @ [disable m]), True)"

text \<open>A command with a valid angle reaches the servo board, and then the log.\<close>

lemma dispatch_servo:
  assumes l: "holds (fc_log s) xs" and m: "servo_message_ok m" and a: "double_of_bits (angle m) = Some d"
  obtains l' gs ws where "advances (fc_log s) xs gs [servo_entry m] l' ws"
    and "call_receivers n env [RS_rs_receive_adj, LOG_log_receive_rc] (rc_send_servo m) s =
      Inr (s\<lparr>fc_rs := fc_rs s + 1, fc_log := l'\<rparr>,
           Write RollServoSocket (servo_packet (fc_rs s) (ticks_of d) (disable m)) #
           group_out (sequence (fc_log s)) gs)"
proof -
  have "-15 \<le> d" "d \<le> 15" using m a by (auto simp: servo_message_ok_def)
  from raw_ticks_range [OF this] have r: "-1 < raw_ticks d" "raw_ticks d < 65536" by simp_all
  have "log_admissible (LogRC m)" using m by (simp add: servo_message_ok_def)
  then obtain l' gs y ws
    where "log_step (logger_clock env) (fc_log s) (LogRC m) = Some (l', group_out (sequence (fc_log s)) gs)"
      "advances (fc_log s) xs gs [y] l' ws" "records (LogRC m) y"
    by (rule log_step_entry [OF l, of _ "logger_clock env"]) simp_all
  then have 1: "log_step (logger_clock env) (fc_log s) (LogRC m) = Some (l', group_out (sequence (fc_log s)) gs)"
    "advances (fc_log s) xs gs [servo_entry m] l' ws" by (simp_all add: servo_entry_def)
  then obtain m' where "log_receive_rc (logger_clock env) (fc_log s) m =
      Some (l', group_out (sequence (fc_log s)) gs, m')"
    by (auto simp: Option.bind_eq_Some_conv)
  then have "call_receivers n env [RS_rs_receive_adj, LOG_log_receive_rc] (rc_send_servo m) s =
      Inr (s\<lparr>fc_rs := fc_rs s + 1, fc_log := l'\<rparr>,
           Write RollServoSocket (servo_packet (fc_rs s) (ticks_of d) (disable m)) #
           group_out (sequence (fc_log s)) gs)"
    using rs_receive_adj_eq [OF a r] advances_allowed [OF 1(2)]
    by (simp add: call_receivers.simps perform.simps perform_writes)
  with 1(2) that show thesis by blast
qed

lemma be_of_0: "be_of n 0 = replicate n 0"
  by (induction n) simp_all

lemma ticks_of_0: "ticks_of 0 = 25202"
  by (simp add: ticks_of_def raw_ticks_at)

lemma safe_command:
  assumes "length rest = 1495"
  shows "arm_command (chars ''#SAFE'' @ rest) 5 = SAFE"
  by (simp add: arm_command_def matches_def cstring_def chars_def of_char_def)

text \<open>A disarming datagram, step by step.\<close>

lemma safe_datagram:
  assumes "calls_as_listed (glue env)" and "fc_inv s" and "from_port ARM_PORT (chars ''#SAFE'') a"
    and "holds (fc_log s) xs"
  obtains t gs ws ts where "fc_step env s (EthReadable a) = Some (t,
      Write RollServoSocket (be32 (fc_rs s) @ be16 25202 @ [1]) # group_out (sequence (fc_log s)) gs @
      [Write ArmSocket (chars ''successful SAFE'')])"
    and "advances (fc_log s) xs gs
      [((chars ''ROLL'', get_psas_time (rc_clock env) (rc_reads (fc_rc s)), replicate 8 0 @ [1]), True),
       ((chars ''MESG'', ts, chars ''SAFE''), True)] (fc_log t) ws"
    and "\<not> armed (fc_rc t)" and "\<not> enable_servo (fc_rc t)"
proof -
  let ?p = "chars ''#SAFE''" and ?acts = "[Send (arm_send_signal ''SAFE''), Write ArmSocket (chars ''successful SAFE'')]"
  define b where "b = received ?p (fc_eth s)"
  have p: "?p \<noteq> []" "length ?p \<le> ETH_MTU" by (simp_all add: chars_def ETH_MTU_def)
  have len: "length (drop 5 (eth_buffer (fc_eth s))) = 1495"
    using assms(2) by (simp add: fc_inv_def eth_inv_def ETH_MTU_def)
  have b: "b = ?p @ drop 5 (eth_buffer (fc_eth s))"
    by (simp add: b_def received_def numeral_eq_Suc)
  have "arm_raw_in (fc_arm s) (received ?p (fc_eth s)) (word_of_nat (length ?p)) = Some (fc_arm s, ?acts)"
    using safe_command [OF len] len by (simp add: arm_raw_in b b_def [symmetric])
  note turn = tool_turn [OF assms(1-3) p this, folded b_def]
  let ?e = "(fc_eth s)\<lparr>eth_buffer := b\<rparr>"
  let ?c = "(fc_rc s)\<lparr>armed := False, enable_servo := False, rc_reads := rc_reads (fc_rc s) + 1\<rparr>"
  let ?m = "roll_message (rc_clock env) (rc_reads (fc_rc s)) 0 True"
  let ?s = "s\<lparr>fc_eth := ?e, fc_rc := ?c\<rparr>" and ?n = "sequence (fc_log s)"
  have l: "holds (fc_log ?s) xs" using assms(4) by simp
  have a0: "double_of_bits (angle ?m) = Some 0" using double_of_canard_bits [of 0] by simp
  have m: "disable ?m = 1" "fc_rs ?s = fc_rs s" "fc_log ?s = fc_log s" by simp_all
  obtain l1 gs1 ws1 where 1: "advances (fc_log s) xs gs1 [servo_entry ?m] l1 ws1"
    "call_receivers 0 env [RS_rs_receive_adj, LOG_log_receive_rc] (rc_send_servo ?m) ?s =
      Inr (?s\<lparr>fc_rs := fc_rs s + 1, fc_log := l1\<rparr>,
           Write RollServoSocket (servo_packet (fc_rs s) 25202 1) # group_out ?n gs1)"
    by (rule dispatch_servo [OF l servo_message_ok_0 a0, of 0 env]) (simp only: m ticks_of_0)
  obtain l2 gs2 y ws where 2: "log_receive_arm (logger_clock env) l1 ''SAFE'' = Some (l2, group_out (sequence l1) gs2)"
    "advances l1 ws1 gs2 [y] l2 ws" "records (LogArm ''SAFE'') y"
    by (rule log_step_entry [OF advances_holds [OF 1(1)], of "LogArm ''SAFE''" "logger_clock env"]) simp_all
  note adv = advances_trans [OF 1(1) 2(2)]
  have c: "rc_receive_arm (rc_clock env) (fc_rc s) ''SAFE'' = (?c, [Send (rc_send_servo ?m)])"
    by (simp add: rc_receive_arm_eq)
  have "perform 1 env [Send (rc_send_servo ?m)] ?s = Inr (?s\<lparr>fc_rs := fc_rs s + 1, fc_log := l1\<rparr>,
      Write RollServoSocket (servo_packet (fc_rs s) 25202 1) # group_out ?n gs1)"
    using 1(2) assms(1) by (simp add: perform.simps calls_as_listed_def)
  then have "call_receivers 1 env [RC_rc_receive_arm, LOG_log_receive_arm] (arm_send_signal ''SAFE'') (s\<lparr>fc_eth := ?e\<rparr>) =
      Inr (?s\<lparr>fc_rs := fc_rs s + 1, fc_log := l2\<rparr>,
        Write RollServoSocket (servo_packet (fc_rs s) 25202 1) # group_out ?n gs1 @ group_out (sequence l1) gs2)"
    using c 2(1) perform_writes [OF advances_allowed [OF 2(2)]] by (simp add: call_receivers.simps)
  then have "perform 2 env ?acts (s\<lparr>fc_eth := ?e\<rparr>) =
      Inr (?s\<lparr>fc_rs := fc_rs s + 1, fc_log := l2\<rparr>,
        (Write RollServoSocket (servo_packet (fc_rs s) 25202 1) # group_out ?n (gs1 @ gs2)) @
        [Write ArmSocket (chars ''successful SAFE'')])"
    using assms(1) by (simp add: perform.simps numeral_2_eq_2 calls_as_listed_def adv(2))
  then have st: "fc_step env s (EthReadable a) =
      Some (?s\<lparr>fc_rs := fc_rs s + 1, fc_log := l2\<rparr>,
        Write RollServoSocket (be32 (fc_rs s) @ be16 25202 @ [1]) # group_out ?n (gs1 @ gs2) @
        [Write ArmSocket (chars ''successful SAFE'')])"
    using turn by (simp add: servo_packet_def del: fc_step.simps)
  have zero: "be64 (double_bits 0) = replicate 8 0"
    by (simp add: double_bits_def be64_def be_of_0)
  have "servo_entry ?m = ((chars ''ROLL'', get_psas_time (rc_clock env) (rc_reads (fc_rc s)), replicate 8 0 @ [1]), True)"
    using zero by (simp add: servo_entry_def roll_message_def)
  moreover obtain mts where "y = ((chars ''MESG'', mts, chars ''SAFE''), True)" using 2(3) by auto
  ultimately show thesis using that [OF st, of mts ws] adv(1) by simp
qed

text \<open>
  C9: disarming takes effect at once. Whenever the program gets a datagram \<open>#SAFE\<close> from the port
  of the arming tool, then within the same turn of the main loop the servo board is sent one packet
  with the disabling flag and the pulse width for angle 0, 25202 ticks, and the tool gets its answer. The
  logger takes up exactly two records, for the file and the ground: the command to the servos and the
  signal. They wait in its buffers after the records \<open>xs\<close> that waited before, or are written with them,
  in groups \<open>gs\<close>; nothing else is sent. Afterwards the controller is disarmed and its servos are
  disabled. This holds in every state that satisfies the invariant of the program, which has such \<open>xs\<close>.
\<close>

theorem safe_datagram_disables:
  assumes "calls_as_listed (glue env)" and "fc_inv s" and "from_port ARM_PORT (chars ''#SAFE'') a"
    and "holds (fc_log s) xs"
  shows "\<exists>t gs ws ts. fc_step env s (EthReadable a) = Some (t,
      Write RollServoSocket (be32 (fc_rs s) @ be16 25202 @ [1]) # group_out (sequence (fc_log s)) gs @
      [Write ArmSocket (chars ''successful SAFE'')]) \<and>
    advances (fc_log s) xs gs
      [((chars ''ROLL'', get_psas_time (rc_clock env) (rc_reads (fc_rc s)), replicate 8 0 @ [1]), True),
       ((chars ''MESG'', ts, chars ''SAFE''), True)] (fc_log t) ws \<and>
    \<not> armed (fc_rc t) \<and> \<not> enable_servo (fc_rc t)"
  by (rule safe_datagram [OF assms]) blast

definition safe_arrival :: arrival where
  "safe_arrival = \<lparr>incoming = Datagram (chars ''#SAFE'')
       \<lparr>sin_port = bswap16 ARM_PORT, sin_addr = 0\<rparr> [], stale_info = \<lparr>sin_port = 0, sin_addr = 0\<rparr>,
     stale_ts = \<lparr>tv_sec = 0, tv_nsec = 0\<rparr>\<rparr>"

lemma holds_start: "holds (fc_log (fc_start senv)) []"
  using holds_static [of 0] by (simp add: fc_start_def log_static_def)

lemma safe_datagram_disables_witness:
  "\<exists>t gs ws ts. fc_step plain_env (fc_start env0) (EthReadable safe_arrival) = Some (t,
      Write RollServoSocket (be32 0 @ be16 25202 @ [1]) # group_out 0 gs @
      [Write ArmSocket (chars ''successful SAFE'')]) \<and>
    concat (map snd gs) @ ws =
      [((chars ''ROLL'', get_psas_time (rc_clock plain_env) 0, replicate 8 0 @ [1]), True),
       ((chars ''MESG'', ts, chars ''SAFE''), True)] \<and> holds (fc_log t) ws"
proof -
  have "from_port ARM_PORT (chars ''#SAFE'') safe_arrival"
    by (simp add: from_port_def safe_arrival_def)
  moreover have "fc_rs (fc_start env0) = 0" "sequence (fc_log (fc_start env0)) = 0" "rc_reads (fc_rc (fc_start env0)) = 0"
    by (simp_all add: fc_start_def log_static_def rollcontrol_init_def set_armed_def set_servo_enable_def
        udp_socket_def Let_def env0_def rc_static_def)
  ultimately obtain t gs ws ts where 1: "fc_step plain_env (fc_start env0) (EthReadable safe_arrival) = Some (t,
      Write RollServoSocket (be32 0 @ be16 25202 @ [1]) # group_out 0 gs @
      [Write ArmSocket (chars ''successful SAFE'')])"
    and 2: "advances (fc_log (fc_start env0)) [] gs
      [((chars ''ROLL'', get_psas_time (rc_clock plain_env) 0, replicate 8 0 @ [1]), True),
       ((chars ''MESG'', ts, chars ''SAFE''), True)] (fc_log t) ws"
    using safe_datagram_disables [OF plain_env_glue fc_inv_start _ holds_start, of safe_arrival env0] by metis
  from 2 have "concat (map snd gs) @ ws =
      [((chars ''ROLL'', get_psas_time (rc_clock plain_env) 0, replicate 8 0 @ [1]), True),
       ((chars ''MESG'', ts, chars ''SAFE''), True)]" and "holds (fc_log t) ws"
    unfolding advances_def by (simp_all only: append_Nil)
  with 1 show ?thesis by blast
qed

text \<open>The angle that the swapped bytes of 15 degrees denote.\<close>

lemma raw_ticks_tiny:
  "25202 \<le> raw_ticks (11840 * 2 powi (- 1074))" "raw_ticks (11840 * 2 powi (- 1074)) < 25203"
proof -
  have "(2::rat) powi (- 1074) \<le> 2 powi (- 24)" by (simp only: powi_le_iff)
  moreover have "(2::rat) powi (- 24) = 1 / 16777216" by (simp add: power_int_minus field_simps)
  ultimately have "11840 * 2 powi (- 1074) \<le> (1 / 1024 :: rat)" by simp
  moreover have "raw_ticks (1 / 1024) < 25203" by code_simp
  ultimately show "raw_ticks (11840 * 2 powi (- 1074)) < 25203"
    using raw_ticks_mono order_le_less_trans by blast
  show "25202 \<le> raw_ticks (11840 * 2 powi (- 1074))"
    using raw_ticks_mono [of 0 "11840 * 2 powi (- 1074)"] by (simp add: raw_ticks_at)
qed

text \<open>
  The servo driver must be connected before the logger. For a valid command of 15 degrees, the
  receivers in the order of \<open>main.miml\<close> give the servo board the pulse width of 15 degrees; in the other
  order the logger has already swapped the bytes of the angle in the shared message, and the
  servo board is sent the pulse width of angle zero.
\<close>

lemma servo_before_log:
  assumes "log_inv (fc_log s)" and "servo_message_ok m" and "angle m = double_bits 15"
  shows "\<exists>t logs u logs'.
    call_receivers n env (connections (rc_send_servo m)) (rc_send_servo m) s =
      Inr (t, Write RollServoSocket (be32 (fc_rs s) @ be16 31923 @ [disable m]) # logs) \<and>
    call_receivers n env [LOG_log_receive_rc, RS_rs_receive_adj] (rc_send_servo m) s =
      Inr (u, logs' @ [Write RollServoSocket (be32 (fc_rs s) @ be16 25202 @ [disable m])])"
proof -
  have b: "double_bits 15 = 0x402E000000000000" by code_simp
  have a: "double_of_bits (angle m) = Some 15" unfolding assms(3) b by code_simp
  have w: "bswap64 (angle m) = 11840"
    unfolding assms(3) b by (simp add: bytes_simps be_of_numeral of_be_def)
  have "double_of_bits 11840 = Some (11840 * 2 powi (- 1074))" by (simp add: double_of_bits_def)
  with raw_ticks_tiny obtain x
    where x: "double_of_bits 11840 = Some x" "25202 \<le> raw_ticks x" "raw_ticks x < 25203" by blast
  have t: "ticks_of x = 25202"
    using x(2,3) by (simp add: ticks_of_def floor_eq_iff CLAMP_def)
  have t15: "ticks_of 15 = 31923" by (simp add: ticks_of_def raw_ticks_at)
  obtain xs where xs: "holds (fc_log s) xs" using assms(1) by (auto simp: log_inv_def)
  obtain l logs where 1: "call_receivers n env [RS_rs_receive_adj, LOG_log_receive_rc] (rc_send_servo m) s =
      Inr (s\<lparr>fc_rs := fc_rs s + 1, fc_log := l\<rparr>,
           Write RollServoSocket (servo_packet (fc_rs s) 31923 (disable m)) # logs)"
    using dispatch_servo [OF xs assms(2) a, of n env] t15 by metis
  have "log_admissible (LogRC m)" using assms(2) by (simp add: servo_message_ok_def)
  then obtain l' logs'
    where 2: "log_step (logger_clock env) (fc_log s) (LogRC m) = Some (l', logs')"
      "\<forall>x\<in>set logs'. log_allowed x"
    by (rule log_step_done [OF assms(1), of _ "logger_clock env"])
  then have "log_receive_rc (logger_clock env) (fc_log s) m =
      Some (l', logs', m\<lparr>angle := 11840\<rparr>)"
    by (auto simp: Option.bind_eq_Some_conv log_receive_rc_def w)
  moreover have "rs_receive_adj (fc_rs s) (m\<lparr>angle := 11840\<rparr>) = Some (fc_rs s + 1,
      [Write RollServoSocket (servo_packet (fc_rs s) 25202 (disable m))])"
    using rs_receive_adj_eq [of "m\<lparr>angle := 11840\<rparr>" x "fc_rs s"] x by (simp add: t)
  ultimately have "call_receivers n env [LOG_log_receive_rc, RS_rs_receive_adj] (rc_send_servo m) s =
      Inr (s\<lparr>fc_log := l', fc_rs := fc_rs s + 1\<rparr>,
           logs' @ [Write RollServoSocket (servo_packet (fc_rs s) 25202 (disable m))])"
    using 2(2) by (simp add: call_receivers.simps perform.simps perform_writes)
  with 1 show ?thesis by (simp add: servo_packet_def)
qed

section \<open>Errors that cross the modules\<close>

text \<open>A datagram from the GPS with the expected number reaches the parser.\<close>

lemma demux_chunk:
  assumes inv: "eth_inv e" and l: "length body \<le> 512"
    and a: "from_port GPS_COTS (be32 (next_sequence (seq e seq_GPS_COTS)) @ body) a"
  obtains e' p where "demux start e a = Some (e', [Send (demuxed_COTS p)])" and "eth_inv e'"
    and "chunk p = body" and "readable p" and "length (timestamp p) = 6"
proof -
  let ?type = "seq e seq_GPS_COTS"
  let ?n = "next_sequence ?type" and ?len = "word_of_nat (4 + length body) :: u32"
  have "same_type ?type (demux_init seq_GPS_COTS)"
    using inv unfolding eth_inv_def by blast
  from same_type_fields [OF this]
  have type: "dt_data_length ?type = 0" "dt_handler ?type = H_COTS"
    by (simp_all add: mk_demux_type_def)
  have len: "unat ?len = 4 + length body" by (simp only: unat_of_nat) (use l in simp)
  then have ok: "is_expected_length ?type ?len" using type(1) l by (simp add: is_expected_length_def)
  obtain ts where ts: "length ts = 6" and d: "demux start e a =
      (do { (type, out) \<leftarrow> sequenced_receive GPS_COTS (received (be32 ?n @ body) e) ?len ts ?type;
            Some (e\<lparr>eth_buffer := received (be32 ?n @ body) e, seq := (seq e)(seq_GPS_COTS := type)\<rparr>, out) })"
    by (rule demux_datagram [OF inv a, where start = start])
      (use l in \<open>auto simp: ETH_MTU_def route_ports Let_def bytes_simps\<close>)
  define rest where "rest = body @ drop (4 + length body) (eth_buffer e)"
  have b: "received (be32 ?n @ body) e = be32 ?n @ rest" by (simp add: received_def rest_def)
  let ?p = "\<lparr>ID = dt_ID ?type, timestamp = ts, data_length = ucast (?len - 4), data = rest\<rparr>"
  let ?e = "e\<lparr>eth_buffer := be32 ?n @ rest,
    seq := (seq e)(seq_GPS_COTS := ?type\<lparr>next_sequence := ?n + 1\<rparr>)\<rparr>"
  have dm: "demux start e a = Some (?e, [Send (demuxed_COTS ?p)])"
    unfolding d b sequenced_receive_be32 [OF ok] by (simp add: delivery_def type(2))
  moreover have "unat (data_length ?p) = length body"
    using expected_length_cases(1) [OF ok] len by simp
  moreover have "eth_inv ?e" using demux_promised [OF inv, of start a] dm by auto
  ultimately show thesis using ts
    by (intro that [of ?e ?p]) (simp_all add: chunk_def readable_def rest_def)
qed

text \<open>
  C34: a datagram of eleven bytes makes the program leave its memory. When no bytes wait in the GPS
  parser, a datagram from the port of the GPS with the expected number and a Venus frame of length
  zero passes the parser and the filter and faults in the logger, which is told to copy 65535 bytes
  from a buffer of 512 to one of 65536.
\<close>

theorem zero_length_frame_faults:
  assumes "calls_as_listed (glue env)" and "fc_inv s" and "cur (fc_gps s) = 0"
    and "from_port GPS_COTS (be32 (next_sequence (seq (fc_eth s) seq_GPS_COTS)) @
      [0xA0, 0xA1, 0, 0, 0, 0x0D, 0x0A]) a"
  shows "fc_step env s (EthReadable a) = None \<and>
    (\<exists>e acts. demux (start_time env) (fc_eth s) a = Some (e, acts) \<and>
       perform NESTING env acts (s\<lparr>fc_eth := e\<rparr>) = Inl Fault)"
proof -
  have inv: "eth_inv (fc_eth s)" "gps_inv (fc_gps s)" using assms(2) by (simp_all add: fc_inv_def)
  obtain e p where d: "demux (start_time env) (fc_eth s) a = Some (e, [Send (demuxed_COTS p)])"
    and c: "chunk p = [0xA0, 0xA1, 0, 0, 0, 0x0D, 0x0A]" and r: "readable p"
    by (rule demux_chunk [OF inv(1) _ assms(4)]) simp_all
  have f: "chunk p = frame_of []"
    by (simp add: c frame_of_def xor_sum_def be16_def be_of_numeral)
  obtain g dat where g: "cots_raw_in (fc_gps s) p = Some (g, [Send (gps_data_out
      \<lparr>ID = ''V800'', timestamp = timestamp p, data_length = 65535, data = dat\<rparr>)])"
    "length dat < 512"
    using short_frame [OF inv(2) assms(3) r f] by (auto simp: venus_ID_0 GPS_BUF_def)
  let ?q = "\<lparr>ID = ''V800'', timestamp = timestamp p, data_length = 65535, data = dat\<rparr>"
  let ?s = "s\<lparr>fc_eth := e, fc_gps := g\<rparr>"
  have arm: "arm_receive_gps (fc_arm ?s) ?q = Some (fc_arm ?s, [])"
    by (subst arm_receive_gps) (simp_all add: nav_packet_def)
  have filter: "filter_receive ?q = [Send (filter_to_disk ?q)]"
    by (simp add: filter_receive_eq disk_only_def)
  have "log_write_disk_only clk l ''V800'' (timestamp p) 65535 dat = None" for clk l
    using g(2) by (auto simp: log_write_disk_only_def memcpy_from_def Let_def
        split: prod.split option.split Option.bind_split)
  with d g(1) arm filter assms(1) have "perform NESTING env [Send (demuxed_COTS p)] (s\<lparr>fc_eth := e\<rparr>) = Inl Fault"
    by (simp add: NESTING_def numeral_3_eq_3 perform.simps call_receivers.simps calls_as_listed_def)
  with d show ?thesis by (auto simp: settle_def)
qed

text \<open>A first datagram from the GPS.\<close>

definition gps_arrival :: "bytes \<Rightarrow> arrival" where
  "gps_arrival body = \<lparr>incoming = Datagram (be32 0 @ body)
       \<lparr>sin_port = bswap16 GPS_COTS, sin_addr = 0\<rparr> [], stale_info = \<lparr>sin_port = 0, sin_addr = 0\<rparr>,
     stale_ts = \<lparr>tv_sec = 0, tv_nsec = 0\<rparr>\<rparr>"

lemma gps_arrival_start:
  "from_port GPS_COTS (be32 (next_sequence (seq (fc_eth (fc_start senv)) seq_GPS_COTS)) @ body)
    (gps_arrival body)"
  "cur (fc_gps (fc_start senv)) = 0"
  by (simp_all add: from_port_def gps_arrival_def fc_start_def eth_start_def mk_demux_type_def gps_start_def)

lemma zero_length_frame_faults_witness:
  "fc_step plain_env (fc_start env0)
    (EthReadable (gps_arrival [0xA0, 0xA1, 0, 0, 0, 0x0D, 0x0A])) = None"
  using zero_length_frame_faults [OF plain_env_glue fc_inv_start gps_arrival_start(2,1)] by blast

text \<open>
  C35: a fix without a fix. A Venus frame of length one, whose only byte is the type of the
  navigation message, locks the GPS: the receiver does not look at the length of the message and
  takes the checksum of the frame, \<open>0xA8\<close>, for the fix mode.
\<close>

theorem short_frame_locks_gps:
  assumes "calls_as_listed (glue env)" and "fc_inv s" and "cur (fc_gps s) = 0"
    and "from_port GPS_COTS (be32 (next_sequence (seq (fc_eth s) seq_GPS_COTS)) @
      [0xA0, 0xA1, 0, 1, 0xA8, 0xA8, 0x0D, 0x0A]) a"
  shows "\<exists>t out. fc_step env s (EthReadable a) = Some (t, out) \<and> GPS_locked (fc_arm t)"
proof -
  have inv: "eth_inv (fc_eth s)" "gps_inv (fc_gps s)" and l: "log_inv (fc_log s)"
    using assms(2) by (simp_all add: fc_inv_def)
  obtain e p where d: "demux (start_time env) (fc_eth s) a = Some (e, [Send (demuxed_COTS p)])"
    and c: "chunk p = [0xA0, 0xA1, 0, 1, 0xA8, 0xA8, 0x0D, 0x0A]" and r: "readable p"
    and ts: "length (timestamp p) = 6"
    by (rule demux_chunk [OF inv(1) _ assms(4)]) simp_all
  have f: "chunk p = frame_of [0xA8]"
    by (simp add: c frame_of_def xor_sum_def be16_def be_of_numeral)
  have i: "venus_ID 0xA8 = ''V8A8''" by code_simp
  obtain g dat where g: "cots_raw_in (fc_gps s) p = Some (g, [Send (gps_data_out
      \<lparr>ID = ''V8A8'', timestamp = timestamp p, data_length = 0, data = dat\<rparr>)])"
    "2 \<le> length dat" "dat ! 0 = 0xA8"
    using short_frame [OF inv(2) assms(3) r f] by (auto simp: i)
  let ?q = "\<lparr>ID = ''V8A8'', timestamp = timestamp p, data_length = 0, data = dat\<rparr>"
  let ?s = "s\<lparr>fc_eth := e, fc_gps := g\<rparr>"
  have arm: "arm_receive_gps (fc_arm ?s) ?q = Some ((fc_arm s)\<lparr>GPS_locked := True\<rparr>, [])"
    using g(2,3) by (subst arm_receive_gps) (auto simp: nav_packet_def fix_3D_def)
  have filter: "filter_receive ?q = [Send (filter_to_ground ?q)]"
    by (simp add: filter_receive_eq disk_only_def)
  obtain l' logs where w: "log_write (logger_clock env) (fc_log s) ''V8A8'' (timestamp p) 0 dat
      = Some (l', logs)" "\<forall>x\<in>set logs. log_allowed x"
    by (rule log_step_done [OF l, of "LogGround ?q" "logger_clock env"])
      (simp_all add: writable_def ts)
  with d g(1) arm filter assms(1)
  have "fc_step env s (EthReadable a) =
      Some (?s\<lparr>fc_arm := (fc_arm s)\<lparr>GPS_locked := True\<rparr>, fc_log := l'\<rparr>, logs)"
    by (simp add: settle_def NESTING_def numeral_3_eq_3 perform.simps call_receivers.simps
        calls_as_listed_def perform_writes)
  then show ?thesis by simp
qed

lemma short_frame_locks_gps_witness:
  "\<exists>t out. fc_step plain_env (fc_start env0)
      (EthReadable (gps_arrival [0xA0, 0xA1, 0, 1, 0xA8, 0xA8, 0x0D, 0x0A])) = Some (t, out) \<and>
    GPS_locked (fc_arm t)"
  by (rule short_frame_locks_gps [OF plain_env_glue fc_inv_start gps_arrival_start(2,1)])

section \<open>Runs\<close>

lemma fc_start_fields:
  "fc_eth (fc_start senv) = eth_start" "fc_gps (fc_start senv) = gps_start"
  "fc_est (fc_start senv) = state_init est_static"
  by (simp_all add: fc_start_def)

text \<open>
  C1: the program runs without a fault. Connect the senders as \<open>main.miml\<close> says, start from the
  initialisation, and let anything arrive: datagrams of every content, length and origin, timer
  events and answers of the hub. If no datagram of the GPS exceeds 512 bytes, no Venus frame has length
  zero, and the air density is defined for the altitudes the estimation computes, then no module
  leaves its objects. Multiplexer, GPS parser and estimation end in the states they reach on their own,
  every module's invariant holds, every packet to the servo board is numbered, between 18481 and
  31923 ticks and with a flag of 0 or 1, and every datagram to the ground has at most 1432 bytes.
\<close>

theorem run_without_fault:
  assumes "calls_as_listed (glue env)"
    and "\<forall>fd stack r. RnhReadable fd stack r \<in> set es \<longrightarrow> length stack = 50"
    and "run (demux (start_time env)) eth_start (arrivals es) = Some (e, msgs)"
    and "\<forall>p\<in>set (cots_packets msgs). unat (data_length p) \<le> 512"
    and "run cots_raw_in gps_start (cots_packets msgs) = Some (g, frames)"
    and "\<forall>q. Send (gps_data_out q) \<in> set frames \<longrightarrow> data_length q \<noteq> 65535"
    and "run state_receive_imu (state_init est_static) (imu_packets msgs) = Some (x, ests)"
    and "\<forall>i ts k st. Send (state_send_message i ts k st) \<in> set ests \<longrightarrow> dense (c_exp env) st"
  shows "\<exists>t out. run (fc_step env) (fc_start senv) es = Some (t, out) \<and> fc_inv t \<and>
    fc_eth t = e \<and> fc_gps t = g \<and> fc_est t = x \<and>
    (\<forall>bs. Write RollServoSocket bs \<in> set out \<longrightarrow>
       (\<exists>n k d. bs = be32 n @ be16 (word_of_int k) @ [d] \<and> 18481 \<le> k \<and> k \<le> 31923 \<and> (d = 0 \<or> d = 1))) \<and>
    (\<forall>bs. Write LogSocket bs \<in> set out \<longrightarrow> length bs \<le> 1432)"
proof -
  have "\<forall>x\<in>set es. stack_ok x" using assms(2) by (metis stack_ok.elims(3))
  from fc_run_ok [OF fc_inv_start [of senv] assms(1) this, of e msgs g frames x ests] assms(3-8)
  obtain t out where 1: "run (fc_step env) (fc_start senv) es = Some (t, out)" "fc_inv t"
    "\<forall>a\<in>set out. external_ok a" "fc_eth t = e" "fc_gps t = g" "fc_est t = x"
    by (auto simp: frames_ok_def estimates_ok_def fc_start_fields)
  have "external_ok (Write RollServoSocket bs)" if "Write RollServoSocket bs \<in> set out" for bs
    using 1(3) that by blast
  moreover have "external_ok (Write LogSocket bs)" if "Write LogSocket bs \<in> set out" for bs
    using 1(3) that by blast
  ultimately show ?thesis using 1 by (auto simp: servo_bytes_def)
qed

lemma run_without_fault_witness:
  "\<exists>t out. run (fc_step plain_env) (fc_start env0)
      [EthReadable safe_arrival, LogTimeout, RnhReadable 9 (replicate 50 0) (ReadBytes [65])]
      = Some (t, out) \<and> fc_inv t \<and> (\<forall>bs. Write LogSocket bs \<in> set out \<longrightarrow> length bs \<le> 1432)"
proof -
  let ?es = "[EthReadable safe_arrival, LogTimeout, RnhReadable 9 (replicate 50 0) (ReadBytes [65])]"
  have "from_port ARM_PORT (chars ''#SAFE'') safe_arrival"
    by (simp add: from_port_def safe_arrival_def)
  then obtain ts e b where "demux (start_time plain_env) eth_start safe_arrival =
      Some (e, [Send (demuxed_ARM b 5 ts)])"
    by (rule demux_datagram [OF eth_inv_start, where start = "start_time plain_env"])
      (simp_all add: ETH_MTU_def route_ports Let_def chars_def)
  then have "run (demux (start_time plain_env)) eth_start (arrivals ?es) =
      Some (e, [Send (demuxed_ARM b 5 ts)])" by simp
  moreover have "cots_packets [Send (demuxed_ARM b 5 ts)] = []" "imu_packets [Send (demuxed_ARM b 5 ts)] = []"
    by (simp_all add: cots_packets_def imu_packets_def)
  ultimately show ?thesis
    using run_without_fault [OF plain_env_glue, of ?es e "[Send (demuxed_ARM b 5 ts)]" gps_start "[]"
        "state_init est_static" "[]" env0]
    by (simp del: fc_step.simps run.simps add: run.simps(1)) blast
qed

end
