(* ===== verification/Fc_Log_Properties.thy ===== *)
theory Fc_Log_Properties
  imports Fc_Log Fc_Properties
begin

text \<open>
  The log of a run of the whole program: it holds every packet that arrived and every servo command,
  and nothing is made up.
\<close>

section \<open>Runs\<close>

lemma eth_promise_proper: "eth_promise m \<Longrightarrow> proper m"
  by (cases m) (auto simp: packet_shape_def data_ID_def disk_only_def)

lemma fc_step_told:
  assumes "fc_step env s e = Some (t, out)" and glue: "calls_as_listed (glue env)" and "stack_ok e"
    and inv: "eth_inv (fc_eth s)"
  shows "\<exists>msgs ps. run (demux (start_time env)) (fc_eth s) (arrivals [e]) = Some (fc_eth t, msgs) \<and>
    run due (fc_gps s) (sent msgs) = Some (fc_gps t, ps) \<and> told env s t out ps"
proof (cases e)
  case (EthReadable a)
  with assms(1) obtain eth acts where d: "demux (start_time env) (fc_eth s) a = Some (eth, acts)"
    and p: "perform NESTING env acts (s\<lparr>fc_eth := eth\<rparr>) = Inr (t, out)"
    by (auto simp: Option.bind_eq_Some_conv settle_Some)
  have pr: "\<forall>x\<in>set acts. promised eth_promise x" using demux_promised [OF inv, of "start_time env" a] d by auto
  have "\<forall>x\<in>set acts. unlogged x" "\<forall>k. Send k \<in> set acts \<longrightarrow> proper k"
    using pr eth_promise_proper by (force elim: promised.elims)+
  from dispatch_told(2) [OF glue p this] d EthReadable show ?thesis by (fastforce simp: told_def)
next
  case LogTimeout
  with assms(1) obtain l where l: "log_step (logger_clock env) (fc_log s) LogTimer = Some (l, out)"
    "t = s\<lparr>fc_log := l\<rparr>" "list_all to_log out"
    using flush_log_acts [of "logger_clock env" "fc_log s"]
    by (auto simp: log_timeout_def split: prod.splits)
  with told_event [of env s LogTimer t out] LogTimeout show ?thesis by simp
next
  case (RnhReadable fd stack r)
  let ?acts = "fst (version_callback fd stack r)"
  have p: "perform NESTING env ?acts s = Inr (t, out)"
    using assms(1) RnhReadable by (simp add: settle_Some)
  have sends: "?acts = [] \<or> (\<exists>buffer len. ?acts = [Send (rnh_version_out buffer len)] \<and>
      unat len \<le> length buffer \<and> unat len \<le> 1416)"
    using version_callback_answer [of stack fd] assms(3) RnhReadable
    by (cases r) (fastforce simp: version_callback_def)+
  then have "\<forall>x\<in>set ?acts. unlogged x" "\<forall>k. Send k \<in> set ?acts \<longrightarrow> proper k"
    "run due (fc_gps s) (sent ?acts) = Some (fc_gps s, [])" by (auto simp: due_def)
  with dispatch_told(2) [OF glue p] RnhReadable show ?thesis by auto
qed

lemma fc_run_told:
  assumes "run (fc_step env) s es = Some (t, out)" and glue: "calls_as_listed (glue env)"
    and "\<forall>e\<in>set es. stack_ok e" and "eth_inv (fc_eth s)"
  shows "\<exists>msgs ps. run (demux (start_time env)) (fc_eth s) (arrivals es) = Some (fc_eth t, msgs) \<and>
    run due (fc_gps s) (sent msgs) = Some (fc_gps t, ps) \<and> told env s t out ps"
  using assms(1,3,4)
proof (induction es arbitrary: s out)
  case Nil
  then show ?case by (simp add: told_nothing)
next
  case (Cons e es)
  then obtain u o1 o2 where 1: "fc_step env s e = Some (u, o1)"
    and 2: "run (fc_step env) u es = Some (t, o2)" and out: "out = o1 @ o2"
    by (auto simp: run_Cons_Some simp del: run.simps fc_step.simps)
  from fc_step_told [OF 1 glue] Cons.prems(2,3) obtain m1 p1
    where a: "run (demux (start_time env)) (fc_eth s) (arrivals [e]) = Some (fc_eth u, m1)"
    "run due (fc_gps s) (sent m1) = Some (fc_gps u, p1)" "told env s u o1 p1" by auto
  have "eth_inv (fc_eth u)"
    using eth.run_ok [OF Cons.prems(3), of "arrivals [e]" "start_time env"] a(1) by auto
  from Cons.IH [OF 2 _ this] Cons.prems(2) obtain m2 p2
    where b: "run (demux (start_time env)) (fc_eth u) (arrivals es) = Some (fc_eth t, m2)"
    "run due (fc_gps u) (sent m2) = Some (fc_gps t, p2)" "told env u t o2 p2" by auto
  have "arrivals (e # es) = arrivals [e] @ arrivals es" by (cases e) simp_all
  with a b told_trans [OF a(3) b(3)] out show ?case
    by (intro exI [of _ "m1 @ m2"] exI [of _ "p1 @ p2"]) (simp add: run_append del: arrivals.simps)
qed

section \<open>Records\<close>

definition packet_record :: "packet \<Rightarrow> log_record" where
  "packet_record p = record_of (ID p) (timestamp p) (data_length p) (data p)"

definition command_record :: "ROLLMessage \<Rightarrow> log_record" where
  "command_record m = (chars ''ROLL'', roll_timestamp m, be64 (angle m) @ [disable m])"

text \<open>The records that are packets, and those that are servo commands.\<close>

definition is_data :: "log_record \<Rightarrow> bool" where
  "is_data r \<longleftrightarrow> fst r \<notin> chars ` {''SEQN'', ''MESG'', ''ROLL'', ''VERS''}"

definition is_command :: "log_record \<Rightarrow> bool" where
  "is_command r \<longleftrightarrow> fst r = chars ''ROLL''"

lemma packet_record_kind:
  "data_ID (ID p) \<Longrightarrow> is_data (packet_record p) \<and> \<not> is_command (packet_record p)"
  by (auto simp: is_data_def is_command_def data_ID_def packet_record_def record_of_def)

lemma other_kinds [simp]:
  "\<not> is_data (seqn ts n)" "\<not> is_command (seqn ts n)"
  "\<not> is_data (chars ''MESG'', x)" "\<not> is_command (chars ''MESG'', x)"
  "\<not> is_data (chars ''VERS'', x)" "\<not> is_command (chars ''VERS'', x)"
  "\<not> is_data (command_record m)" "is_command (command_record m)"
  by (simp_all add: is_data_def is_command_def seqn_def command_record_def)

text \<open>What one event records.\<close>

lemma records_kind:
  assumes "records e x" and "proper_event e"
  shows "filter (is_data \<circ> fst) [x] = map (\<lambda>p. (packet_record p, \<not> disk_only (ID p))) (packets_in [e]) \<and>
    filter (is_command \<circ> fst) [x] = map (\<lambda>m. (command_record m, True)) (commands_in [e])"
  using assms packet_record_kind
  by (cases e) (auto simp: packets_in_def commands_in_def packet_record_def command_record_def
      roll_shape_def is_data_def is_command_def)

lemma records_kinds:
  assumes "list_all2 records (filter (\<lambda>e. e \<noteq> LogTimer) es) ys" and "\<forall>e\<in>set es. proper_event e"
  shows "filter (is_data \<circ> fst) ys = map (\<lambda>p. (packet_record p, \<not> disk_only (ID p))) (packets_in es) \<and>
    filter (is_command \<circ> fst) ys = map (\<lambda>m. (command_record m, True)) (commands_in es)"
  using assms
proof (induction es arbitrary: ys)
  case (Cons e es)
  have split: "packets_in (e # es) = packets_in [e] @ packets_in es"
    "commands_in (e # es) = commands_in [e] @ commands_in es"
    using events_simps(2,4) [of "[e]" es] by simp_all
  show ?case
  proof (cases "e = LogTimer")
    case True
    with Cons show ?thesis by simp
  next
    case False
    with Cons.prems obtain x xs where ys: "ys = [x] @ xs" and "records e x"
      and "list_all2 records (filter (\<lambda>e. e \<noteq> LogTimer) es) xs" by (auto simp: list_all2_Cons1)
    have "proper_event e" "\<forall>e\<in>set es. proper_event e" using Cons.prems(2) by simp_all
    note one = records_kind [OF \<open>records e x\<close> this(1)] and rest = Cons.IH [OF _ this(2)]
    with \<open>list_all2 records _ xs\<close> show ?thesis
      unfolding ys split filter_append map_append by (simp only: one rest simp_thms)
  qed
qed simp

section \<open>What the logger accepted\<close>

text \<open>An event that the logger survives is one that fits.\<close>

lemma log_step_given:
  assumes "log_step clk s e = Some x" and "proper_event e" and "holds s xs"
  shows "log_admissible e"
proof (cases e)
  case (LogGround p)
  with assms show ?thesis using log_write_given [OF _ assms(3)] by (auto simp: data_ID_def)
next
  case (LogDiskOnly p)
  with assms show ?thesis using log_write_disk_only_given [OF _ holdsD(2) [OF assms(3)]]
    by (auto simp: data_ID_def)
qed (use assms(2) in \<open>auto simp: roll_shape_def\<close>)

lemma log_run_given:
  assumes "run (log_step clk) s es = Some x" and "\<forall>e\<in>set es. proper_event e" and "holds s xs"
  shows "\<forall>e\<in>set es. log_admissible e"
  using assms
proof (induction es arbitrary: s xs x)
  case (Cons e es)
  then obtain t o1 where t: "log_step clk s e = Some (t, o1)" by (auto simp: Option.bind_eq_Some_conv)
  have e: "log_admissible e" using log_step_given [OF t _ Cons.prems(3)] Cons.prems(2) by simp
  obtain ys where "holds t ys"
    using log_step_ok [OF Cons.prems(3) e, of clk] t by (auto simp: advances_def)
  moreover obtain y where "run (log_step clk) t es = Some y"
    using Cons.prems(1) t by (auto simp: Option.bind_eq_Some_conv)
  ultimately show ?case using Cons.IH Cons.prems(2) e by auto
qed simp

lemma written_to_log:
  "c = LogFile \<or> c = LogSocket \<Longrightarrow> written c (filter to_log out) = written c out"
proof (induction out)
  case (Cons x out)
  then show ?case by (cases x) auto
qed simp

text \<open>
  The log behind a stretch of the program that starts with the buffers empty and ends with a flush:
  the groups of entries written, whose records are those of the packets and of the commands.
\<close>

lemma told_log:
  assumes "told env s t out ps" and "fc_log s = log_static"
  obtains u logs gs ys where "log_timeout (logger_clock env) (fc_log t) = (u, logs)"
    and "filter to_log (out @ logs) = group_out 0 gs" and "\<forall>g\<in>set gs. ok_group g"
    and "concat (map snd gs) = ys"
    and "filter (is_data \<circ> fst) ys = map (\<lambda>p. (packet_record p, \<not> disk_only (ID p))) ps"
    and "list_all2 (\<lambda>bs r. \<exists>m. driven m bs \<and> r = (command_record m, True))
      (written RollServoSocket (out @ logs)) (filter (is_command \<circ> fst) ys)"
proof -
  let ?clk = "logger_clock env"
  obtain es where es: "run (log_step ?clk) log_static es = Some (fc_log t, filter to_log out)"
    "\<forall>e\<in>set es. proper_event e" "packets_in es = ps"
    "list_all2 driven (commands_in es) (written RollServoSocket out)"
    using assms by (auto simp: told_def)
  have static: "log_static\<lparr>sequence := 0\<rparr> = log_static" by (simp add: log_static_def)
  then have "holds log_static []" using holds_static [of 0] by simp
  then have "\<forall>e\<in>set es. log_admissible e" using log_run_given [OF es(1,2)] by blast
  then obtain u gs ys where r: "run (log_step ?clk) log_static (es @ [LogTimer]) = Some (u, group_out 0 gs)"
    "concat (map snd gs) = ys" "\<forall>g\<in>set gs. ok_group g"
    "list_all2 records (filter (\<lambda>e. e \<noteq> LogTimer) es) ys"
    using log_run_flushed [of es ?clk 0] static by metis
  obtain logs where f: "log_timeout ?clk (fc_log t) = (u, logs)" "filter to_log out @ logs = group_out 0 gs"
    using r(1) es(1) by (auto simp: run_append split: prod.splits)
  have "list_all to_log logs"
    using flush_log_acts [of ?clk "fc_log t"] f(1) by (simp add: log_timeout_def)
  then have logs: "filter to_log logs = logs" "written RollServoSocket logs = []"
    by (simp add: list_all_iff, induction logs rule: list.induct) (auto elim!: to_log.elims)
  note k = records_kinds [OF r(4) es(2)]
  have "list_all2 (\<lambda>bs r. \<exists>m. driven m bs \<and> r = (command_record m, True))
      (written RollServoSocket (out @ logs)) (filter (is_command \<circ> fst) ys)"
    using es(4) logs(2) unfolding k [THEN conjunct2]
    by (auto simp: list_all2_conv_all_nth)
  with that [OF f(1) _ r(3,2)] f(2) logs(1) k es(3) show thesis by simp
qed

section \<open>The file and the ground\<close>

definition decoded :: "bytes \<Rightarrow> log_record list option" where
  "decoded bs = decode_all (length bs) dec_record bs"

definition file_contents :: "action list \<Rightarrow> bytes" where
  "file_contents out = concat (written LogFile out)"

text \<open>The datagrams without their numbers.\<close>

definition ground_contents :: "action list \<Rightarrow> bytes" where
  "ground_contents out = concat (map (drop 4) (written LogSocket out))"

lemma file_records_filter:
  assumes "\<And>ts k. \<not> P (seqn ts k)"
  shows "filter P (file_records n gs) = map fst (filter (P \<circ> fst) (concat (map snd gs)))"
  using assms by (induction n gs rule: file_records.induct) (simp_all add: filter_map)

lemma ground_contents_groups:
  "concat (map (drop 4) (written LogSocket (group_out n gs))) =
    concat (map enc_record (map fst (filter snd (concat (map snd gs)))))"
  by (induction n gs rule: group_out.induct) (simp_all add: net_image_def)

lemma decoded_contents:
  assumes "filter to_log out = group_out 0 gs" and "\<forall>g\<in>set gs. ok_group g"
  shows "decoded (file_contents out) = Some (file_records 0 gs)"
    and "decoded (ground_contents out) = Some (map fst (filter snd (concat (map snd gs))))"
proof -
  have w: "written c out = written c (group_out 0 gs)" if "c = LogFile \<or> c = LogSocket" for c
    using written_to_log [OF that, of out] assms(1) by simp
  have "\<forall>r\<in>set (map fst (filter snd (concat (map snd gs)))). valid_record r"
    using assms(2) by (fastforce simp: ok_group_def)
  with log_record.decode_whole [OF this] log_record.decode_whole [OF file_records_valid [OF assms(2)], of 0]
  show "decoded (file_contents out) = Some (file_records 0 gs)"
    "decoded (ground_contents out) = Some (map fst (filter snd (concat (map snd gs))))"
    by (simp_all add: decoded_def file_contents_def ground_contents_def w written_group_out(1)
        ground_contents_groups del: map_map)
qed

text \<open>A run from the start, and the flush at its end.\<close>

lemma fc_run_log:
  assumes run: "run (fc_step env) (fc_start senv) es = Some (s, out)"
    and glue: "calls_as_listed (glue env)" and "\<forall>e\<in>set es. stack_ok e"
    and d: "run (demux (start_time env)) eth_start (arrivals es) = Some (e, msgs)"
  obtains t logs ps rs gr where "run (fc_step env) (fc_start senv) (es @ [LogTimeout]) = Some (t, out @ logs)"
    and "run due gps_start (sent msgs) = Some (fc_gps s, ps)"
    and "decoded (file_contents (out @ logs)) = Some rs" and "decoded (ground_contents (out @ logs)) = Some gr"
    and "filter is_data rs = map packet_record ps"
    and "filter is_data gr = map packet_record (filter (\<lambda>p. \<not> disk_only (ID p)) ps)"
    and "list_all2 (\<lambda>bs r. \<exists>m. driven m bs \<and> r = command_record m)
      (written RollServoSocket (out @ logs)) (filter is_command rs)"
proof -
  have start: "fc_eth (fc_start senv) = eth_start" "fc_gps (fc_start senv) = gps_start"
    "fc_log (fc_start senv) = log_static" by (simp_all add: fc_start_def)
  from fc_run_told [OF run glue assms(3)] d obtain ps
    where ps: "run due gps_start (sent msgs) = Some (fc_gps s, ps)" "told env (fc_start senv) s out ps"
    by (auto simp: start eth_inv_start)
  obtain u logs gs ys where f: "log_timeout (logger_clock env) (fc_log s) = (u, logs)"
    "filter to_log (out @ logs) = group_out 0 gs" "\<forall>g\<in>set gs. ok_group g" "concat (map snd gs) = ys"
    "filter (is_data \<circ> fst) ys = map (\<lambda>p. (packet_record p, \<not> disk_only (ID p))) ps"
    "list_all2 (\<lambda>bs r. \<exists>m. driven m bs \<and> r = (command_record m, True))
      (written RollServoSocket (out @ logs)) (filter (is_command \<circ> fst) ys)"
    by (rule told_log [OF ps(2) start(3)])
  let ?rs = "file_records 0 gs" and ?gr = "map fst (filter snd ys)"
  have "run (fc_step env) (fc_start senv) (es @ [LogTimeout]) = Some (s\<lparr>fc_log := u\<rparr>, out @ logs)"
    using run f(1) by (simp add: run_append)
  moreover note ps(1) decoded_contents [OF f(2,3), unfolded f(4)]
  moreover have "filter is_data ?rs = map packet_record ps"
    using file_records_filter [of is_data 0 gs] f(4,5) by simp
  moreover have "filter is_data ?gr = map packet_record (filter (\<lambda>p. \<not> disk_only (ID p)) ps)"
  proof -
    have "filter is_data ?gr = map fst (filter snd (filter (is_data \<circ> fst) ys))"
      by (simp add: filter_map conj_commute)
    then show ?thesis by (simp only: f(5)) (simp add: filter_map comp_def)
  qed
  moreover have "list_all2 (\<lambda>bs r. \<exists>m. driven m bs \<and> r = command_record m)
      (written RollServoSocket (out @ logs)) (filter is_command ?rs)"
  proof -
    have "filter is_command ?rs = map fst (filter (is_command \<circ> fst) ys)"
      using file_records_filter [of is_command 0 gs] f(4) by simp
    then show ?thesis using f(6) by (auto simp: list_all2_map2 elim!: list_all2_mono)
  qed
  ultimately show thesis by (rule that)
qed

section \<open>Properties\<close>

lemma fc_run_recorded:
  assumes "calls_as_listed (glue env)"
    and "\<forall>fd stack r. RnhReadable fd stack r \<in> set es \<longrightarrow> length stack = 50"
    and "run (demux (start_time env)) eth_start (arrivals es) = Some (e, msgs)"
    and "\<forall>p\<in>set (cots_packets msgs). unat (data_length p) \<le> 512"
    and "run cots_raw_in gps_start (cots_packets msgs) = Some (g, frames)"
    and "\<forall>q. Send (gps_data_out q) \<in> set frames \<longrightarrow> data_length q \<noteq> 65535"
    and "run state_receive_imu (state_init est_static) (imu_packets msgs) = Some (x, ests)"
    and "\<forall>i ts k st. Send (state_send_message i ts k st) \<in> set ests \<longrightarrow> dense (c_exp env) st"
  obtains t out ps rs gr where "run (fc_step env) (fc_start senv) (es @ [LogTimeout]) = Some (t, out)"
    and "run due gps_start (sent msgs) = Some (g, ps)"
    and "decoded (file_contents out) = Some rs" and "decoded (ground_contents out) = Some gr"
    and "filter is_data rs = map packet_record ps"
    and "filter is_data gr = map packet_record (filter (\<lambda>p. \<not> disk_only (ID p)) ps)"
    and "list_all2 (\<lambda>bs r. \<exists>m. driven m bs \<and> r = command_record m)
      (written RollServoSocket out) (filter is_command rs)"
proof -
  have ok: "\<forall>x\<in>set es. stack_ok x" using assms(2) by (metis stack_ok.elims(3))
  from fc_run_ok [OF fc_inv_start [of senv] assms(1) ok, of e msgs g frames x ests] assms(3-8)
  obtain s out where 1: "run (fc_step env) (fc_start senv) es = Some (s, out)" "fc_gps s = g"
    by (auto simp: frames_ok_def estimates_ok_def fc_start_fields)
  show thesis by (rule fc_run_log [OF 1(1) assms(1) ok assms(3)]) (rule that, simp_all add: 1(2) del: written_simps)
qed

text \<open>
  C2: everything that arrives is logged, and nothing else. Under the conditions that exclude faults, let
  anything arrive in any order, and let the timer of the logger fire at the end. The log file and the
  datagrams to the ground decode completely. Their records that are not the logger's own (\<open>SEQN\<close>, \<open>MESG\<close>,
  \<open>ROLL\<close>, \<open>VERS\<close>) are, in the file, exactly the packets due, each once, whole and in order of arrival: the
  datagrams of the sensors that the multiplexer accepted, its sequence errors, and in the place of
  each chunk of the GPS the frames that end in it. On the ground they are the same without the raw
  GPS data.
\<close>

theorem packets_logged:
  assumes "calls_as_listed (glue env)"
    and "\<forall>fd stack r. RnhReadable fd stack r \<in> set es \<longrightarrow> length stack = 50"
    and "run (demux (start_time env)) eth_start (arrivals es) = Some (e, msgs)"
    and "\<forall>p\<in>set (cots_packets msgs). unat (data_length p) \<le> 512"
    and "run cots_raw_in gps_start (cots_packets msgs) = Some (g, frames)"
    and "\<forall>q. Send (gps_data_out q) \<in> set frames \<longrightarrow> data_length q \<noteq> 65535"
    and "run state_receive_imu (state_init est_static) (imu_packets msgs) = Some (x, ests)"
    and "\<forall>i ts k st. Send (state_send_message i ts k st) \<in> set ests \<longrightarrow> dense (c_exp env) st"
  shows "\<exists>t out ps rs gr. run (fc_step env) (fc_start senv) (es @ [LogTimeout]) = Some (t, out) \<and>
    run due gps_start (sent msgs) = Some (g, ps) \<and>
    decoded (file_contents out) = Some rs \<and> filter is_data rs = map packet_record ps \<and>
    decoded (ground_contents out) = Some gr \<and>
    filter is_data gr = map packet_record (filter (\<lambda>p. \<not> disk_only (ID p)) ps)"
  by (rule fc_run_recorded [OF assms]) blast

text \<open>A frame of the GPS whose only byte is its type is on the record in the file and on the ground.\<close>

lemma packets_logged_witness:
  "\<exists>t out rs gr ts. run (fc_step plain_env) (fc_start env0)
      [EthReadable (gps_arrival [0xA0, 0xA1, 0, 1, 0xA8, 0xA8, 0x0D, 0x0A]), LogTimeout] = Some (t, out) \<and>
    decoded (file_contents out) = Some rs \<and> filter is_data rs = [(chars ''V8A8'', ts, [])] \<and>
    decoded (ground_contents out) = Some gr \<and> filter is_data gr = [(chars ''V8A8'', ts, [])]"
proof -
  let ?a = "gps_arrival [0xA0, 0xA1, 0, 1, 0xA8, 0xA8, 0x0D, 0x0A]"
  have a: "from_port GPS_COTS (be32 (next_sequence (seq eth_start seq_GPS_COTS)) @
      [0xA0, 0xA1, 0, 1, 0xA8, 0xA8, 0x0D, 0x0A]) ?a" and cur: "cur gps_start = 0"
    using gps_arrival_start [of env0] by (simp_all add: fc_start_fields)
  obtain e p where d: "demux (start_time plain_env) eth_start ?a = Some (e, [Send (demuxed_COTS p)])"
    and c: "chunk p = [0xA0, 0xA1, 0, 1, 0xA8, 0xA8, 0x0D, 0x0A]" and r: "readable p"
    by (rule demux_chunk [OF eth_inv_start _ a]) simp_all
  have f: "chunk p = frame_of [0xA8]"
    by (simp add: c frame_of_def xor_sum_def be16_def be_of_numeral)
  have i: "venus_ID 0xA8 = ''V8A8''" by code_simp
  obtain g dat where g: "cots_raw_in gps_start p = Some (g, [Send (gps_data_out
      \<lparr>ID = ''V8A8'', timestamp = timestamp p, data_length = 0, data = dat\<rparr>)])"
    using short_frame [OF gps_inv_start cur r f] by (auto simp: i)
  let ?q = "\<lparr>ID = ''V8A8'', timestamp = timestamp p, data_length = 0, data = dat\<rparr>"
  have len: "unat (data_length p) \<le> 512"
  proof -
    have "length (chunk p) = 8" by (simp add: c)
    with r show ?thesis by (simp add: chunk_def readable_def)
  qed
  have due: "run due gps_start (sent [Send (demuxed_COTS p)]) = Some (g, [?q])"
    by (simp add: due_def g gps_packets_def)
  have "packet_record ?q = (chars ''V8A8'', take 6 (timestamp p), [])" "\<not> disk_only (ID ?q)"
    by (simp_all add: packet_record_def record_of_def disk_only_def)
  moreover have "run (demux (start_time plain_env)) eth_start (arrivals [EthReadable ?a]) =
      Some (e, [Send (demuxed_COTS p)])" "run cots_raw_in gps_start [p] = Some (g, [Send (gps_data_out ?q)])"
    using d g by simp_all
  ultimately show ?thesis
    using packets_logged [OF plain_env_glue, of "[EthReadable ?a]" e "[Send (demuxed_COTS p)]" g
        "[Send (gps_data_out ?q)]" "state_init est_static" "[]" env0] len due
    by (simp del: fc_step.simps run.simps add: run.simps(1)) blast
qed

text \<open>
  C3: the log tells what the servos were told. Under the same conditions the \<open>ROLL\<close> records of the log
  file correspond one to one, in order, to the packets sent to the servo board: each record holds the
  bits of the angle and the flag from which the packet was computed, so no movement of the canards is
  missing in the log and none is made up.
\<close>

theorem servo_commands_logged:
  assumes "calls_as_listed (glue env)"
    and "\<forall>fd stack r. RnhReadable fd stack r \<in> set es \<longrightarrow> length stack = 50"
    and "run (demux (start_time env)) eth_start (arrivals es) = Some (e, msgs)"
    and "\<forall>p\<in>set (cots_packets msgs). unat (data_length p) \<le> 512"
    and "run cots_raw_in gps_start (cots_packets msgs) = Some (g, frames)"
    and "\<forall>q. Send (gps_data_out q) \<in> set frames \<longrightarrow> data_length q \<noteq> 65535"
    and "run state_receive_imu (state_init est_static) (imu_packets msgs) = Some (x, ests)"
    and "\<forall>i ts k st. Send (state_send_message i ts k st) \<in> set ests \<longrightarrow> dense (c_exp env) st"
  shows "\<exists>t out rs. run (fc_step env) (fc_start senv) (es @ [LogTimeout]) = Some (t, out) \<and>
    decoded (file_contents out) = Some rs \<and>
    list_all2 (\<lambda>bs (i, ts, d). \<exists>n n' m. rs_receive_adj n m = Some (n', [Write RollServoSocket bs]) \<and>
        ts = roll_timestamp m \<and> d = be64 (angle m) @ [disable m])
      (written RollServoSocket out) (filter (\<lambda>(i, ts, d). i = chars ''ROLL'') rs)"
proof -
  have c: "is_command = (\<lambda>(i, ts, d). i = chars ''ROLL'')" by (auto simp: is_command_def fun_eq_iff)
  show ?thesis
    by (rule fc_run_recorded [OF assms, of senv], unfold c, intro exI conjI, assumption, assumption)
      (erule list_all2_mono, auto simp: driven_def command_record_def)
qed

text \<open>The datagram that disarms.\<close>

lemma servo_commands_logged_witness:
  "\<exists>t out rs. run (fc_step plain_env) (fc_start env0) [EthReadable safe_arrival, LogTimeout] = Some (t, out) \<and>
    decoded (file_contents out) = Some rs \<and>
    list_all2 (\<lambda>bs (i, ts, d). \<exists>n n' m. rs_receive_adj n m = Some (n', [Write RollServoSocket bs]) \<and>
        ts = roll_timestamp m \<and> d = be64 (angle m) @ [disable m])
      (written RollServoSocket out) (filter (\<lambda>(i, ts, d). i = chars ''ROLL'') rs)"
proof -
  have "from_port ARM_PORT (chars ''#SAFE'') safe_arrival"
    by (simp add: from_port_def safe_arrival_def)
  then obtain ts e b where "demux (start_time plain_env) eth_start safe_arrival =
      Some (e, [Send (demuxed_ARM b 5 ts)])"
    by (rule demux_datagram [OF eth_inv_start, where start = "start_time plain_env"])
      (simp_all add: ETH_MTU_def route_ports Let_def chars_def)
  then have "run (demux (start_time plain_env)) eth_start (arrivals [EthReadable safe_arrival]) =
      Some (e, [Send (demuxed_ARM b 5 ts)])" by simp
  moreover have "cots_packets [Send (demuxed_ARM b 5 ts)] = []" "imu_packets [Send (demuxed_ARM b 5 ts)] = []"
    by (simp_all add: cots_packets_def imu_packets_def)
  ultimately show ?thesis
    using servo_commands_logged [OF plain_env_glue, of "[EthReadable safe_arrival]" e
        "[Send (demuxed_ARM b 5 ts)]" gps_start "[]" "state_init est_static" "[]" env0]
    by (simp del: fc_step.simps run.simps add: run.simps(1))
qed

end
