(* ===== verification/Fc_Commands.thy ===== *)
theory Fc_Commands
  imports Fc_Sends Fc_Runs
begin

text \<open>
  Servos that are off stay off: which datagrams can enable them.
\<close>

section \<open>Messages that command nothing\<close>

fun quiet_msg :: "message \<Rightarrow> bool" where
  "quiet_msg (demuxed_ARM _ _ _) \<longleftrightarrow> False"
| "quiet_msg (demuxed_RC _ _ _) \<longleftrightarrow> False"
| "quiet_msg (arm_send_signal _) \<longleftrightarrow> False"
| "quiet_msg (rc_send_servo _) \<longleftrightarrow> False"
| "quiet_msg _ \<longleftrightarrow> True"

fun quiet :: "action \<Rightarrow> bool" where
  "quiet (Send m) \<longleftrightarrow> quiet_msg m"
| "quiet (Write c bs) \<longleftrightarrow> c \<noteq> RollServoSocket"

definition servos_idle :: "fc_state \<Rightarrow> bool" where
  "servos_idle s \<longleftrightarrow> \<not> enable_servo (fc_rc s) \<and> \<not> armed (fc_rc s)"

text \<open>While the servos are disabled, a state estimate does nothing, and a report of the umbilical
  only keeps the time.\<close>

lemma rc_receive_state_off:
  "\<not> enable_servo c \<Longrightarrow> rc_receive_state clk cexp c i ts st = Some (c, [])"
  by (simp add: rc_receive_state_def check_timeout_def)

lemma rc_raw_umb_flags:
  "rc_raw_umb c p = Some (c', out) \<Longrightarrow> enable_servo c' = enable_servo c \<and> armed c' = armed c"
  by (auto simp: rc_raw_umb_def Option.bind_eq_Some_conv split: if_split_asm)

lemma can_quiet:
  assumes "r \<in> set (connections m)" and "quiet_msg m" and "r \<noteq> RC_rc_receive_state"
    and "can r x"
  shows "quiet x"
proof (cases x)
  case (Send k)
  with assms show ?thesis by (cases m; cases k) auto
next
  case (Write c bs)
  with assms show ?thesis by (cases m) auto
qed

lemma receive_quiet:
  assumes rcv: "receive env r m s = Some (t, acts, m')" and r: "r \<in> set (connections m)"
    and m: "quiet_msg m" and off: "servos_idle s"
  shows "servos_idle t" and "\<forall>x\<in>set acts. quiet x" and "quiet_msg m'"
proof -
  show "quiet_msg m'" using receive_message [OF rcv] m by auto
  show "\<forall>x\<in>set acts. quiet x"
  proof (cases "r = RC_rc_receive_state")
    case True
    with rcv off rc_receive_state_off [of "fc_rc s"] show ?thesis
      by (auto simp: servos_idle_def Option.bind_eq_Some_conv split: message.split_asm)
  next
    case False
    then show ?thesis
      using receive_can [OF rcv] can_quiet [OF r m] by (auto simp: list_all_iff)
  qed
  consider "r = RC_rc_receive_state" | "r = RC_rc_raw_umb"
    | "r \<notin> {RC_rc_receive_state, RC_rc_receive_arm, RC_rc_raw_umb, RC_rc_raw_testrc}"
    using r m by (cases m) auto
  then show "servos_idle t"
  proof cases
    case 1
    with rcv off rc_receive_state_off [of "fc_rc s"] show ?thesis
      by (auto simp: servos_idle_def Option.bind_eq_Some_conv split: message.split_asm)
  next
    case 2
    with rcv off show ?thesis
      by (auto simp: servos_idle_def Option.bind_eq_Some_conv dest: rc_raw_umb_flags)
  next
    case 3
    with receive_rc [OF rcv 3] off show ?thesis by (simp add: servos_idle_def)
  qed
qed

section \<open>Dispatch\<close>

text \<open>An outcome that keeps the servos off and sends them nothing.\<close>

definition calm :: "outcome \<Rightarrow> bool" where
  "calm x \<longleftrightarrow> (\<forall>t out. x = Inr (t, out) \<longrightarrow>
     servos_idle t \<and> (\<forall>bs. Write RollServoSocket bs \<notin> set out))"

lemma calm_followed:
  "calm x \<Longrightarrow> (\<And>s. servos_idle s \<Longrightarrow> calm (k s)) \<Longrightarrow> calm (followed_by x k)"
  by (cases x) (fastforce simp: calm_def split: sum.splits)+

lemma calm_dispatch:
  assumes "calls_as_listed (glue env)"
  shows "\<forall>r\<in>set rs. r \<in> set (connections m) \<Longrightarrow> quiet_msg m \<Longrightarrow> servos_idle s \<Longrightarrow>
      calm (call_receivers n env rs m s)"
    and "\<forall>x\<in>set acts. quiet x \<Longrightarrow> servos_idle s \<Longrightarrow> calm (perform n env acts s)"
  using assms
proof (induction n env rs m s and n env acts s rule: call_receivers_perform.induct)
  case (1 n env m s)
  then show ?case by (simp add: call_receivers.simps calm_def)
next
  case (2 n env r rs m s)
  show ?case
  proof (cases "receive env r m s")
    case None
    then show ?thesis by (simp add: call_receivers.simps calm_def)
  next
    case (Some x)
    then obtain t acts m' where x: "receive env r m s = Some (t, acts, m')" by (cases x) auto
    have "r \<in> set (connections m)" using 2(3) by simp
    note q = receive_quiet [OF x this 2(4,5)]
    have "\<forall>r\<in>set rs. r \<in> set (connections m')" using receive_connections [OF x] 2(3) by simp
    with q 2(1,2) [OF x] 2(6) show ?thesis
      by (simp add: call_receivers.simps x calm_followed)
  qed
next
  case (3 n env s)
  then show ?case by (simp add: perform.simps calm_def)
next
  case (4 n env c bs acts s)
  have "calm (Inr (s, [Write c bs]))" using 4(2,3) by (auto simp: calm_def)
  with 4 show ?case unfolding perform.simps by (intro calm_followed) auto
next
  case (5 env m acts s)
  then show ?case by (simp add: perform.simps calm_def)
next
  case (6 n env m acts s)
  then show ?case by (simp add: perform.simps calm_followed calls_as_listed_def)
qed

section \<open>Datagrams that command nothing\<close>

definition no_command :: "fc_event \<Rightarrow> bool" where
  "no_command ev \<longleftrightarrow> (\<forall>a payload src cmsgs. ev = EthReadable a \<longrightarrow>
     incoming a = Datagram payload src cmsgs \<longrightarrow>
     bswap16 (sin_port src) \<noteq> ARM_PORT \<and> bswap16 (sin_port src) \<noteq> RC_SERVO_ENABLE_PORT)"

lemma sequenced_receive_quiet:
  "sequenced_receive port buffer len ts type = Some (type', out) \<Longrightarrow> \<forall>x\<in>set out. quiet x"
proof -
  have "quiet_msg (call_handler h p)" for h p by (cases h) simp_all
  moreover have "\<forall>x\<in>set (format_sequenced_error port ts e r). quiet x" for e r
    by (simp add: format_sequenced_error_def)
  ultimately show "sequenced_receive port buffer len ts type = Some (type', out) \<Longrightarrow> ?thesis"
    by (auto simp: sequenced_receive_def Let_def Option.bind_eq_Some_conv split: if_split_asm)
qed

lemma route_raw:
  "route_of port = RawArm \<longleftrightarrow> port = ARM_PORT"
  "route_of port = RawRC \<longleftrightarrow> port = RC_SERVO_ENABLE_PORT"
  by (auto simp: route_of_def ADIS_PORT_def ARM_PORT_def MPU_PORT_def MPL_PORT_def BMP_PORT_def
      RC_SERVO_ENABLE_PORT_def)

lemma demux_quiet:
  assumes d: "demux start e a = Some (e', out)" and n: "no_command (EthReadable a)"
  shows "\<forall>x\<in>set out. quiet x"
proof (cases "incoming a")
  case (RecvFailed errno)
  with d show ?thesis by (auto simp: demux_def Let_def split: if_split_asm)
next
  case (Datagram payload src cmsgs)
  with n have "route_of (bswap16 (sin_port src)) \<noteq> RawArm" "route_of (bswap16 (sin_port src)) \<noteq> RawRC"
    by (simp_all add: no_command_def route_raw)
  with d Datagram show ?thesis
    by (auto simp: demux_def Let_def copy_datagram_def Option.bind_eq_Some_conv
        split: if_split_asm route.split_asm dest: sequenced_receive_quiet)
qed

lemma fc_step_calm:
  assumes "calls_as_listed (glue env)" and "no_command ev" and "servos_idle s"
    and "fc_step env s ev = Some (t, out)"
  shows "servos_idle t" and "Write RollServoSocket bs \<notin> set out"
proof -
  have c: "servos_idle t \<and> (\<forall>bs. Write RollServoSocket bs \<notin> set out)"
  proof (cases ev)
    case (EthReadable a)
    with assms(4) obtain e acts where d: "demux (start_time env) (fc_eth s) a = Some (e, acts)"
      "settle env (s\<lparr>fc_eth := e\<rparr>) acts = Some (t, out)"
      by (auto simp: Option.bind_eq_Some_conv)
    have "servos_idle (s\<lparr>fc_eth := e\<rparr>)" using assms(3) by (simp add: servos_idle_def)
    from calm_dispatch(2) [OF assms(1) _ this] demux_quiet [OF d(1)] assms(2) EthReadable d(2)
    show ?thesis by (auto simp: settle_def calm_def split: sum.split_asm)
  next
    case LogTimeout
    with assms(3,4) flush_log_acts [of "logger_clock env" "fc_log s"] show ?thesis
      by (auto simp: servos_idle_def log_timeout_def list_all_iff Let_def case_prod_unfold)
  next
    case (RnhReadable fd stack r)
    have "\<forall>x\<in>set (fst (version_callback fd stack r)). quiet x"
      by (auto simp: version_callback_def Let_def split: read_result.split prod.split)
    from calm_dispatch(2) [OF assms(1) this assms(3)] assms(4) RnhReadable
    show ?thesis by (auto simp: settle_def calm_def split: sum.split_asm)
  qed
  then show "servos_idle t" "Write RollServoSocket bs \<notin> set out" by blast+
qed

section \<open>Property\<close>

text \<open>
  C10: no motion without a command. Once the servos are disabled and roll control is disarmed, as
  after the start, nothing that arrives from any other port than those of the arming tool and
  of the servo test, and no timer or answer of the hub, makes the program send a packet to the servo
  board, and the servos stay disabled; in particular no sensor reading and no launch does.
\<close>

theorem disabled_until_commanded:
  assumes "calls_as_listed (glue env)" and "\<forall>ev\<in>set es. no_command ev"
    and "\<not> enable_servo (fc_rc s)" and "\<not> armed (fc_rc s)"
    and "run (fc_step env) s es = Some (t, out)"
  shows "\<not> enable_servo (fc_rc t) \<and> \<not> armed (fc_rc t) \<and> (\<forall>bs. Write RollServoSocket bs \<notin> set out)"
proof -
  have "servos_idle t \<and> (\<forall>bs. Write RollServoSocket bs \<notin> set out)"
    if "servos_idle s" "run (fc_step env) s es = Some (t, out)" for s
    using that assms(2)
  proof (induction es arbitrary: s out)
    case (Cons ev es)
    from Cons.prems(2) obtain u o1 o2 where 1: "fc_step env s ev = Some (u, o1)"
      "run (fc_step env) u es = Some (t, o2)" "out = o1 @ o2"
      by (auto simp: run_Cons_Some simp del: run.simps)
    have "no_command ev" using Cons.prems(3) by simp
    note 2 = fc_step_calm [OF assms(1) this Cons.prems(1) 1(1)]
    from Cons.IH [OF 2(1) 1(2)] Cons.prems(3) 2(2) show ?case by (auto simp: 1(3))
  qed simp
  with assms(3-5) show ?thesis by (simp add: servos_idle_def)
qed

lemma disabled_until_commanded_witness:
  "\<exists>t out. run (fc_step plain_env) (fc_start env0)
      [RnhReadable 9 (replicate 50 0) (ReadBytes [65]), LogTimeout] = Some (t, out) \<and>
    \<not> enable_servo (fc_rc t) \<and> (\<forall>bs. Write RollServoSocket bs \<notin> set out)"
proof -
  let ?es = "[RnhReadable 9 (replicate 50 0) (ReadBytes [65]), LogTimeout]"
  have "\<not> enable_servo (fc_rc (fc_start env0))" "\<not> armed (fc_rc (fc_start env0))"
    by (simp_all add: fc_start_def rollcontrol_init_def set_armed_def set_servo_enable_def
        udp_socket_def Let_def env0_def)
  moreover obtain u o1 where "fc_step plain_env (fc_start env0) (hd ?es) = Some (u, o1)" "fc_inv u"
    using fc_step_version [OF fc_inv_start plain_env_glue, of "replicate 50 0"] by fastforce
  moreover then obtain t o2 where "fc_step plain_env u LogTimeout = Some (t, o2)"
    using fc_step_timeout by blast
  ultimately have "run (fc_step plain_env) (fc_start env0) ?es = Some (t, o1 @ o2)"
    by (simp del: fc_step.simps)
  moreover have "\<forall>ev\<in>set ?es. no_command ev" by (simp add: no_command_def)
  ultimately show ?thesis
    using disabled_until_commanded [OF plain_env_glue]
      \<open>\<not> enable_servo (fc_rc (fc_start env0))\<close> \<open>\<not> armed (fc_rc (fc_start env0))\<close> by blast
qed

end
