(* ===== verification/Fc_Steps.thy ===== *)
theory Fc_Steps
  imports Fc_Dispatch Fc_Runs
begin

text \<open>
  The program as a machine whose steps are single calls of receivers and single writes, with a stack of
  what remains to be done and no bound on its depth. It is equivalent to the functions of \<open>Fc_Main\<close>, and
  its reachable configurations show what holds at every moment, also in the middle of a turn.
\<close>

section \<open>The machine\<close>

datatype task = Calls "receiver list" message | Acts "action list"

type_synonym config = "task list \<times> fc_state \<times> action list"

inductive dispatch :: "fc_env \<Rightarrow> config \<Rightarrow> config \<Rightarrow> bool" for env where
  Call: "receive env r m s = Some (t, acts, m') \<Longrightarrow>
    dispatch env (Calls (r # rs) m # k, s, out) (Acts acts # Calls rs m' # k, t, out)"
| Return: "dispatch env (Calls [] m # k, s, out) (k, s, out)"
| Sending: "dispatch env (Acts (Send m # acts) # k, s, out) (Calls (glue env m) m # Acts acts # k, s, out)"
| Writing: "dispatch env (Acts (Write c bs # acts) # k, s, out) (Acts acts # k, s, out @ [Write c bs])"
| Done: "dispatch env (Acts [] # k, s, out) (k, s, out)"

inductive_cases dispatch_stackE: "dispatch env (x # k, s, out) c"

inductive_simps dispatch_simps [simp]:
  "dispatch env ([], s, out) c"
  "dispatch env (Calls [] m # k, s, out) c"
  "dispatch env (Calls (r # rs) m # k, s, out) c"
  "dispatch env (Acts [] # k, s, out) c"
  "dispatch env (Acts (Send m # acts) # k, s, out) c"
  "dispatch env (Acts (Write ch bs # acts) # k, s, out) c"

lemma dispatch_deterministic: "dispatch env c d \<Longrightarrow> dispatch env c d' \<Longrightarrow> d = d'"
  by (induction rule: dispatch.induct) auto

text \<open>Where the machine stops: with nothing left to do, or at a call that leaves its objects.\<close>

fun faulty :: "fc_env \<Rightarrow> config \<Rightarrow> bool" where
  "faulty env (Calls (r # rs) m # k, s, out) \<longleftrightarrow> receive env r m s = None"
| "faulty env c \<longleftrightarrow> False"

lemma stops_iff: "(\<nexists>d. dispatch env c d) \<longleftrightarrow> fst c = [] \<or> faulty env c"
proof -
  obtain k s out where c: "c = (k, s, out)" by (cases c)
  show ?thesis
  proof (cases k)
    case (Cons x k')
    show ?thesis
    proof (cases x)
      case (Calls rs m)
      then show ?thesis unfolding c Cons
        by (cases rs) (auto, metis not_Some_eq prod_cases3)
    next
      case (Acts acts)
      show ?thesis
      proof (cases acts)
        case (Cons a as)
        with \<open>k = x # k'\<close> Acts c show ?thesis by (cases a) auto
      qed (simp add: c Cons Acts)
    qed
  qed (simp add: c)
qed

lemma stops_unique:
  assumes "(dispatch env)\<^sup>*\<^sup>* c d" and "(dispatch env)\<^sup>*\<^sup>* c d'"
    and "\<nexists>x. dispatch env d x" and "\<nexists>x. dispatch env d' x"
  shows "d = d'"
  using assms
proof (induction rule: converse_rtranclp_induct)
  case base
  then show ?case by (auto elim: converse_rtranclpE)
next
  case (step c x)
  then show ?case by (metis converse_rtranclpE dispatch_deterministic)
qed

section \<open>The machine computes what the functions compute\<close>

text \<open>From a configuration the machine comes to the result of a function: it stops at a fault where the
  function has one, and otherwise leaves the rest of the stack, with the output appended.\<close>

definition leads :: "fc_env \<Rightarrow> config \<Rightarrow> task list \<Rightarrow> action list \<Rightarrow> outcome \<Rightarrow> bool" where
  "leads env c k out r =
     (case r of
        Inr (t, out') \<Rightarrow> (dispatch env)\<^sup>*\<^sup>* c (k, t, out @ out')
      | Inl Fault \<Rightarrow> \<exists>d. (dispatch env)\<^sup>*\<^sup>* c d \<and> faulty env d
      | Inl TooDeep \<Rightarrow> True)"

lemma leads_refl: "leads env (k, s, out) k out (Inr (s, []))"
  by (simp add: leads_def)

lemma leads_step: "dispatch env c d \<Longrightarrow> leads env d k out r \<Longrightarrow> leads env c k out r"
  by (auto simp: leads_def intro: converse_rtranclp_into_rtranclp split: sum.splits failure.splits)

lemma leads_followed:
  assumes "leads env c k' out r"
    and "\<And>t o1. r = Inr (t, o1) \<Longrightarrow> leads env (k', t, out @ o1) k (out @ o1) (f t)"
  shows "leads env c k out (followed_by r f)"
proof (cases r)
  case (Inl e)
  with assms(1) show ?thesis by (simp add: leads_def)
next
  case (Inr x)
  then obtain t o1 where r: "r = Inr (t, o1)" by (cases x) auto
  with assms have "(dispatch env)\<^sup>*\<^sup>* c (k', t, out @ o1)" "leads env (k', t, out @ o1) k (out @ o1) (f t)"
    by (simp_all add: leads_def)
  then show ?thesis unfolding r
    by (auto simp: leads_def intro: rtranclp_trans split: sum.splits failure.splits)
qed

lemma dispatch_leads:
  shows "leads env (Calls rs m # k, s, out) k out (call_receivers n env rs m s)"
    and "leads env (Acts acts # k, s, out) k out (perform n env acts s)"
proof (induction n env rs m s and n env acts s arbitrary: k out and k out
    rule: call_receivers_perform.induct)
  case (1 n env m s)
  show ?case unfolding call_receivers.simps by (rule leads_step [OF dispatch.Return leads_refl])
next
  case (2 n env r rs m s)
  show ?case
  proof (cases "receive env r m s")
    case None
    then have "faulty env (Calls (r # rs) m # k, s, out)" by simp
    then have "\<exists>d. (dispatch env)\<^sup>*\<^sup>* (Calls (r # rs) m # k, s, out) d \<and> faulty env d" by blast
    with None show ?thesis by (simp add: call_receivers.simps leads_def)
  next
    case (Some x)
    then obtain t acts m' where rcv: "receive env r m s = Some (t, acts, m')" by (cases x) auto
    show ?thesis unfolding call_receivers.simps rcv option.case prod.case
      by (rule leads_step [OF dispatch.Call [OF rcv]])
        (rule leads_followed [OF 2(1) [OF rcv refl refl] 2(2) [OF rcv refl refl]])
  qed
next
  case (3 n env s)
  show ?case unfolding perform.simps by (rule leads_step [OF dispatch.Done leads_refl])
next
  case (4 n env c bs acts s)
  have "leads env (Acts (Write c bs # acts) # k, s, out) (Acts acts # k) out (Inr (s, [Write c bs]))"
    by (simp add: leads_def r_into_rtranclp)
  then show ?case unfolding perform.simps by (rule leads_followed) (simp add: 4)
next
  case (5 env m acts s)
  show ?case by (simp add: perform.simps leads_def)
next
  case (6 n env m acts s)
  show ?case unfolding perform.simps
    by (rule leads_step [OF dispatch.Sending]) (rule leads_followed [OF 6(1,2)])
qed

section \<open>Runs of the machine\<close>

text \<open>What a callback of the main loop starts with.\<close>

fun handler :: "fc_env \<Rightarrow> fc_state \<Rightarrow> fc_event \<Rightarrow> (fc_state \<times> action list) option" where
  "handler env s (EthReadable a) =
     do { (e, acts) \<leftarrow> demux (start_time env) (fc_eth s) a; Some (s\<lparr>fc_eth := e\<rparr>, acts) }"
| "handler env s LogTimeout =
     (let (l, out) = log_timeout (logger_clock env) (fc_log s) in Some (s\<lparr>fc_log := l\<rparr>, out))"
| "handler env s (RnhReadable fd stack r) = Some (s, fst (version_callback fd stack r))"

lemma fc_step_handler:
  "fc_step env s e = do { (t, acts) \<leftarrow> handler env s e; settle env t acts }"
proof (cases e)
  case LogTimeout
  have "list_all to_log (snd (log_timeout (logger_clock env) (fc_log s)))"
    by (simp add: log_timeout_def flush_log_acts)
  with LogTimeout show ?thesis
    by (auto simp: settle_def perform_to_log split: prod.split)
qed (auto split: Option.bind_split)

text \<open>The configurations that the program reaches: at the main loop any callback may come next.\<close>

inductive reachable :: "fc_env \<Rightarrow> socket_env \<Rightarrow> config \<Rightarrow> bool" for env senv where
  Start: "reachable env senv ([], fc_start senv, [])"
| Event: "reachable env senv ([], s, out) \<Longrightarrow> handler env s e = Some (t, acts) \<Longrightarrow>
    reachable env senv ([Acts acts], t, out)"
| Step: "reachable env senv c \<Longrightarrow> dispatch env c d \<Longrightarrow> reachable env senv d"

lemma reachable_steps: "(dispatch env)\<^sup>*\<^sup>* c d \<Longrightarrow> reachable env senv c \<Longrightarrow> reachable env senv d"
  by (induction rule: rtranclp_induct) (auto intro: reachable.Step)

lemma reachable_run:
  assumes "run (fc_step env) s es = Some (t, out')" and "reachable env senv ([], s, out)"
  shows "reachable env senv ([], t, out @ out')"
  using assms
proof (induction es arbitrary: s out out')
  case (Cons e es)
  then obtain v o1 o2 where st: "fc_step env s e = Some (v, o1)"
    and r: "run (fc_step env) v es = Some (t, o2)" and out: "out' = o1 @ o2"
    by (auto simp: run_Cons_Some simp del: run.simps fc_step.simps)
  obtain u acts where h: "handler env s e = Some (u, acts)" and p: "perform NESTING env acts u = Inr (v, o1)"
    using st by (auto simp: fc_step_handler settle_Some Option.bind_eq_Some_conv)
  have "(dispatch env)\<^sup>*\<^sup>* ([Acts acts], u, out) ([], v, out @ o1)"
    using dispatch_leads(2) [of env acts "[]" u out NESTING] p by (simp add: leads_def)
  then have "reachable env senv ([], v, out @ o1)"
    using reachable.Event [OF Cons.prems(2) h] by (rule reachable_steps)
  from Cons.IH [OF r this] out show ?case by simp
qed simp

text \<open>A turn that is over is a step of the main loop.\<close>

lemma turn_over:
  assumes glue: "calls_as_listed (glue env)" and h: "handler env s e = Some (t, acts)"
    and d: "(dispatch env)\<^sup>*\<^sup>* ([Acts acts], t, out) ([], u, out')"
  shows "\<exists>o'. fc_step env s e = Some (u, o') \<and> out' = out @ o'"
proof -
  have l: "leads env ([Acts acts], t, out) [] out (perform NESTING env acts t)"
    by (rule dispatch_leads(2))
  have stop: "\<nexists>x. dispatch env ([], u, out') x" by simp
  show ?thesis
  proof (cases "perform NESTING env acts t")
    case (Inl f)
    with dispatch_ends [OF glue] have "f = Fault" by (cases f) auto
    with l Inl obtain c where c: "(dispatch env)\<^sup>*\<^sup>* ([Acts acts], t, out) c" "faulty env c"
      by (auto simp: leads_def)
    then have "c = ([], u, out')" using stops_unique [OF c(1) d _ stop] stops_iff [of env c] by blast
    with c(2) show ?thesis by simp
  next
    case (Inr x)
    then obtain v o' where p: "perform NESTING env acts t = Inr (v, o')" by (cases x) auto
    with l have "(dispatch env)\<^sup>*\<^sup>* ([Acts acts], t, out) ([], v, out @ o')" by (simp add: leads_def)
    from stops_unique [OF this d _ stop] have "v = u" "out' = out @ o'" by simp_all
    with h p show ?thesis by (simp add: fc_step_handler settle_Some)
  qed
qed

text \<open>Where a reachable configuration comes from: a run of the main loop, and a turn that has begun.\<close>

lemma reachable_from:
  assumes "reachable env senv c" and glue: "calls_as_listed (glue env)"
  shows "\<exists>es s out. run (fc_step env) (fc_start senv) es = Some (s, out) \<and> (c = ([], s, out) \<or>
    (\<exists>e t acts. handler env s e = Some (t, acts) \<and> (dispatch env)\<^sup>*\<^sup>* ([Acts acts], t, out) c))"
  using assms(1)
proof (induction rule: reachable.induct)
  case Start
  have "run (fc_step env) (fc_start senv) [] = Some (fc_start senv, [])" by simp
  then show ?case by blast
next
  case (Event s out e t acts)
  then obtain es v o' where r: "run (fc_step env) (fc_start senv) es = Some (v, o')"
    and c: "([], s, out) = ([], v, o') \<or> (\<exists>e t acts. handler env v e = Some (t, acts) \<and>
      (dispatch env)\<^sup>*\<^sup>* ([Acts acts], t, o') ([], s, out))" by blast
  have "\<exists>es. run (fc_step env) (fc_start senv) es = Some (s, out)"
    using c
  proof
    assume "([], s, out) = ([], v, o')"
    with r show ?thesis by blast
  next
    assume "\<exists>e t acts. handler env v e = Some (t, acts) \<and> (dispatch env)\<^sup>*\<^sup>* ([Acts acts], t, o') ([], s, out)"
    then obtain e o1 where "fc_step env v e = Some (s, o1)" "out = o' @ o1"
      using turn_over [OF glue] by blast
    with r have "run (fc_step env) (fc_start senv) (es @ [e]) = Some (s, out)" by (simp add: run_append)
    then show ?thesis by blast
  qed
  with Event.hyps(2) show ?case by blast
next
  case (Step c d)
  then show ?case by (metis dispatch_simps(1) rtranclp.rtrancl_into_rtrancl)
qed

end
