(* ===== verification/Fc_Servo_Steps.thy ===== *)
theory Fc_Servo_Steps
  imports Fc_Steps
begin

text \<open>
  The servo commands in the machine: at every moment, also while a command is under way through its
  receivers, the flag in a packet to the servo board tells whether roll control has the servos enabled,
  and the packets are numbered.
\<close>

section \<open>What roll control and the servo driver produce\<close>

lemma rs_receive_adj_packet:
  assumes "rs_receive_adj k m = Some (k', acts)"
  shows "\<exists>bs. acts = [Write RollServoSocket bs] \<and> k' = k + 1 \<and> take 4 bs = be32 k \<and> last bs = disable m"
proof -
  obtain a where a: "double_of_bits (angle m) = Some a" using assms
    by (auto simp: rs_receive_adj_def Option.bind_eq_Some_conv)
  with assms have "-1 < raw_ticks a" "raw_ticks a < 65536"
    by (auto simp: rs_receive_adj_def Option.bind_eq_Some_conv double_to_u16_def raw_ticks_def Let_def
        split: if_splits)
  from rs_receive_adj_eq [OF a this, of k] assms show ?thesis by (simp add: servo_packet_def)
qed

text \<open>The flag of a command that leaves roll control tells whether the servos are enabled then.\<close>

abbreviation flag :: "bool \<Rightarrow> u8" where
  "flag on \<equiv> (if on then 0 else 1)"

definition honest :: "bool \<Rightarrow> action \<Rightarrow> bool" where
  "honest on x \<longleftrightarrow> (\<forall>m. x = Send (rc_send_servo m) \<longrightarrow> disable m = flag on)"

lemma honest_write [simp]: "honest on (Write c bs)"
  by (simp add: honest_def)

lemma set_canard_angle_honest:
  "set_canard_angle clk d s = (t, out) \<Longrightarrow> list_all (honest (enable_servo t)) out"
  by (auto simp: set_canard_angle_eq honest_def roll_message_def)

lemma check_timeout_cases:
  "check_timeout clk ts s = Some (t, out) \<Longrightarrow> out = [] \<or> \<not> enable_servo t \<and> list_all (honest False) out"
  by (auto simp: check_timeout_def set_canard_angle_eq honest_def roll_message_def set_servo_enable_def
      Option.bind_eq_Some_conv split: if_splits)

lemma rc_receive_state_honest:
  assumes "rc_receive_state clk cexp s i ts st = Some (t, out)"
  shows "list_all (honest (enable_servo t)) out"
proof -
  obtain u o1 where c: "check_timeout clk ts s = Some (u, o1)"
    using assms by (auto simp: rc_receive_state_def Option.bind_eq_Some_conv)
  show ?thesis
  proof (cases "enable_servo u")
    case False
    with assms c have "t = u" "out = o1" by (simp_all add: rc_receive_state_def)
    with False check_timeout_cases [OF c] show ?thesis by auto
  next
    case True
    with check_timeout_cases [OF c] have "o1 = []" by simp
    with assms c True show ?thesis
      by (auto simp: rc_receive_state_def Option.bind_eq_Some_conv Let_def
          dest: set_canard_angle_honest split: if_splits prod.splits)
  qed
qed

lemma rc_receive_arm_honest:
  "list_all (honest (enable_servo (fst (rc_receive_arm clk s code)))) (snd (rc_receive_arm clk s code))"
  by (simp add: rc_receive_arm_def set_canard_angle_eq honest_def roll_message_def)

lemma rc_raw_umb_honest:
  "rc_raw_umb s p = Some (t, out) \<Longrightarrow> list_all (honest (enable_servo t)) out"
  by (auto simp: rc_raw_umb_def Option.bind_eq_Some_conv split: if_splits)

lemma rc_raw_testrc_honest:
  "rc_raw_testrc clk s buffer len = Some (t, out) \<Longrightarrow> list_all (honest (enable_servo t)) out"
  by (auto simp: rc_raw_testrc_def send_servo_response_def Option.bind_eq_Some_conv Let_def
      dest: set_canard_angle_honest split: if_splits prod.splits)

lemma receive_honest:
  assumes "receive env r m s = Some (t, acts, m')" and "r \<notin> {RS_rs_receive_adj, LOG_log_receive_rc}"
  shows "list_all (honest (enable_servo (fc_rc t))) acts"
proof (cases "r \<in> {RC_rc_receive_state, RC_rc_receive_arm, RC_rc_raw_umb, RC_rc_raw_testrc}")
  case True
  with assms(1) consider i ts st where "rc_receive_state (rc_clock env) (c_exp env) (fc_rc s) i ts st = Some (fc_rc t, acts)"
    | code where "rc_receive_arm (rc_clock env) (fc_rc s) code = (fc_rc t, acts)"
    | p where "rc_raw_umb (fc_rc s) p = Some (fc_rc t, acts)"
    | buffer len where "rc_raw_testrc (rc_clock env) (fc_rc s) buffer len = Some (fc_rc t, acts)"
    by (auto simp: Option.bind_eq_Some_conv case_prod_unfold Let_def split: message.split_asm)
  then show ?thesis
  proof cases
    case 2
    with rc_receive_arm_honest [of "rc_clock env" "fc_rc s" code] show ?thesis by simp
  qed (simp_all add: rc_receive_state_honest rc_raw_umb_honest rc_raw_testrc_honest)
next
  case False
  have "\<forall>x. can r x \<longrightarrow> honest (enable_servo (fc_rc t)) x"
    using assms(2) False by (cases r) (auto simp: honest_def)
  with receive_can [OF assms(1)] show ?thesis by (auto simp: list_all_iff)
qed

section \<open>The phases of a turn\<close>

text \<open>Tasks that have nothing to do with servo commands.\<close>

fun outer_act :: "action \<Rightarrow> bool" where
  "outer_act (Send m) \<longleftrightarrow> (\<forall>x. m \<noteq> rc_send_servo x)"
| "outer_act (Write c bs) \<longleftrightarrow> c \<noteq> RollServoSocket"

fun outer :: "task \<Rightarrow> bool" where
  "outer (Acts acts) \<longleftrightarrow> list_all outer_act acts"
| "outer (Calls rs m) \<longleftrightarrow> set rs \<subseteq> set (connections m) \<and> (\<forall>x. m \<noteq> rc_send_servo x)"

text \<open>What roll control does in a state with the servos enabled or not.\<close>

fun commanding :: "bool \<Rightarrow> action \<Rightarrow> bool" where
  "commanding on (Send (rc_send_servo m)) \<longleftrightarrow> disable m = flag on"
| "commanding on (Send m) \<longleftrightarrow> False"
| "commanding on (Write c bs) \<longleftrightarrow> c \<noteq> RollServoSocket"

fun is_write :: "action \<Rightarrow> bool" where
  "is_write (Write c bs) \<longleftrightarrow> True"
| "is_write (Send m) \<longleftrightarrow> False"

text \<open>
  The stack while the servos are \<open>on\<close> or off, with the servo packets about to be written: outside of
  roll control, with commands to be sent, with one under way, and with writes to be done.
\<close>

inductive phase :: "bool \<Rightarrow> task list \<Rightarrow> bytes list \<Rightarrow> bool" for on where
  Outer: "list_all outer k \<Longrightarrow> phase on k []"
| Commanding: "list_all outer k \<Longrightarrow> list_all (commanding on) acts \<Longrightarrow> phase on (Acts acts # k) []"
| Calling: "list_all outer k \<Longrightarrow> list_all (commanding on) acts \<Longrightarrow>
    rs = [RS_rs_receive_adj, LOG_log_receive_rc] \<and> disable m = flag on \<or> rs = [LOG_log_receive_rc] \<or> rs = [] \<Longrightarrow>
    phase on (Calls rs (rc_send_servo m) # Acts acts # k) []"
| Writing: "phase on k [] \<Longrightarrow> list_all is_write ws \<Longrightarrow>
    \<forall>bs\<in>set (written RollServoSocket ws). last bs = flag on \<Longrightarrow>
    phase on (Acts ws # k) (written RollServoSocket ws)"

inductive_cases phase_CallsE: "phase on (Calls rs m # k) ps"
inductive_cases phase_ActsE: "phase on (Acts acts # k) ps"

lemma written_no: "list_all (\<lambda>x. outer_act x \<or> commanding on x) acts \<Longrightarrow> written RollServoSocket acts = []"
proof (induction acts)
  case (Cons x acts)
  then show ?case by (cases x) auto
qed simp

lemma to_log_outer: "list_all to_log acts \<Longrightarrow> list_all is_write acts \<and> list_all outer_act acts"
  unfolding list_all_iff by (auto elim!: to_log.elims)

text \<open>Numbered packets.\<close>

definition counted :: "u32 \<Rightarrow> bytes list \<Rightarrow> bool" where
  "counted n ps \<longleftrightarrow> map (take 4) ps = map (\<lambda>i. be32 (word_of_nat i)) [0..<length ps] \<and>
     n = word_of_nat (length ps)"

lemma counted_snoc: "counted n ps \<Longrightarrow> take 4 bs = be32 n \<Longrightarrow> counted (n + 1) (ps @ [bs])"
  by (simp add: counted_def add.commute)

fun servo_inv :: "config \<Rightarrow> bool" where
  "servo_inv (k, s, out) \<longleftrightarrow> (\<exists>ps. phase (enable_servo (fc_rc s)) k ps \<and>
     counted (fc_rs s) (written RollServoSocket out @ ps))"

section \<open>Every step keeps the invariant\<close>

text \<open>A call outside of the chain of a servo command.\<close>

lemma receive_rs:
  "receive env r m s = Some (t, acts, m') \<Longrightarrow> r \<noteq> RS_rs_receive_adj \<Longrightarrow> fc_rs t = fc_rs s"
  by (cases r) (auto simp: Option.bind_eq_Some_conv case_prod_unfold Let_def split: message.split_asm)

lemma receive_outer:
  assumes rcv: "receive env r m s = Some (t, acts, m')" and "outer (Calls (r # rs) m)"
    and k: "list_all outer k"
  shows "phase (enable_servo (fc_rc t)) (Acts acts # Calls rs m' # k) []" and "fc_rs t = fc_rs s"
proof -
  have m': "m' = m" using receive_message [OF rcv] assms(2) by auto
  have r: "r \<notin> {RS_rs_receive_adj, LOG_log_receive_rc}" using assms(2) by (cases m) auto
  then show "fc_rs t = fc_rs s" using receive_rs [OF rcv] by simp
  have k': "list_all outer (Calls rs m' # k)" using assms(2) k m' by simp
  show "phase (enable_servo (fc_rc t)) (Acts acts # Calls rs m' # k) []"
  proof (cases "r \<in> {RC_rc_receive_state, RC_rc_receive_arm, RC_rc_raw_umb, RC_rc_raw_testrc}")
    case True
    have "commanding on x" if "can r x" "honest on x" for on x
      using that True by (cases x; cases "case x of Send m \<Rightarrow> m") (auto simp: honest_def)
    then have "list_all (commanding (enable_servo (fc_rc t))) acts"
      using receive_can [OF rcv] receive_honest [OF rcv r] by (simp add: list_all_iff)
    with k' show ?thesis by (rule phase.Commanding)
  next
    case False
    have "outer_act x" if "can r x" for x
      using that r False by (cases r; cases x) auto
    then have "list_all outer_act acts" using receive_can [OF rcv] by (simp add: list_all_iff)
    with k' show ?thesis by (intro phase.Outer) simp
  qed
qed

text \<open>The two calls of a servo command.\<close>

lemma receive_command:
  assumes rcv: "receive env RS_rs_receive_adj (rc_send_servo m) s = Some (t, acts, m')"
  shows "\<exists>bs. acts = [Write RollServoSocket bs] \<and> last bs = disable m \<and> take 4 bs = be32 (fc_rs s) \<and>
    fc_rs t = fc_rs s + 1 \<and> fc_rc t = fc_rc s \<and> m' = rc_send_servo m"
  using assms rs_receive_adj_packet [of "fc_rs s" m] by (fastforce simp: Option.bind_eq_Some_conv)

lemma receive_logged:
  assumes rcv: "receive env LOG_log_receive_rc (rc_send_servo m) s = Some (t, acts, m')"
  shows "list_all to_log acts \<and> fc_rs t = fc_rs s \<and> fc_rc t = fc_rc s \<and> (\<exists>x. m' = rc_send_servo x)"
  using assms receive_can [OF rcv] by (auto simp: Option.bind_eq_Some_conv)

lemma servo_inv_call:
  assumes rcv: "receive env r m s = Some (t, acts, m')" and inv: "servo_inv (Calls (r # rs) m # k, s, out)"
  shows "servo_inv (Acts acts # Calls rs m' # k, t, out)"
proof -
  from inv obtain ps where ph: "phase (enable_servo (fc_rc s)) (Calls (r # rs) m # k) ps"
    and n: "counted (fc_rs s) (written RollServoSocket out @ ps)" by auto
  from ph consider "ps = []" "outer (Calls (r # rs) m)" "list_all outer k"
    | k' as x where "ps = []" "list_all outer k'" "list_all (commanding (enable_servo (fc_rc s))) as"
      "r # rs = [RS_rs_receive_adj, LOG_log_receive_rc] \<and> disable x = flag (enable_servo (fc_rc s)) \<or>
        r # rs = [LOG_log_receive_rc]" "m = rc_send_servo x" "k = Acts as # k'"
    by (rule phase_CallsE) auto
  then show ?thesis
  proof cases
    case 1
    with receive_outer [OF rcv, of rs k] n show ?thesis by auto
  next
    case 2
    then consider "r = RS_rs_receive_adj" "rs = [LOG_log_receive_rc]" "disable x = flag (enable_servo (fc_rc s))"
      | "r = LOG_log_receive_rc" "rs = []" by auto
    then show ?thesis
    proof cases
      case 1
      from receive_command [of env x s t acts m'] rcv 1 2 obtain bs
        where a: "acts = [Write RollServoSocket bs]" "last bs = disable x" "take 4 bs = be32 (fc_rs s)"
        "fc_rs t = fc_rs s + 1" "fc_rc t = fc_rc s" "m' = rc_send_servo x" by auto
      have "phase (enable_servo (fc_rc t)) (Calls rs m' # k) []"
        using 1 2 a by (auto intro: phase.Calling)
      then have "phase (enable_servo (fc_rc t)) (Acts acts # Calls rs m' # k) (written RollServoSocket acts)"
        by (rule phase.Writing) (use 1 a in auto)
      with n counted_snoc [OF _ a(3)] a(1,4) 2 show ?thesis by auto
    next
      case b: 2
      from receive_logged [of env x s t acts m'] rcv b 2 obtain y
        where a: "list_all to_log acts" "fc_rs t = fc_rs s" "fc_rc t = fc_rc s" "m' = rc_send_servo y" by auto
      have "phase (enable_servo (fc_rc t)) (Calls rs m' # k) []"
        using b 2 a by (auto intro: phase.Calling)
      moreover have w: "written RollServoSocket acts = []"
        using to_log_outer [OF a(1)] by (intro written_no) (auto simp: list_all_iff)
      ultimately have "phase (enable_servo (fc_rc t)) (Acts acts # Calls rs m' # k) (written RollServoSocket acts)"
        using to_log_outer [OF a(1)] by (intro phase.Writing) auto
      with n w a(2) 2 show ?thesis by auto
    qed
  qed
qed

lemma servo_inv_step:
  assumes "dispatch env c d" and glue: "calls_as_listed (glue env)" and "servo_inv c"
  shows "servo_inv d"
  using assms(1,3)
proof (induction rule: dispatch.induct)
  case (Call r m s t acts m' rs k out)
  then show ?case by (rule servo_inv_call)
next
  case (Return m k s out)
  then show ?case by (auto elim!: phase_CallsE intro: phase.intros)
next
  case (Sending m acts k s out)
  then obtain ps where ph: "phase (enable_servo (fc_rc s)) (Acts (Send m # acts) # k) ps"
    and n: "counted (fc_rs s) (written RollServoSocket out @ ps)" by auto
  from ph have "ps = [] \<and> phase (enable_servo (fc_rc s)) (Calls (glue env m) m # Acts acts # k) []"
  proof (rule phase_ActsE)
    assume "ps = []" "list_all outer_act (Send m # acts)" "list_all outer k"
    with glue show ?thesis by (auto simp: calls_as_listed_def intro!: phase.Outer)
  next
    assume a: "ps = []" "list_all outer k" "list_all (commanding (enable_servo (fc_rc s))) (Send m # acts)"
    then obtain x where "m = rc_send_servo x" "disable x = flag (enable_servo (fc_rc s))" by (cases m) auto
    with a glue show ?thesis by (auto simp: calls_as_listed_def intro!: phase.Calling)
  qed simp
  with n show ?case by auto
next
  case (Writing c bs acts k s out)
  then obtain ps where ph: "phase (enable_servo (fc_rc s)) (Acts (Write c bs # acts) # k) ps"
    and n: "counted (fc_rs s) (written RollServoSocket out @ ps)" by auto
  from ph have "\<exists>qs. phase (enable_servo (fc_rc s)) (Acts acts # k) qs \<and>
      ps = (if c = RollServoSocket then [bs] else []) @ qs"
    by (rule phase_ActsE) (fastforce intro: phase.intros)+
  with n show ?case by auto
next
  case (Done k s out)
  then show ?case by (auto elim!: phase_ActsE intro: phase.intros)
qed

section \<open>Reachable configurations\<close>

lemma call_handler_outer: "outer_act (Send (call_handler h p))"
  by (cases h) auto

lemma format_sequenced_error_outer: "list_all outer_act (format_sequenced_error port ts e r)"
  by (simp add: format_sequenced_error_def)

lemma demux_outer: "only outer_act (demux start s a)"
proof -
  have "only outer_act (sequenced_receive port buffer len ts type)" for port buffer len ts type
    unfolding sequenced_receive_def Let_def
    by (intro only_intros) (simp_all add: format_sequenced_error_outer call_handler_outer del: outer_act.simps)
  then have "only outer_act (case route_of port of
      Sequenced v \<Rightarrow> do { (type, out) \<leftarrow> sequenced_receive port buffer len ts (seq s' v);
                          Some (s'\<lparr>seq := (seq s')(v := type)\<rparr>, out) }
    | RawArm \<Rightarrow> Some (s', [Send (demuxed_ARM buffer len ts)])
    | RawRC \<Rightarrow> Some (s', [Send (demuxed_RC buffer len ts)])
    | NoRoute \<Rightarrow> Some (s', []))" for port buffer len ts s'
    by (cases "route_of port") (fastforce simp: only_def Option.bind_eq_Some_conv)+
  then show ?thesis unfolding demux_def Let_def case_prod_unfold
    by (intro only_intros) simp_all
qed

lemma handler_outer:
  assumes "handler env s e = Some (t, acts)"
  shows "list_all outer_act acts" and "fc_rs t = fc_rs s" and "fc_rc t = fc_rc s"
proof -
  show "fc_rs t = fc_rs s" "fc_rc t = fc_rc s"
    using assms by (cases e; auto simp: Option.bind_eq_Some_conv split: prod.splits)+
  show "list_all outer_act acts"
  proof (cases e)
    case (EthReadable a)
    with assms onlyD [OF demux_outer] show ?thesis by (auto simp: Option.bind_eq_Some_conv)
  next
    case LogTimeout
    then have "list_all to_log acts"
      using assms flush_log_acts [of "logger_clock env" "fc_log s"]
      by (auto simp: log_timeout_def split: prod.splits)
    then show ?thesis using to_log_outer by blast
  next
    case (RnhReadable fd stack r)
    with assms show ?thesis by (cases r) (auto simp: version_callback_def split: prod.splits)
  qed
qed

lemma servo_inv_reachable:
  assumes "reachable env senv c" and glue: "calls_as_listed (glue env)"
  shows "servo_inv c"
  using assms(1)
proof (induction rule: reachable.induct)
  case Start
  have "counted 0 []" by (simp add: counted_def)
  moreover have "fc_rs (fc_start senv) = 0" by (simp add: fc_start_def)
  ultimately show ?case by (auto intro!: exI [of _ "[]"] phase.Outer)
next
  case (Event s out e t acts)
  then obtain ps where "phase (enable_servo (fc_rc s)) [] ps" and n: "counted (fc_rs s) (written RollServoSocket out @ ps)"
    by auto
  then have "ps = []" by (auto elim: phase.cases)
  with n handler_outer [OF Event.hyps(2)] show ?case
    by (auto intro!: exI [of _ "[]"] phase.Outer)
next
  case (Step c d)
  then show ?case using servo_inv_step [OF _ glue] by blast
qed

text \<open>Two ways through the machine, one of which stops, are one way.\<close>

lemma dispatch_ahead:
  assumes "(dispatch env)\<^sup>*\<^sup>* a c" and "(dispatch env)\<^sup>*\<^sup>* a d" and "\<nexists>x. dispatch env d x"
  shows "(dispatch env)\<^sup>*\<^sup>* c d"
  using assms
proof (induction rule: converse_rtranclp_induct)
  case (step a b)
  then show ?case by (metis converse_rtranclpE dispatch_deterministic)
qed

lemma stops_no_infinite:
  assumes "(dispatch env)\<^sup>*\<^sup>* c d" and "\<nexists>x. dispatch env d x" and "f 0 = c"
  shows "\<exists>i. \<not> dispatch env (f i) (f (Suc i))"
  using assms
proof (induction arbitrary: f rule: converse_rtranclp_induct)
  case base
  then show ?case by metis
next
  case (step a b)
  show ?case
  proof (rule ccontr)
    assume "\<not> ?case"
    then have f: "\<And>i. dispatch env (f i) (f (Suc i))" by blast
    with step.hyps(1) step.prems(2) have "f (Suc 0) = b" using dispatch_deterministic by metis
    with step.IH [OF step.prems(1), of "\<lambda>i. f (Suc i)"] f show False by blast
  qed
qed

lemma reachable_stops:
  assumes "reachable env senv c" and glue: "calls_as_listed (glue env)"
  shows "\<exists>d. (dispatch env)\<^sup>*\<^sup>* c d \<and> (fst d = [] \<or> faulty env d)"
proof -
  from reachable_from [OF assms] obtain s out
    where "c = ([], s, out) \<or> (\<exists>e t acts. handler env s e = Some (t, acts) \<and>
      (dispatch env)\<^sup>*\<^sup>* ([Acts acts], t, out) c)" by blast
  then show ?thesis
  proof
    assume "\<exists>e t acts. handler env s e = Some (t, acts) \<and> (dispatch env)\<^sup>*\<^sup>* ([Acts acts], t, out) c"
    then obtain t acts where c: "(dispatch env)\<^sup>*\<^sup>* ([Acts acts], t, out) c" by blast
    have "perform NESTING env acts t \<noteq> Inl TooDeep" using dispatch_ends [OF glue] by blast
    with dispatch_leads(2) [of env acts "[]" t out NESTING]
    obtain d where d: "(dispatch env)\<^sup>*\<^sup>* ([Acts acts], t, out) d" "fst d = [] \<or> faulty env d"
      by (auto simp: leads_def split: sum.splits failure.splits)
    with dispatch_ahead [OF c d(1)] stops_iff [of env d] show ?thesis by blast
  qed auto
qed

end
