(* ===== verification/Fc_Machine.thy ===== *)
theory Fc_Machine
  imports Fc_Servo_Steps Fc_Properties
begin

text \<open>
  The properties of the machine: it is the program, each of its turns ends, and the packets for the
  servo board are honest and numbered at every moment.
\<close>

section \<open>Runs and turns\<close>

text \<open>A run with a packet to the servo board, for the witnesses.\<close>

lemma safe_first:
  obtains t out where "run (fc_step plain_env) (fc_start env0) [EthReadable safe_arrival] = Some (t, out)"
    and "written RollServoSocket out = [be32 0 @ be16 25202 @ [1]]"
proof -
  have "from_port ARM_PORT (chars ''#SAFE'') safe_arrival" by (simp add: from_port_def safe_arrival_def)
  moreover have "fc_rs (fc_start env0) = 0" by (simp add: fc_start_def)
  ultimately obtain t logs where 1: "fc_step plain_env (fc_start env0) (EthReadable safe_arrival) = Some (t,
      Write RollServoSocket (be32 0 @ be16 25202 @ [1]) # logs @ [Write ArmSocket (chars ''successful SAFE'')])"
    and "\<exists>n gs. logs = group_out n gs"
    by (metis safe_datagram [OF plain_env_glue fc_inv_start _ holds_start])
  then have "written RollServoSocket logs = []" by auto
  moreover have "run (fc_step plain_env) (fc_start env0) [EthReadable safe_arrival] = Some (t,
      Write RollServoSocket (be32 0 @ be16 25202 @ [1]) # logs @ [Write ArmSocket (chars ''successful SAFE'')])"
    using 1(1) by simp
  ultimately show thesis using that by simp
qed

lemma written_iff: "bs \<in> set (written c out) \<longleftrightarrow> Write c bs \<in> set out"
proof (induction out)
  case (Cons x out)
  then show ?case by (cases x) auto
qed simp

text \<open>
  C14: the function that runs a turn of the main loop and the machine of single calls agree. With the
  senders connected as in \<open>main.miml\<close>, the configurations in which the machine is back at the main
  loop are exactly the results of the runs of \<open>fc_step\<close> from the start, with the same output: the bound
  on the nesting of senders in \<open>fc_step\<close> cuts nothing off, and nothing else can happen between two
  callbacks.
\<close>

theorem main_loop_equivalent:
  assumes "calls_as_listed (glue env)"
  shows "reachable env senv ([], t, out) \<longleftrightarrow>
    (\<exists>es. run (fc_step env) (fc_start senv) es = Some (t, out))"
proof
  assume "\<exists>es. run (fc_step env) (fc_start senv) es = Some (t, out)"
  then show "reachable env senv ([], t, out)"
    using reachable_run [OF _ reachable.Start, of env senv _ t out] by auto
next
  assume "reachable env senv ([], t, out)"
  from reachable_from [OF this assms] obtain es s o1
    where r: "run (fc_step env) (fc_start senv) es = Some (s, o1)"
    and c: "([], t, out) = ([], s, o1) \<or> (\<exists>e u acts. handler env s e = Some (u, acts) \<and>
      (dispatch env)\<^sup>*\<^sup>* ([Acts acts], u, o1) ([], t, out))" by blast
  from c show "\<exists>es. run (fc_step env) (fc_start senv) es = Some (t, out)"
  proof
    assume "\<exists>e u acts. handler env s e = Some (u, acts) \<and> (dispatch env)\<^sup>*\<^sup>* ([Acts acts], u, o1) ([], t, out)"
    then obtain e o2 where "fc_step env s e = Some (t, o2)" "out = o1 @ o2"
      using turn_over [OF assms] by blast
    with r have "run (fc_step env) (fc_start senv) (es @ [e]) = Some (t, out)" by (simp add: run_append)
    then show ?thesis by blast
  qed (use r in auto)
qed

lemma main_loop_equivalent_witness:
  "\<exists>t out. reachable plain_env env0 ([], t, out) \<and> written RollServoSocket out = [be32 0 @ be16 25202 @ [1]]"
proof -
  obtain t out where "run (fc_step plain_env) (fc_start env0) [EthReadable safe_arrival] = Some (t, out)"
    and w: "written RollServoSocket out = [be32 0 @ be16 25202 @ [1]]" by (rule safe_first)
  then have "reachable plain_env env0 ([], t, out)"
    using main_loop_equivalent [OF plain_env_glue, of env0 t out] by blast
  with w show ?thesis by blast
qed

text \<open>
  C11: every turn ends. From every configuration that the program can reach, whatever arrived, the calls
  and writes that remain come to an end: the machine gets back to the main loop, or stops at a
  receiver that would leave its objects, and there is no infinite chain of calls.
\<close>

theorem turn_ends:
  assumes "calls_as_listed (glue env)" and "reachable env senv c"
  shows "(\<exists>d. (dispatch env)\<^sup>*\<^sup>* c d \<and> (fst d = [] \<or> faulty env d)) \<and>
    \<not> (\<exists>f. f 0 = c \<and> (\<forall>i. dispatch env (f i) (f (Suc i))))"
proof -
  from reachable_stops [OF assms(2,1)] obtain d
    where d: "(dispatch env)\<^sup>*\<^sup>* c d" "fst d = [] \<or> faulty env d" by blast
  with stops_no_infinite [OF d(1)] stops_iff [of env d] show ?thesis by blast
qed

text \<open>The configuration at the start of a turn.\<close>

lemma safe_under_way: "\<exists>s b ts. reachable plain_env env0 ([Acts [Send (demuxed_ARM b 5 ts)]], s, [])"
proof -
  have "from_port ARM_PORT (chars ''#SAFE'') safe_arrival" by (simp add: from_port_def safe_arrival_def)
  then obtain ts e b where "demux (start_time plain_env) eth_start safe_arrival =
      Some (e, [Send (demuxed_ARM b 5 ts)])"
    by (rule demux_datagram [OF eth_inv_start, where start = "start_time plain_env"])
      (simp_all add: ETH_MTU_def route_ports Let_def chars_def)
  then have "handler plain_env (fc_start env0) (EthReadable safe_arrival) =
      Some ((fc_start env0)\<lparr>fc_eth := e\<rparr>, [Send (demuxed_ARM b 5 ts)])" by (simp add: fc_start_fields)
  from reachable.Event [OF reachable.Start this] show ?thesis by blast
qed

lemma turn_ends_witness:
  "\<exists>s x d. reachable plain_env env0 ([Acts [Send x]], s, []) \<and>
    (dispatch plain_env)\<^sup>*\<^sup>* ([Acts [Send x]], s, []) d \<and> (fst d = [] \<or> faulty plain_env d)"
proof -
  obtain s x where r: "reachable plain_env env0 ([Acts [Send x]], s, [])" using safe_under_way by blast
  from turn_ends [OF plain_env_glue r] r show ?thesis by blast
qed

section \<open>Packets to the servo board\<close>

text \<open>
  C4: the servo board is never told otherwise than roll control decided. Whenever the program is about
  to write a packet to the servo board, in whatever it is doing, the flag that ends the packet is 0 if
  roll control has the servos enabled at this moment, and 1 if not.
\<close>

theorem servo_flag_honest:
  assumes "calls_as_listed (glue env)"
    and "reachable env senv (Acts (Write RollServoSocket bs # acts) # k, s, out)"
  shows "last bs = (if enable_servo (fc_rc s) then 0 else 1)"
proof -
  from servo_inv_reachable [OF assms(2,1)] obtain ps
    where "phase (enable_servo (fc_rc s)) (Acts (Write RollServoSocket bs # acts) # k) ps" by auto
  then show ?thesis by (rule phase_ActsE) auto
qed

text \<open>Whatever is in the output was about to be written.\<close>

lemma written_was_next:
  assumes "(dispatch env)\<^sup>*\<^sup>* c d" and "Write ch bs \<in> set (snd (snd d))" and "Write ch bs \<notin> set (snd (snd c))"
  shows "\<exists>acts k s out. (dispatch env)\<^sup>*\<^sup>* c (Acts (Write ch bs # acts) # k, s, out)"
  using assms
proof (induction rule: rtranclp_induct)
  case (step d e)
  show ?case
  proof (cases "Write ch bs \<in> set (snd (snd d))")
    case False
    with step.hyps(2) step.prems(1) have "\<exists>acts k s out. d = (Acts (Write ch bs # acts) # k, s, out)"
      by (cases rule: dispatch.cases) auto
    with step.hyps(1) show ?thesis by auto
  qed (use step in blast)
qed simp

lemma servo_flag_honest_witness:
  "\<exists>acts k s out. reachable plain_env env0
      (Acts (Write RollServoSocket (be32 0 @ be16 25202 @ [1]) # acts) # k, s, out) \<and>
    \<not> enable_servo (fc_rc s)"
proof -
  let ?w = "Write RollServoSocket (be32 0 @ be16 25202 @ [1])"
  obtain t out where "run (fc_step plain_env) (fc_start env0) [EthReadable safe_arrival] = Some (t, out)"
    and "written RollServoSocket out = [be32 0 @ be16 25202 @ [1]]" by (rule safe_first)
  then have 1: "fc_step plain_env (fc_start env0) (EthReadable safe_arrival) = Some (t, out)" "?w \<in> set out"
    by (auto simp: run_Cons_Some written_iff [symmetric] simp del: run.simps(2) fc_step.simps)
  then obtain u acts where h: "handler plain_env (fc_start env0) (EthReadable safe_arrival) = Some (u, acts)"
    and p: "perform NESTING plain_env acts u = Inr (t, out)"
    by (auto simp: fc_step_handler settle_Some Option.bind_eq_Some_conv)
  have "(dispatch plain_env)\<^sup>*\<^sup>* ([Acts acts], u, []) ([], t, out)"
    using dispatch_leads(2) [of plain_env acts "[]" u "[]" NESTING] p by (simp add: leads_def)
  from written_was_next [OF this, of RollServoSocket "be32 0 @ be16 25202 @ [1]"] 1(2) obtain as k s o1
    where d: "(dispatch plain_env)\<^sup>*\<^sup>* ([Acts acts], u, []) (Acts (?w # as) # k, s, o1)" by auto
  have r: "reachable plain_env env0 (Acts (?w # as) # k, s, o1)"
    by (rule reachable_steps [OF d reachable.Event [OF reachable.Start h]])
  from servo_flag_honest [OF plain_env_glue r] have "\<not> enable_servo (fc_rc s)" by (auto split: if_splits)
  with r show ?thesis by blast
qed

text \<open>
  C12: the servo board sees one sequence. Along every run from the start, whatever arrives, the packets
  written to the servo board carry the numbers 0, 1, 2 and so on, wrapping at 32 bits, in their
  first four bytes, without a gap and without a repetition.
\<close>

theorem servo_packets_numbered:
  assumes "calls_as_listed (glue env)" and "run (fc_step env) (fc_start senv) es = Some (t, out)"
  shows "map (take 4) (written RollServoSocket out) =
    map (\<lambda>i. be32 (word_of_nat i)) [0..<length (written RollServoSocket out)]"
proof -
  have "reachable env senv ([], t, out)" using reachable_run [OF assms(2) reachable.Start] by simp
  from servo_inv_reachable [OF this assms(1)] obtain ps
    where "phase (enable_servo (fc_rc t)) [] ps" and c: "counted (fc_rs t) (written RollServoSocket out @ ps)"
    by auto
  then have "ps = []" by (auto elim: phase.cases)
  with c show ?thesis by (simp add: counted_def)
qed

lemma servo_packets_numbered_witness:
  "\<exists>t out. run (fc_step plain_env) (fc_start env0) [EthReadable safe_arrival] = Some (t, out) \<and>
    map (take 4) (written RollServoSocket out) = [be32 0]"
proof -
  obtain t out where r: "run (fc_step plain_env) (fc_start env0) [EthReadable safe_arrival] = Some (t, out)"
    and w: "written RollServoSocket out = [be32 0 @ be16 25202 @ [1]]" by (rule safe_first)
  from servo_packets_numbered [OF plain_env_glue r] have "map (take 4) (written RollServoSocket out) = [be32 0]"
    unfolding w by (simp only: list.size) simp
  with r show ?thesis by (intro exI conjI)
qed

end
