(* ===== verification/Fc_Typed.thy ===== *)
theory Fc_Typed
  imports Fc_Machine
begin

text \<open>
  A type system for the calls of the program: what the arguments of a message look like, that every
  message which is under way at any moment is well formed, and that a receiver which gets a well-formed
  message leaves its objects only in three named cases.
\<close>

section \<open>Well-formed messages\<close>

text \<open>A packet that the filter withholds from the ground: one that the log can hold, or the packet of a
  frame of length zero, which claims to be longer than its buffer.\<close>

definition disk_packet :: "packet \<Rightarrow> bool" where
  "disk_packet p \<longleftrightarrow> log_admissible (LogDiskOnly p) \<or> data_length p = 65535 \<and> length (data p) < GPS_BUF"

fun well_formed :: "message \<Rightarrow> bool" where
  "well_formed (gps_data_out p) \<longleftrightarrow> gps_promise (gps_data_out p)"
| "well_formed (state_send_message i ts n st) \<longleftrightarrow> est_promise (state_send_message i ts n st)"
| "well_formed (filter_to_ground p) \<longleftrightarrow> log_admissible (LogGround p)"
| "well_formed (filter_to_disk p) \<longleftrightarrow> disk_packet p"
| "well_formed (arm_send_signal sig) \<longleftrightarrow> sig = ''ARM'' \<or> sig = ''SAFE''"
| "well_formed (rc_send_servo m) \<longleftrightarrow> servo_message_ok m"
| "well_formed (rnh_version_out buffer len) \<longleftrightarrow> unat len \<le> length buffer \<and> unat len \<le> 50"
| "well_formed m \<longleftrightarrow> eth_promise m"

text \<open>The calls in which a well-formed message may still be too much for its receiver.\<close>

fun hazard :: "fc_env \<Rightarrow> receiver \<Rightarrow> message \<Rightarrow> bool" where
  "hazard env GPS_cots_raw_in (demuxed_COTS p) \<longleftrightarrow> 512 < unat (data_length p)"
| "hazard env LOG_log_write_disk_only (filter_to_disk p) \<longleftrightarrow> data_length p = 65535"
| "hazard env RC_rc_receive_state (state_send_message i ts n st) \<longleftrightarrow> \<not> dense (c_exp env) st"
| "hazard env r m \<longleftrightarrow> False"

fun sound :: "action \<Rightarrow> bool" where
  "sound (Send m) \<longleftrightarrow> well_formed m"
| "sound (Write c bs) \<longleftrightarrow> external_ok (Write c bs)"

definition goes :: "fc_env \<Rightarrow> receiver \<Rightarrow> message \<Rightarrow> fc_state \<Rightarrow> bool" where
  "goes env r m s \<longleftrightarrow> (\<exists>t acts m'. receive env r m s = Some (t, acts, m') \<and> fc_inv t \<and> list_all sound acts)"

lemma goesI:
  "receive env r m s = Some (t, acts, m') \<Longrightarrow> fc_inv t \<Longrightarrow> \<forall>x\<in>set acts. sound x \<Longrightarrow> goes env r m s"
  by (auto simp: goes_def list_all_iff)

section \<open>One call\<close>

lemma external_sound: "external_ok x \<Longrightarrow> sound x"
  by (cases x) auto

lemma log_goes:
  assumes inv: "fc_inv s" and adm: "log_admissible e"
    and eq: "\<And>l out. log_step (logger_clock env) (fc_log s) e = Some (l, out) \<Longrightarrow>
      \<exists>m'. receive env r m s = Some (s\<lparr>fc_log := l\<rparr>, out, m')"
  shows "goes env r m s"
proof -
  have "log_inv (fc_log s)" using inv by (simp add: fc_inv_def)
  then obtain l out where l: "log_step (logger_clock env) (fc_log s) e = Some (l, out)" "log_inv l"
    "\<forall>x\<in>set out. log_allowed x" using adm by (rule log_step_done)
  from eq [OF l(1)] obtain m' where "receive env r m s = Some (s\<lparr>fc_log := l\<rparr>, out, m')" by blast
  then show ?thesis
    by (rule goesI) (use inv l log_allowed_external external_sound in \<open>auto simp: fc_inv_def\<close>)
qed

lemma rc_goes:
  assumes inv: "fc_inv s" and adm: "rc_admissible (c_exp env) e"
    and eq: "\<And>c out. rc_step (rc_clock env) (c_exp env) (fc_rc s) e = Some (c, out) \<Longrightarrow>
      receive env r m s = Some (s\<lparr>fc_rc := c\<rparr>, out, m)"
  shows "goes env r m s"
proof -
  have "rc_inv (fc_rc s)" using inv by (simp add: fc_inv_def)
  from rc.step_ok [OF this adm, of "rc_clock env"] obtain c out
    where c: "rc_step (rc_clock env) (c_exp env) (fc_rc s) e = Some (c, out)" "rc_inv c"
      "\<forall>x\<in>set out. rc_allowed x" by blast
  from eq [OF c(1)] show ?thesis
    by (rule goesI) (use inv c rc_allowed_cases external_sound in \<open>fastforce simp: fc_inv_def\<close>)+
qed

lemma arm_goes:
  assumes inv: "fc_inv s" and adm: "arm_admissible e"
    and eq: "\<And>c out. arm_step (fc_arm s) e = Some (c, out) \<Longrightarrow>
      receive env r m s = Some (s\<lparr>fc_arm := c\<rparr>, out, m)"
  shows "goes env r m s"
proof -
  have "arm_inv (fc_arm s)" using inv by (simp add: fc_inv_def)
  from arm.step_ok [OF this adm] obtain c out
    where c: "arm_step (fc_arm s) e = Some (c, out)" "arm_inv c" "\<forall>x\<in>set out. arm_allowed x" by blast
  from eq [OF c(1)] show ?thesis
    by (rule goesI) (use inv c arm_allowed_cases external_sound in \<open>fastforce simp: fc_inv_def\<close>)+
qed

lemma log_write_goes:
  assumes "fc_inv s" and "packet_args m = Some p" and "log_admissible (LogGround p)"
  shows "goes env LOG_log_write m s"
  by (rule log_goes [OF assms(1,3)]) (use assms(2) in auto)

lemma filter_goes:
  assumes "fc_inv s" and "packet_args m = Some p"
    and "if disk_only (ID p) then disk_packet p else log_admissible (LogGround p)"
  shows "goes env FILTER_filter_receive m s"
  by (rule goesI [where t = s]) (use assms in \<open>auto simp: filter_receive_eq\<close>)

lemma cots_goes:
  assumes inv: "fc_inv s" and p: "eth_promise (demuxed_COTS p)" and n: "unat (data_length p) \<le> 512"
  shows "goes env GPS_cots_raw_in (demuxed_COTS p) s"
proof -
  have "gps_inv (fc_gps s)" "accepted p" using assms
    by (auto simp: fc_inv_def packet_shape_def accepted_def readable_def GPS_BUF_def ETH_MTU_def)
  from gps.step_ok [OF this] obtain g out
    where g: "cots_raw_in (fc_gps s) p = Some (g, out)" "gps_inv g" "\<forall>x\<in>set out. promised gps_promise x"
    by blast
  have "sound x" if "promised gps_promise x" for x
    using that by (cases x; cases "case x of Send m \<Rightarrow> m") auto
  with g inv show ?thesis by (intro goesI [where t = "s\<lparr>fc_gps := g\<rparr>"]) (auto simp: fc_inv_def)
qed

lemma imu_goes:
  assumes inv: "fc_inv s" and p: "packet_shape ''ADIS'' 24 p"
  shows "goes env STATE_state_receive_imu (demuxed_ADIS p) s"
proof -
  have "est_inv (fc_est s)" "imu_ok p" using assms
    by (auto simp: fc_inv_def packet_shape_def imu_ok_def ETH_MTU_def)
  from est.step_ok [OF this] obtain e out
    where e: "state_receive_imu (fc_est s) p = Some (e, out)" "est_inv e" "\<forall>x\<in>set out. promised est_promise x"
    by blast
  have "sound x" if "promised est_promise x" for x
    using that by (cases x; cases "case x of Send m \<Rightarrow> m") auto
  with e inv show ?thesis by (intro goesI [where t = "s\<lparr>fc_est := e\<rparr>"]) (auto simp: fc_inv_def)
qed

lemma servo_goes:
  assumes inv: "fc_inv s" and m: "servo_message_ok m"
  shows "goes env RS_rs_receive_adj (rc_send_servo m) s" and "goes env LOG_log_receive_rc (rc_send_servo m) s"
proof -
  obtain k bs where "rs_receive_adj (fc_rs s) m = Some (k, [Write RollServoSocket bs])" "servo_bytes bs"
    using rs_receive_adj_promised [OF m] by blast
  with inv show "goes env RS_rs_receive_adj (rc_send_servo m) s"
    by (intro goesI [where t = "s\<lparr>fc_rs := k\<rparr>"]) (auto simp: fc_inv_def)
  have "log_admissible (LogRC m)" using m by (simp add: servo_message_ok_def)
  then show "goes env LOG_log_receive_rc (rc_send_servo m) s"
    by (rule log_goes [OF inv]) (auto simp: Option.bind_eq_Some_conv)
qed

text \<open>Progress: a call that is not one of the three goes through.\<close>

lemma frame_goes:
  assumes inv: "fc_inv s" and p: "gps_promise (gps_data_out p)" and r: "r \<in> set (connections (gps_data_out p))"
  shows "goes env r (gps_data_out p) s"
proof -
  have "arm_admissible (ArmGps p)" using p by auto
  then have "goes env ARM_arm_receive_gps (gps_data_out p) s"
    by (rule arm_goes [OF inv]) auto
  moreover have "if disk_only (ID p) then disk_packet p else log_admissible (LogGround p)"
    using p by (auto simp: disk_packet_def writable_def disk_only_def)
  then have "goes env FILTER_filter_receive (gps_data_out p) s"
    by (intro filter_goes [OF inv]) simp_all
  ultimately show ?thesis using r by auto
qed

lemma jgps_goes:
  assumes inv: "fc_inv s" and p: "eth_promise (demuxed_JGPS p)"
  shows "goes env FILTER_filter_receive (demuxed_JGPS p) s"
proof -
  from p obtain k where "k \<le> 1496" "packet_shape ''JGPS'' k p" by (auto simp: ETH_MTU_def)
  then have "disk_only (ID p)" "disk_packet p"
    by (auto simp: disk_packet_def packet_shape_def writable_def ETH_MTU_def disk_only_def)
  then have "if disk_only (ID p) then disk_packet p else log_admissible (LogGround p)" by (simp only: if_True)
  then show ?thesis by (intro filter_goes [OF inv]) simp_all
qed

lemma call_goes:
  assumes inv: "fc_inv s" and m: "well_formed m" and r: "r \<in> set (connections m)"
    and h: "\<not> hazard env r m"
  shows "goes env r m s"
proof (cases m)
  case (demuxed_ADIS p)
  then have p: "packet_shape ''ADIS'' 24 p" using m by simp
  then have w: "log_admissible (LogGround p)" and a: "arm_admissible (ArmImu p)"
    by (simp_all add: packet_shape_def writable_def ETH_MTU_def)
  have "goes env LOG_log_write m s" by (rule log_write_goes [OF inv _ w]) (simp add: demuxed_ADIS)
  moreover have "goes env ARM_arm_receive_imu m s" by (rule arm_goes [OF inv a]) (simp add: demuxed_ADIS)
  ultimately have "goes env LOG_log_write m s" "goes env ARM_arm_receive_imu m s" .
  with r demuxed_ADIS imu_goes [OF inv p] show ?thesis by auto
next
  case (demuxed_ARM buffer len ts)
  then have "arm_admissible (ArmRaw buffer len)" using m by (simp add: raw_shape_def)
  then have "goes env ARM_arm_raw_in m s" by (rule arm_goes [OF inv]) (simp add: demuxed_ARM)
  with r demuxed_ARM show ?thesis by simp
next
  case (demuxed_RC buffer len ts)
  then have "rc_admissible (c_exp env) (RcTest buffer len)" using m by (simp add: raw_shape_def)
  then have "goes env RC_rc_raw_testrc m s" by (rule rc_goes [OF inv]) (simp add: demuxed_RC)
  with r demuxed_RC show ?thesis by simp
next
  case (demuxed_RNHUMB p)
  then have p: "packet_shape ''RNHU'' 1 p" using m by simp
  then have "rc_admissible (c_exp env) (RcUmb p)" by (auto simp: packet_shape_def ETH_MTU_def)
  then have "goes env RC_rc_raw_umb m s" by (rule rc_goes [OF inv]) (simp add: demuxed_RNHUMB)
  moreover have "goes env LOG_log_write m s"
    using packet_log_admissible [OF p] demuxed_RNHUMB by (intro log_write_goes [OF inv]) simp_all
  ultimately show ?thesis using r demuxed_RNHUMB by auto
next
  case (demuxed_JGPS p)
  with r m jgps_goes [OF inv] show ?thesis by simp
next
  case (demuxed_COTS p)
  with r m h cots_goes [OF inv] show ?thesis by simp
next
  case (gps_data_out p)
  with r m frame_goes [OF inv] show ?thesis by simp
next
  case (state_send_message i ts n st)
  then have "rc_admissible (c_exp env) (RcState i ts st)" using m h r by simp
  then have "goes env RC_rc_receive_state m s" by (rule rc_goes [OF inv]) (simp add: state_send_message)
  with r state_send_message show ?thesis by simp
next
  case (arm_send_signal sig)
  then have "goes env RC_rc_receive_arm m s"
    by (intro rc_goes [OF inv, of _ "RcArm sig"]) (auto split: prod.splits)
  moreover have "log_admissible (LogArm sig)" using m arm_send_signal by auto
  then have "goes env LOG_log_receive_arm m s" by (rule log_goes [OF inv]) (simp add: arm_send_signal)
  ultimately show ?thesis using r arm_send_signal by auto
next
  case (rnh_version_out buffer len)
  then have "log_admissible (LogVersion buffer len)" using m by simp
  then have "goes env LOG_log_receive_rnh_version m s"
    by (rule log_goes [OF inv]) (simp add: rnh_version_out)
  with r rnh_version_out show ?thesis by simp
next
  case (rc_send_servo x)
  with r m servo_goes [OF inv] show ?thesis by auto
next
  case (filter_to_disk p)
  then have "log_admissible (LogDiskOnly p)" using m h r by (simp add: disk_packet_def)
  then have "goes env LOG_log_write_disk_only m s" by (rule log_goes [OF inv]) (simp add: filter_to_disk)
  with r filter_to_disk show ?thesis by simp
qed (use m r log_write_goes [OF inv] packet_log_admissible in \<open>fastforce simp: writable_def\<close>)+

text \<open>Two of the three cannot go through.\<close>

lemma hazard_faults:
  assumes inv: "fc_inv s" and m: "well_formed m" and h: "hazard env r m" and r: "r \<noteq> RC_rc_receive_state"
  shows "receive env r m s = None"
proof -
  from h r consider p where "r = GPS_cots_raw_in" "m = demuxed_COTS p" "512 < unat (data_length p)"
    | p where "r = LOG_log_write_disk_only" "m = filter_to_disk p" "data_length p = 65535"
    by (cases r; cases m) auto
  then show ?thesis
  proof cases
    case 1
    with inv cots_raw_in_overflow [of "fc_gps s" p] show ?thesis by (simp add: fc_inv_def GPS_BUF_def)
  next
    case 2
    then have "length (data p) < 65535"
      using m by (auto simp: disk_packet_def GPS_BUF_def)
    then have "memcpy_from (data p) (unat (data_length p)) = None"
      using 2 by (simp add: memcpy_from_def)
    with 2 show ?thesis by (simp add: log_write_disk_only_def Let_def split: prod.splits Option.bind_splits)
  qed
qed

text \<open>Preservation also covers an estimate in thin air that the controller survives.\<close>

lemma estimate_alpha_double: "estimate_alpha cexp aa st = Some y \<Longrightarrow> is_double y"
  by (auto simp: estimate_alpha_def subsonic_fin_def supersonic_fin_def radiansToDegrees_def Let_def
      Option.bind_eq_Some_conv split: if_splits)

lemma rc_receive_state_sound:
  assumes ts: "6 \<le> length ts" and s: "rc_inv s" and "rc_receive_state clk cexp s i ts st = Some (t, out)"
  shows "rc_inv t \<and> (\<forall>x\<in>set out. rc_allowed x)"
proof -
  let ?e = "fsub pidTarget (roll_rate st)"
  consider "timed_out ts s" | "\<not> enable_servo s" | "\<not> timed_out ts s" "take 4 i \<noteq> ''VSTE''"
    | "\<not> timed_out ts s" "enable_servo s" "take 4 i = ''VSTE''" by blast
  then show ?thesis
  proof cases
    case 4
    then obtain y where y: "estimate_alpha cexp (pid_correction ?e s) st = Some y" using assms(3)
      by (auto simp: rc_receive_state_def check_timeout_eq [OF ts] memcmp_zero_def Let_def
          Option.bind_eq_Some_conv)
    from estimate_alpha_double [OF this] rc_receive_state_active [OF ts 4(1,2,3) y] assms(3)
      pid_update_inv [of ?e s] servo_message_ok_roll
    show ?thesis by (auto simp: rc_inv_def)
  qed (use assms in \<open>auto simp: rc_receive_state_timeout rc_receive_state_idle rc_receive_state_other rc_inv_def\<close>)
qed

lemma call_preserves:
  assumes inv: "fc_inv s" and m: "well_formed m" and r: "r \<in> set (connections m)"
    and rcv: "receive env r m s = Some (t, acts, m')"
  shows "fc_inv t \<and> list_all sound acts"
proof (cases "hazard env r m")
  case False
  from call_goes [OF inv m r False] rcv show ?thesis by (auto simp: goes_def)
next
  case True
  with hazard_faults [OF inv m] rcv have "r = RC_rc_receive_state" by force
  with True obtain i ts n st where x: "m = state_send_message i ts n st" by (cases m) auto
  with rcv \<open>r = RC_rc_receive_state\<close> obtain c
    where c: "rc_receive_state (rc_clock env) (c_exp env) (fc_rc s) i ts st = Some (c, acts)"
      "t = s\<lparr>fc_rc := c\<rparr>" by (auto simp: Option.bind_eq_Some_conv)
  have "rc_inv c \<and> (\<forall>x\<in>set acts. rc_allowed x)"
    using inv m x by (intro rc_receive_state_sound [OF _ _ c(1)]) (simp_all add: fc_inv_def)
  with inv c(2) rc_allowed_cases external_sound show ?thesis by (fastforce simp: fc_inv_def list_all_iff)
qed

section \<open>Every moment of the program is typed\<close>

fun typed_task :: "task \<Rightarrow> bool" where
  "typed_task (Acts acts) \<longleftrightarrow> list_all sound acts"
| "typed_task (Calls rs m) \<longleftrightarrow> (\<exists>pre. connections m = pre @ rs) \<and> (rs = [] \<or> well_formed m)"

fun typed :: "config \<Rightarrow> bool" where
  "typed (k, s, out) \<longleftrightarrow> fc_inv s \<and> list_all typed_task k"

lemma typed_rest:
  assumes "typed_task (Calls (r # rs) m)" and "receive env r m s = Some (t, acts, m')"
  shows "typed_task (Calls rs m')"
proof -
  from assms(1) obtain pre where d: "connections m = pre @ r # rs" and w: "well_formed m" by auto
  then have "connections m' = (pre @ [r]) @ rs" using receive_connections [OF assms(2)] by simp
  moreover have "rs = [] \<or> m' = m"
    using receive_message [OF assms(2)]
  proof
    assume "\<exists>x y. m = rc_send_servo x \<and> m' = rc_send_servo y"
    with d have "r = RS_rs_receive_adj \<or> rs = []" by (cases pre) (auto simp: Cons_eq_append_conv)
    with assms(2) show ?thesis by (auto simp: Option.bind_eq_Some_conv)
  qed simp
  ultimately show ?thesis using w by (auto simp del: append_assoc)
qed

lemma typed_step:
  assumes "dispatch env c d" and glue: "calls_as_listed (glue env)" and "typed c"
  shows "typed d"
  using assms(1,3)
proof (induction rule: dispatch.induct)
  case (Call r m s t acts m' rs k out)
  then have m: "well_formed m" "r \<in> set (connections m)" and inv: "fc_inv s" and k: "list_all typed_task k"
    by auto
  have "typed_task (Calls rs m')" by (rule typed_rest [OF _ Call.hyps]) (use Call.prems in simp)
  with call_preserves [OF inv m Call.hyps] k show ?case by simp
qed (use glue in \<open>auto simp: calls_as_listed_def\<close>)

lemma typed_handler:
  assumes h: "handler env s e = Some (t, acts)" and inv: "fc_inv s"
  shows "fc_inv t \<and> list_all sound acts"
proof (cases e)
  case (EthReadable a)
  with h obtain e' where d: "demux (start_time env) (fc_eth s) a = Some (e', acts)" "t = s\<lparr>fc_eth := e'\<rparr>"
    by (auto simp: Option.bind_eq_Some_conv)
  have "eth_inv (fc_eth s)" using inv by (simp add: fc_inv_def)
  from demux_promised [OF this, of "start_time env" a] d(1)
  have e': "eth_inv e'" "\<forall>x\<in>set acts. promised eth_promise x" by auto
  have "sound x" if "promised eth_promise x" for x
    using that by (cases x; cases "case x of Send m \<Rightarrow> m") auto
  with e' d(2) inv show ?thesis by (auto simp: fc_inv_def list_all_iff)
next
  case LogTimeout
  have "log_inv (fc_log s)" using inv by (simp add: fc_inv_def)
  from logger.step_ok [OF this, of LogTimer "logger_clock env"] LogTimeout h inv
    log_allowed_external external_sound
  show ?thesis by (auto simp: fc_inv_def list_all_iff split: prod.splits)
next
  case (RnhReadable fd stack r)
  with h inv show ?thesis
    by (cases r) (auto simp: version_callback_def copy_datagram_def Let_def unat_of_nat)
qed

lemma typed_reachable:
  assumes "reachable env senv c" and glue: "calls_as_listed (glue env)"
  shows "typed c"
  using assms(1)
proof (induction rule: reachable.induct)
  case Start
  show ?case by (simp add: fc_inv_start)
next
  case (Event s out e t acts)
  with typed_handler [OF Event.hyps(2)] show ?case by simp
next
  case (Step c d)
  then show ?case using typed_step [OF _ glue] by blast
qed

section \<open>Property\<close>

text \<open>
  C13: every call is well typed, and faults have three causes. Whatever arrived, whenever the program is
  about to call a receiver, the receiver is one that \<open>main.miml\<close> connects to the message, and the
  arguments have the form that the sender promises: sizes, identifiers, signals, angles. The call
  then leaves the memory of its objects only if it hands the GPS parser a datagram of more than 512
  bytes, or the logger a packet that claims 65535 bytes, the packet of a frame of length zero, or the
  controller an estimate for which the air density is below \<open>2 ^ -900\<close>; in the first two cases it does.
\<close>

theorem calls_well_typed:
  assumes "calls_as_listed (glue env)" and "reachable env senv (Calls (r # rs) m # k, s, out)"
  shows "r \<in> set (connections m) \<and> well_formed m \<and> (receive env r m s = None \<longrightarrow> hazard env r m) \<and>
    (hazard env r m \<and> r \<noteq> RC_rc_receive_state \<longrightarrow> receive env r m s = None)"
proof -
  from typed_reachable [OF assms(2,1)]
  have "fc_inv s" "well_formed m" "r \<in> set (connections m)" by auto
  with call_goes hazard_faults show ?thesis by (fastforce simp: goes_def)
qed

lemma calls_well_typed_witness:
  "\<exists>s b ts. reachable plain_env env0 ([Calls [ARM_arm_raw_in] (demuxed_ARM b 5 ts), Acts []], s, []) \<and>
    receive plain_env ARM_arm_raw_in (demuxed_ARM b 5 ts) s \<noteq> None"
proof -
  obtain s b ts where "reachable plain_env env0 ([Acts [Send (demuxed_ARM b 5 ts)]], s, [])"
    using safe_under_way by blast
  then have r: "reachable plain_env env0 ([Calls [ARM_arm_raw_in] (demuxed_ARM b 5 ts), Acts []], s, [])"
    by (rule reachable.Step) (simp add: plain_env_def)
  from calls_well_typed [OF plain_env_glue r] have "receive plain_env ARM_arm_raw_in (demuxed_ARM b 5 ts) s \<noteq> None"
    by (simp del: receive.simps)
  with r show ?thesis by blast
qed

end
