(* ===== verification/Fc_Arming.thy ===== *)
theory Fc_Arming
  imports Fc_Commands Fc_Typed
begin

text \<open>
  Which event can arm the rocket: roll control becomes armed only in a turn that starts with a datagram
  from the arming tool with the arm command, and only when the sensors allow it.
\<close>

section \<open>Messages that arm nothing\<close>

fun harmless_msg :: "message \<Rightarrow> bool" where
  "harmless_msg (demuxed_ARM _ _ _) \<longleftrightarrow> False"
| "harmless_msg (arm_send_signal sig) \<longleftrightarrow> sig \<noteq> ''ARM''"
| "harmless_msg _ \<longleftrightarrow> True"

fun harmless :: "action \<Rightarrow> bool" where
  "harmless (Send m) \<longleftrightarrow> harmless_msg m"
| "harmless (Write c bs) \<longleftrightarrow> True"

lemma can_harmless: "r \<noteq> ARM_arm_raw_in \<Longrightarrow> can r x \<Longrightarrow> harmless x"
  by (cases r; cases x; cases "case x of Send m \<Rightarrow> m") auto

lemma set_canard_angle_armed [simp]: "armed (fst (set_canard_angle clk d s)) = armed s"
  by (simp add: set_canard_angle_eq)

lemma rc_operations_armed:
  "rc_receive_state clk cexp c i ts st = Some (c', out) \<Longrightarrow> armed c' = armed c"
  "rc_raw_testrc clk c buffer len = Some (c', out) \<Longrightarrow> armed c' = armed c"
  "code \<noteq> ''ARM'' \<Longrightarrow> armed (fst (rc_receive_arm clk c code)) \<Longrightarrow> armed c"
proof -
  have t: "check_timeout clk ts c = Some (c', out) \<Longrightarrow> armed c' = armed c" for c' out
    by (auto simp: check_timeout_def set_servo_enable_def set_canard_angle_eq Option.bind_eq_Some_conv split: if_splits)
  show "rc_receive_state clk cexp c i ts st = Some (c', out) \<Longrightarrow> armed c' = armed c"
    by (auto simp: rc_receive_state_def Let_def set_canard_angle_eq Option.bind_eq_Some_conv dest!: t split: if_splits)
  show "rc_raw_testrc clk c buffer len = Some (c', out) \<Longrightarrow> armed c' = armed c"
    by (auto simp: rc_raw_testrc_def set_servo_enable_def set_canard_angle_eq Option.bind_eq_Some_conv split: if_splits)
  show "code \<noteq> ''ARM'' \<Longrightarrow> armed (fst (rc_receive_arm clk c code)) \<Longrightarrow> armed c"
    by (simp add: rc_receive_arm_eq split: if_splits)
qed

lemma receive_harmless:
  assumes rcv: "receive env r m s = Some (t, acts, m')" and r: "r \<in> set (connections m)" and m: "harmless_msg m"
  shows "armed (fc_rc t) \<Longrightarrow> armed (fc_rc s)" and "\<forall>x\<in>set acts. harmless x" and "harmless_msg m'"
proof -
  show "harmless_msg m'" using receive_message [OF rcv] m by auto
  have "r \<noteq> ARM_arm_raw_in" using r m by (cases m) auto
  with receive_can [OF rcv] can_harmless show "\<forall>x\<in>set acts. harmless x" by (auto simp: list_all_iff)
  show "armed (fc_rc t) \<Longrightarrow> armed (fc_rc s)"
  proof (cases "r \<in> {RC_rc_receive_state, RC_rc_receive_arm, RC_rc_raw_umb, RC_rc_raw_testrc}")
    case False
    with receive_rc [OF rcv] show "armed (fc_rc t) \<Longrightarrow> ?thesis" by simp
  next
    case True
    have code: "r = RC_rc_receive_arm \<Longrightarrow> \<exists>code. m = arm_send_signal code \<and> code \<noteq> ''ARM''"
      using r m by (cases m) auto
    from True rcv code rc_operations_armed rc_raw_umb_flags show "armed (fc_rc t) \<Longrightarrow> ?thesis"
      by (fastforce simp: Option.bind_eq_Some_conv case_prod_unfold Let_def split: message.split_asm)
  qed
qed

definition tame :: "fc_state \<Rightarrow> outcome \<Rightarrow> bool" where
  "tame s x \<longleftrightarrow> (\<forall>t out. x = Inr (t, out) \<longrightarrow> armed (fc_rc t) \<longrightarrow> armed (fc_rc s))"

lemma tame_followed: "tame s x \<Longrightarrow> (\<And>t. tame t (k t)) \<Longrightarrow> tame s (followed_by x k)"
  by (cases x) (fastforce simp: tame_def split: sum.splits)+

lemma tame_trans: "tame t x \<Longrightarrow> armed (fc_rc t) \<longrightarrow> armed (fc_rc s) \<Longrightarrow> tame s x"
  by (auto simp: tame_def)

lemma tame_dispatch:
  assumes "calls_as_listed (glue env)"
  shows "\<forall>r\<in>set rs. r \<in> set (connections m) \<Longrightarrow> harmless_msg m \<Longrightarrow> tame s (call_receivers n env rs m s)"
    and "\<forall>x\<in>set acts. harmless x \<Longrightarrow> tame s (perform n env acts s)"
  using assms
proof (induction n env rs m s and n env acts s rule: call_receivers_perform.induct)
  case (2 n env r rs m s)
  show ?case
  proof (cases "receive env r m s")
    case (Some x)
    then obtain t acts m' where x: "receive env r m s = Some (t, acts, m')" by (cases x) auto
    note h = receive_harmless [OF x _ 2(4)]
    have "\<forall>r\<in>set rs. r \<in> set (connections m')" using receive_connections [OF x] 2(3) by simp
    with h 2(1,2) [OF x] 2(3,5) have "tame t (call_receivers n env (r # rs) m s)"
      by (simp add: call_receivers.simps x tame_followed)
    then show ?thesis by (rule tame_trans) (use h 2(3) in auto)
  qed (simp add: call_receivers.simps tame_def)
next
  case (4 n env c bs acts s)
  then show ?case unfolding perform.simps by (intro tame_followed) (auto simp: tame_def)
next
  case (6 n env m acts s)
  then show ?case by (simp add: perform.simps tame_followed calls_as_listed_def)
qed (simp_all add: call_receivers.simps perform.simps tame_def)

section \<open>Datagrams that can arm\<close>

lemma arm_command_cong:
  assumes "take (unat len) b = take (unat len) c"
  shows "arm_command b len = arm_command c len"
proof -
  have "take (min (unat len) n) b = take (min (unat len) n) c" for n
    using arg_cong [OF assms, of "take n"] by (simp add: min.commute)
  then show ?thesis by (simp add: arm_command_def matches_def Let_def)
qed

text \<open>A message for the rocket manager carries what the arming tool sent, cut to the receive buffer.\<close>

lemma demux_cases:
  assumes inv: "eth_inv e" and d: "demux start e a = Some (e', out)"
  shows "(\<forall>x\<in>set out. harmless x) \<or>
    (\<exists>payload b ts. from_port ARM_PORT payload a \<and> payload \<noteq> [] \<and>
      out = [Send (demuxed_ARM b (word_of_nat (min ETH_MTU (length payload))) ts)] \<and>
      take (min ETH_MTU (length payload)) b = take (min ETH_MTU (length payload)) payload \<and> min ETH_MTU (length payload) \<le> length b)"
proof (cases "incoming a")
  case (RecvFailed errno)
  with d show ?thesis by (auto simp: demux_def Let_def split: if_split_asm)
next
  case (Datagram payload src cmsgs)
  have h: "sequenced_receive port b len ts type = Some (type', o') \<Longrightarrow> \<forall>x\<in>set o'. harmless x" for port b len ts type type' o'
  proof -
    assume "sequenced_receive port b len ts type = Some (type', o')"
    then have "\<forall>x\<in>set o'. quiet x" by (rule sequenced_receive_quiet)
    moreover have "quiet x \<Longrightarrow> harmless x" for x by (cases x; cases "case x of Send m \<Rightarrow> m") auto
    ultimately show ?thesis by blast
  qed
  let ?n = "min (length (eth_buffer e)) (length payload)"
  have n: "?n = min ETH_MTU (length payload)" "length (eth_buffer e) = ETH_MTU" using inv by (simp_all add: eth_inv_def)
  show ?thesis
  proof (cases "route_of (bswap16 (sin_port src)) = RawArm \<and> 0 < ?n")
    case True
    then have "bswap16 (bswap16 (sin_port src)) = bswap16 ARM_PORT" by (simp only: route_raw)
    then have "from_port ARM_PORT payload a" using Datagram by (simp add: from_port_def)
    moreover have "payload \<noteq> []" using True by auto
    moreover obtain ts where "out = [Send (demuxed_ARM (take ?n payload @ drop ?n (eth_buffer e)) (word_of_nat ?n) ts)]"
      using d True Datagram by (auto simp: demux_def Let_def copy_datagram_def)
    moreover have "take ?n (take ?n payload @ drop ?n (eth_buffer e)) = take ?n payload"
      "?n \<le> length (take ?n payload @ drop ?n (eth_buffer e))" by simp_all
    ultimately show ?thesis unfolding n(1) by blast
  next
    case False
    with d Datagram h show ?thesis
      by (auto simp: demux_def Let_def copy_datagram_def Option.bind_eq_Some_conv split: if_split_asm route.split_asm)
  qed
qed

text \<open>A turn in which roll control becomes armed.\<close>

lemma arming_turn:
  assumes glue: "calls_as_listed (glue env)" and inv: "fc_inv s" and st: "fc_step env s ev = Some (t, out)"
    and a: "\<not> armed (fc_rc s)" "armed (fc_rc t)"
  shows "\<exists>a payload. ev = EthReadable a \<and> from_port ARM_PORT payload a \<and> payload \<noteq> [] \<and>
    (if length payload \<le> 5 then payload = take (length payload) (chars ''#YOLO'')
     else take 6 payload = chars ''#YOLO'' @ [0]) \<and> sensors_allow (fc_arm s)"
proof -
  from st obtain u acts where h: "handler env s ev = Some (u, acts)" and p: "perform NESTING env acts u = Inr (t, out)"
    by (auto simp: fc_step_handler settle_Some Option.bind_eq_Some_conv)
  have u: "fc_rc u = fc_rc s" "fc_arm u = fc_arm s"
    using h by (cases ev; auto simp: Option.bind_eq_Some_conv split: prod.splits)+
  have loud: "\<not> (\<forall>x\<in>set acts. harmless x)"
    using tame_dispatch(2) [OF glue, where acts = acts and n = NESTING and s = u] p a u(1) by (auto simp: tame_def)
  show ?thesis
  proof (cases ev)
    case (EthReadable a)
    with h obtain e where d: "demux (start_time env) (fc_eth s) a = Some (e, acts)"
      by (auto simp: Option.bind_eq_Some_conv)
    have "eth_inv (fc_eth s)" using inv by (simp add: fc_inv_def)
    from demux_cases [OF this d] loud obtain payload b ts
      where port: "from_port ARM_PORT payload a" "payload \<noteq> []" and acts: "acts = [Send (demuxed_ARM b (word_of_nat (min ETH_MTU (length payload))) ts)]"
      and b: "take (min ETH_MTU (length payload)) b = take (min ETH_MTU (length payload)) payload" "min ETH_MTU (length payload) \<le> length b"
      by blast
    let ?len = "word_of_nat (min ETH_MTU (length payload)) :: u32"
    have len: "unat ?len = min ETH_MTU (length payload)" by (simp add: unat_of_nat ETH_MTU_def)
    have c: "arm_command b ?len = arm_command payload ?len"
      by (rule arm_command_cong) (simp only: len b(1))
    have "sensors_allow (fc_arm u) \<and> arm_command b ?len = YOLO"
    proof (rule ccontr)
      assume no: "\<not> ?thesis"
      obtain x o1 where r: "arm_raw_in (fc_arm u) b ?len = Some (x, o1)" and o1: "\<forall>x\<in>set o1. harmless x"
        using arm_raw_in [of ?len b "fc_arm u"] b(2) len no by (cases "arm_command b ?len") auto
      then have "tame u (call_receivers 2 env [ARM_arm_raw_in] (demuxed_ARM b ?len ts) u)"
        using tame_dispatch(2) [OF glue, where acts = o1 and n = 2 and s = "u\<lparr>fc_arm := x\<rparr>"]
        by (auto simp: call_receivers.simps tame_def followed_by_Inr)
      then have "tame u (perform NESTING env acts u)"
        using glue by (auto simp: acts NESTING_def numeral_3_eq_3 numeral_2_eq_2 perform.simps
            calls_as_listed_def tame_def followed_by_Inr)
      with p a u(1) show False by (auto simp: tame_def)
    qed
    moreover have "unat ?len \<le> 5 \<longleftrightarrow> length payload \<le> 5" "length payload \<le> 5 \<longrightarrow> unat ?len = length payload"
      unfolding len by (auto simp: ETH_MTU_def)
    ultimately have "if length payload \<le> 5 then payload = take (length payload) (chars ''#YOLO'')
        else take 6 payload = chars ''#YOLO'' @ [0]"
      using c arm_prefix_accepted [of payload ?len] by (simp split: if_splits)
    with \<open>sensors_allow (fc_arm u) \<and> _\<close> EthReadable port u(2) show ?thesis by auto
  qed (use h loud in \<open>auto simp: log_timeout_def version_callback_def flush_log_def Let_def split: prod.splits read_result.splits if_splits\<close>)
qed

section \<open>A run that arms\<close>

definition tool_arrival :: "bytes \<Rightarrow> arrival" where
  "tool_arrival payload = \<lparr>incoming = Datagram payload \<lparr>sin_port = bswap16 ARM_PORT, sin_addr = 0\<rparr> [],
     stale_info = \<lparr>sin_port = 0, sin_addr = 0\<rparr>, stale_ts = \<lparr>tv_sec = 0, tv_nsec = 0\<rparr>\<rparr>"

lemma tool_port: "from_port ARM_PORT payload (tool_arrival payload)"
  by (simp add: from_port_def tool_arrival_def)

lemma arming_run:
  obtains s o1 t o2 where "run (fc_step plain_env) (fc_start env0) [EthReadable (tool_arrival (chars ''DI_SLOCK''))] = Some (s, o1)"
    and "fc_step plain_env s (EthReadable (tool_arrival (chars ''#YOLO''))) = Some (t, o2)"
    and "\<not> armed (fc_rc s)" and "armed (fc_rc t)" and "\<not> slock_enable (fc_arm s)"
proof -
  let ?d = "chars ''DI_SLOCK''" and ?y = "chars ''#YOLO''"
  define s0 where "s0 = fc_start env0"
  have "fc_inv s0" unfolding s0_def by (rule fc_inv_start)
  moreover have "\<not> armed (fc_rc s0)"
    by (simp add: s0_def fc_start_def rollcontrol_init_def set_armed_def set_servo_enable_def
        udp_socket_def Let_def env0_def)
  ultimately have s0: "fc_inv s0" "\<not> armed (fc_rc s0)" by simp_all
  have cmd: "arm_command (received ?d e) 8 = DI_SLOCK" "arm_command (received ?y e) 5 = YOLO" for e
    unfolding arm_command_samples [symmetric] by (rule arm_command_cong; simp add: received_def)+
  have ne: "?d \<noteq> []" "?y \<noteq> []" by (simp_all add: chars_def)
  have len: "unat (8 :: u32) \<le> length (received ?d e)" "unat (5 :: u32) \<le> length (received ?y e)" for e
    by (simp_all add: received_def)
  let ?s = "s0\<lparr>fc_eth := (fc_eth s0)\<lparr>eth_buffer := received ?d (fc_eth s0)\<rparr>,
      fc_arm := (fc_arm s0)\<lparr>slock_enable := False\<rparr>\<rparr>"
  have "arm_raw_in (fc_arm s0) (received ?d (fc_eth s0)) (word_of_nat (length ?d)) =
      Some ((fc_arm s0)\<lparr>slock_enable := False\<rparr>, [Write ArmSocket (chars ''Sensor Lock Overridden'')])"
    using arm_raw_in [OF len(1)] cmd(1) by simp
  note d = tool_turn [OF plain_env_glue s0(1) tool_port ne(1) _ this]
  have "run (fc_step plain_env) (fc_start env0) [EthReadable (tool_arrival ?d)] =
      Some (?s, [Write ArmSocket (chars ''Sensor Lock Overridden'')])"
    using d by (simp add: s0_def ETH_MTU_def perform.simps numeral_2_eq_2 del: fc_step.simps)
  moreover have inv: "fc_inv ?s"
    using s0(1) by (simp add: fc_inv_def eth_inv_def arm_inv_def received_def ETH_MTU_def)
  moreover obtain t o2 where "fc_step plain_env ?s (EthReadable (tool_arrival ?y)) = Some (t, o2)" "armed (fc_rc t)"
  proof -
    have "arm_raw_in (fc_arm ?s) (received ?y (fc_eth ?s)) (word_of_nat (length ?y)) =
        Some (fc_arm ?s, [Send (arm_send_signal ''ARM''), Write ArmSocket (chars ''successful ARM'')])"
      using arm_raw_in [OF len(2), of "fc_arm ?s"] cmd(2) by (simp add: sensors_allow_def)
    note y = tool_turn [OF plain_env_glue inv tool_port ne(2) _ this]
    have "log_inv (fc_log ?s)" using inv by (simp add: fc_inv_def)
    then obtain l logs where "log_receive_arm (logger_clock plain_env) (fc_log s0) ''ARM'' = Some (l, logs)"
      "\<forall>x\<in>set logs. log_allowed x"
      by (rule log_step_done [where e = "LogArm ''ARM''" and clk = "logger_clock plain_env"]) simp_all
    with y plain_env_glue that show thesis
      by (simp add: ETH_MTU_def perform.simps numeral_2_eq_2 call_receivers.simps calls_as_listed_def
          rc_receive_arm_eq perform_writes del: fc_step.simps)
  qed
  ultimately show thesis using that s0(2) by simp
qed

section \<open>Property\<close>

text \<open>
  C6: only the arming tool arms the rocket. Whatever happened since the start, if roll control was
  disarmed and is armed after a turn of the main loop, then the turn was a datagram from the port of the
  arming tool whose own bytes, and not what an older datagram left in the buffer, are recognised as the
  arm command: one to five bytes that are a prefix of \<open>#YOLO\<close>, so that \<open>#\<close> alone arms as well, or more
  than five of which the first six are \<open>#YOLO\<close> and a NUL. Moreover the sensor lock was off, or the rocket
  manager had a GPS lock and a count of one hundred upright readings.
\<close>

theorem armed_only_by_tool:
  assumes "calls_as_listed (glue env)" and "run (fc_step env) (fc_start senv) es = Some (s, o1)"
    and "fc_step env s ev = Some (t, o2)" and "\<not> armed (fc_rc s)" and "armed (fc_rc t)"
  shows "\<exists>a payload. ev = EthReadable a \<and> from_port ARM_PORT payload a \<and> payload \<noteq> [] \<and>
    (if length payload \<le> 5 then payload = take (length payload) (chars ''#YOLO'')
     else take 6 payload = chars ''#YOLO'' @ [0]) \<and>
    (slock_enable (fc_arm s) \<longrightarrow> GPS_locked (fc_arm s) \<and> upright (fc_arm s) = 100)"
proof -
  have "reachable env senv ([], s, o1)" using reachable_run [OF assms(2) reachable.Start] by simp
  from typed_reachable [OF this assms(1)] have "fc_inv s" by simp
  from arming_turn [OF assms(1) this assms(3-5)] show ?thesis
    unfolding sensors_allow_def by blast
qed

lemma armed_only_by_tool_witness:
  "\<exists>s o1 payload. run (fc_step plain_env) (fc_start env0) [EthReadable (tool_arrival (chars ''DI_SLOCK''))] = Some (s, o1) \<and>
    from_port ARM_PORT payload (tool_arrival (chars ''#YOLO'')) \<and> payload \<noteq> []"
proof -
  obtain s o1 t o2 where 1: "run (fc_step plain_env) (fc_start env0) [EthReadable (tool_arrival (chars ''DI_SLOCK''))] = Some (s, o1)"
    "fc_step plain_env s (EthReadable (tool_arrival (chars ''#YOLO''))) = Some (t, o2)"
    "\<not> armed (fc_rc s)" "armed (fc_rc t)"
    by (rule arming_run)
  from armed_only_by_tool [OF plain_env_glue 1(1-4)] obtain a payload
    where "EthReadable (tool_arrival (chars ''#YOLO'')) = EthReadable a" "from_port ARM_PORT payload a" "payload \<noteq> []"
    by (elim exE conjE)
  with 1(1) show ?thesis by (simp only: fc_event.inject) blast
qed

end
