(* ===== verification/Spec2Isabelle.thy ===== *)
theory Spec2Isabelle
  imports Ethmux_Proofs Gps_Selftest Log_Filter Arm_Proofs Rollcontrol_Range Rollservo Logger_Properties
    Psas_Messages Sockets_Proofs Fc_Log_Properties Fc_Arming
begin

text \<open>
  \<^bold>\<open>The PSAS flight computer av3-fc\<close>

  The program runs on the flight computer of a rocket. One thread polls descriptors. Datagrams from
  the sensors arrive on one UDP socket, are checked and handed to modules, which answer commands,
  estimate the state of the rocket, drive the canards of the roll control and log everything to
  disk and to the ground. The modules do not call one another: each calls senders, and
  \<open>src/main.miml\<close> lists the receivers that a sender calls.

  \<^bold>\<open>Parts, theories and code\<close>

  \<^item> \<open>Fc_Prelude\<close>: bytes and byte orders, memory reads that fail outside an object, C strings, runs of
    a component, and the locales \<open>fixed_codec\<close>, \<open>stream_codec\<close> and \<open>component\<close>. The last one is the
    contract of a module: from its invariant, on admissible input, an operation does not fault, keeps
    the invariant and acts only within a policy. It is interpreted for every module below.
  \<^item> \<open>Psas_Packet\<close>: the packed structs of \<open>utilities/psas_packet.h\<close>, \<open>devices/mpl.h\<close>, \<open>devices/rnh.h\<close>
    and \<open>logger.h\<close> that the program uses, as layouts; the arguments of the senders (\<open>packet\<close>,
    \<open>ROLLMessage\<close>, \<open>state_data\<close>); the senders as the datatype \<open>message\<close>; and what an operation does
    besides changing its state, a list of \<open>action\<close>: send a message or write to a descriptor.
    \<open>Psas_Messages\<close> has the other structs of that header, which the program passes on unread, and
    shows that the records of the log are laid out like its messages.
  \<^item> \<open>Doubles\<close>: IEEE double arithmetic on rational numbers, each operation rounded to nearest even,
    and the 64 bits of a double. The locale \<open>rounding\<close> holds what the proofs use of rounding.
  \<^item> \<open>Utils_Time\<close>, \<open>Net_Addrs\<close>, \<open>Utils_Sockets\<close>: \<open>utilities/utils_time.c\<close>, \<open>net_addrs.c\<close> and \<open>.h\<close>,
    \<open>utils_sockets.c\<close>. Clock readings and results of system calls are inputs; the calls are recorded.
    Times are an instance of \<open>linorder\<close>.
  \<^item> \<open>Ethmux\<close>, \<open>Ethmux_Proofs\<close>: \<open>ethmux.c\<close>. State: the receive buffer and the \<open>demux_type\<close> of each stream.
  \<^item> \<open>Gps\<close>, \<open>Gps_Parse\<close>, \<open>Gps_Stream\<close>: \<open>devices/gps.c\<close>. State: the buffer and its fill count. The loop over
    the frames is a recursion on the distance to the end of the data; \<open>venus_parse\<close> is the reference
    parser on the bytes alone. \<open>Gps_Selftest\<close> is the program that the file becomes with \<open>TESTING\<close>; the
    results of \<open>random\<close> are its input.
  \<^item> \<open>Log_Filter\<close>: \<open>filter.c\<close>, without state.
  \<^item> \<open>Arm\<close>, \<open>Arm_Proofs\<close>: \<open>arm.c\<close>. State: the sensor lock, the GPS fix, the count of upright samples. The
    abstract specification \<open>arm_spec\<close> computes the state from the history of events.
  \<^item> \<open>State\<close>, \<open>State_Proofs\<close>, \<open>State_Range\<close>: \<open>state.c\<close>. State: the estimate, the time of the last sample, the
    launch. \<open>imu_results\<close> lists the results of all floating-point operations on a sample.
  \<^item> \<open>Rollcontrol\<close>, \<open>Rollcontrol_Proofs\<close>, \<open>Rollcontrol_Fins\<close>, \<open>Rollcontrol_Properties\<close>,
    \<open>Rollcontrol_Range\<close>: \<open>rollcontrol.c\<close>. State: the terms of the controller, the enable flags, the flight
    timer. \<open>control_results\<close> lists the results of all floating-point operations on an estimate.
  \<^item> \<open>Rollservo\<close>: \<open>devices/rollservo.c\<close>. State: the sequence number.
  \<^item> \<open>Logger\<close>, \<open>Logger_Proofs\<close>, \<open>Logger_Properties\<close>: \<open>logger.c\<close>. State: the two buffers, their fill
    counts, the sequence number. The abstract specification is a queue of records: \<open>holds\<close> says that the
    buffers contain the records that wait, \<open>advances\<close> that a step flushed some groups and added some.
  \<^item> \<open>Rnh\<close>, \<open>Sockets_Proofs\<close>: \<open>devices/rnh.c\<close>, and the descriptors the initialisation functions leave.
  \<^item> \<open>Fc_Main\<close>: \<open>main.miml\<close> and the program as a whole. \<open>connections\<close> is the table of receivers,
    \<open>receive\<close> one call of a receiver, \<open>perform\<close> the depth-first execution of what a module sends,
    \<open>fc_step\<close> one callback of the main loop, \<open>fc_start\<close> the state after initialisation.
    \<open>Fc_Main_Proofs\<close> derives from the contracts of the modules that each message meets what its
    receivers rely on, \<open>Fc_Sends\<close> what each receiver can do whatever its arguments; \<open>Fc_Runs\<close>,
    \<open>Fc_Dispatch\<close>, \<open>Fc_Commands\<close> and \<open>Fc_Properties\<close> hold theorems on the program.
  \<^item> \<open>Fc_Log\<close>, \<open>Fc_Log_Properties\<close>: the logger followed through the nested calls of a run. \<open>due\<close> is the
    abstract specification, the packets that a message obliges the program to log; \<open>told\<close> says that the
    logger was given exactly these.
  \<^item> \<open>Fc_Steps\<close>, \<open>Fc_Servo_Steps\<close>, \<open>Fc_Machine\<close>: the program as a step relation, \<open>dispatch\<close>, whose steps are
    single calls of receivers and single writes on a stack of pending tasks, without a bound on its
    depth; \<open>reachable\<close> are the configurations of the program, between and within turns of the main
    loop, and \<open>phase\<close> is the invariant on the servo commands that are under way. \<open>Fc_Typed\<close> types the
    calls: \<open>well_formed\<close> is what the arguments of a message look like, \<open>hazard\<close> names the calls in which
    even such arguments are too much for the receiver, with progress and preservation. \<open>Fc_Arming\<close>
    follows the one call that arms back to the datagram it came from.

  Each operation is one definition with the name of the C function, in the order of its file. It takes
  the static variables as a record and returns the new record with the actions, or \<open>None\<close> where
  the C code would read or write outside an object, divide by zero or convert out of range.

  \<^bold>\<open>What the theorems show\<close>

  \<^item> The program: a run from the start faults only through three named conditions on the input, and
    keeps every invariant, the limits of the servos and of the datagrams (\<open>run_without_fault\<close>);
    file and ground get exactly the packets that arrived (\<open>packets_logged\<close>), and every servo command is
    in the file (\<open>servo_commands_logged\<close>); the step relation and the functions agree
    (\<open>main_loop_equivalent\<close>) and every turn ends (\<open>turn_ends\<close>); every call is well typed and faults have three
    causes (\<open>calls_well_typed\<close>); packets to the servo board are numbered
    (\<open>servo_packets_numbered\<close>) and carry the flag of the moment (\<open>servo_flag_honest\<close>); a
    disarming datagram reaches the servos and the logger in the same turn (\<open>safe_datagram_disables\<close>);
    disabled servos move only after a command (\<open>disabled_until_commanded\<close>); only a datagram of the arming
    tool that is recognised as the arm command, down to \<open>#\<close> alone, arms, and only if the sensors
    allow it (\<open>armed_only_by_tool\<close>); the order of two receivers matters
    (\<open>servo_before_log\<close>).
  \<^item> Multiplexer: delivery in order, the sequence check on every branch, and that nothing is read outside
    the buffer and every message has the shape its receivers rely on.
  \<^item> GPS: the frames of a stream are delivered however they are cut, only valid ones are, and exactly
    when the buffer is overrun; the self-test ends and passes whatever \<open>random\<close> returns.
  \<^item> ARM: the state is the summary of the history, and exactly when a command arms.
  \<^item> State estimation: nothing is integrated before launch, the launch is latched, and no
    operation overflows.
  \<^item> Roll control: the angles are in range, the signs of the fin model and of the control are right,
    disarming and the flight timer disable the servos, and no operation overflows on an estimate that the
    state estimation sends.
  \<^item> Servo driver: the pulse widths are monotone, and exact at the limits and in the middle.
  \<^item> Logger: the file decodes to exactly the records logged; the datagrams fit and are numbered.
  \<^item> Time and sockets: exact round trips of times, the order of times is kept, no lost descriptors.
  \<^item> Errors of the code that the model shows, each as a theorem of kind \<open>error\<close>.

  \<^bold>\<open>Bounds\<close>

  The nesting of senders is bounded by \<open>NESTING = 3\<close>, and \<open>dispatch_ends\<close> proves that this is enough for
  every message: \<open>rank\<close> decreases from a message to those its receivers send. \<open>open_logfile\<close> tries 1000
  names, as the code does. All other recursions end by a measure. The step relation has no bound, and
  \<open>turn_ends\<close> proves that no chain of its steps is infinite.

  \<^bold>\<open>Assumptions\<close>

  \<^item> \<open>calls_as_listed glue\<close>: the generated senders call the receivers listed in \<open>main.miml\<close>, in order.
  \<^item> Operations change their state before their messages are dispatched. This is what the code does
    up to the order within one operation, which no module can observe: by \<open>dispatch_ends\<close> no message
    comes back to a module while it sends, and no receiver writes through the pointers it is given,
    except \<open>log_receive_rc\<close>, whose change of the angle is modelled.
  \<^item> \<open>exp\<close> is a parameter. Where the controller needs a finite result, the hypothesis \<open>dense\<close> asks that
    the air density is not below \<open>2 ^ -900\<close>, true of every altitude below about 5000 km.
  \<^item> The host is little-endian with 32-bit \<open>int\<close>. Doubles are rounded after each operation, so the
    reassociations that \<open>-Ofast\<close> permits are not modelled. The numbers have no infinity: for the estimation
    \<open>estimate_never_overflows\<close> shows that none can arise, and for the controller \<open>control_never_overflows\<close>
    does, in air of a density between \<open>2 ^ -900\<close> and \<open>2 ^ 700\<close>.

  \<^bold>\<open>Not modelled\<close>

  The main loop and the code generator of Elderberry (a submodule that is not in the repository),
  diagnostics on the standard streams, and the health monitor (Python). What is left of the C files is
  include lines, \<open>extern\<close> declarations and the descriptors that the modules keep in static variables.
\<close>

end
